(* ===== verification/Prelude.thy ===== *)
theory Prelude
  imports Main "HOL-Library.Char_ord" "HOL-Library.List_Lexorder" "HOL-Library.Sublist"
begin

text \<open>
  Shared ground of the development.

  Go strings are byte sequences, so they are modelled by \<^typ>\<open>string\<close> (one \<^typ>\<open>char\<close> per
  byte); Go's string comparison is the lexicographic order on bytes, which is the order that
  \<^theory_text>\<open>List_Lexorder\<close> and \<^theory_text>\<open>Char_ord\<close> put on \<^typ>\<open>string\<close>. This theory holds the functions of
  Go's \<^verbatim>\<open>strings\<close> and \<^verbatim>\<open>sort\<close> packages the program calls, the de-duplication loops it repeats in
  several packages, and the facts on lists and maps that the component theories share.

  White space is the ASCII white space of \<^verbatim>\<open>unicode.IsSpace\<close>; the two non-ASCII spaces of Latin-1
  (which are two bytes in UTF-8) are outside the model.
\<close>

section \<open>Results\<close>

text \<open>A Go function that returns a value and an error: \<open>Inl\<close> holds the error.\<close>

type_synonym ('e, 'a) result = "'e + 'a"

definition bind_result :: "('e, 'a) result \<Rightarrow> ('a \<Rightarrow> ('e, 'b) result) \<Rightarrow> ('e, 'b) result" where
  "bind_result r f = (case r of Inl e \<Rightarrow> Inl e | Inr a \<Rightarrow> f a)"

lemma bind_result_simps [simp]:
  "bind_result (Inl e) f = Inl e"
  "bind_result (Inr a) f = f a"
  by (simp_all add: bind_result_def)

lemma not_isl_Inr: "\<not> isl r \<Longrightarrow> r = Inr (projr r)"
  by (cases r) auto

lemma bind_result_eq_Inl: "bind_result r f = Inl e \<longleftrightarrow> r = Inl e \<or> (\<exists>a. r = Inr a \<and> f a = Inl e)"
  by (cases r) auto

lemma bind_result_eq_Inr [simp]:
  "bind_result r f = Inr b \<longleftrightarrow> (\<exists>a. r = Inr a \<and> f a = Inr b)"
  by (cases r) auto

text \<open>A Go loop that fails at its first failing element.\<close>

fun map_result :: "('a \<Rightarrow> ('e, 'b) result) \<Rightarrow> 'a list \<Rightarrow> ('e, 'b list) result" where
  "map_result f [] = Inr []"
| "map_result f (x # xs) =
     bind_result (f x) (\<lambda>y. bind_result (map_result f xs) (\<lambda>ys. Inr (y # ys)))"

lemma map_result_Inr_iff:
  "map_result f xs = Inr ys \<longleftrightarrow> list_all2 (\<lambda>x y. f x = Inr y) xs ys"
  by (induction xs arbitrary: ys) (auto simp: list_all2_Cons1)

lemma map_result_total:
  "(\<And>x. x \<in> set xs \<Longrightarrow> f x = Inr (g x)) \<Longrightarrow> map_result f xs = Inr (map g xs)"
  by (induction xs) auto

text \<open>A loop that returns an error at the first element that fails a test.\<close>

lemma case_find_Inr [simp]:
  "(case find P xs of None \<Rightarrow> Inr () | Some a \<Rightarrow> Inl (f a)) = Inr () \<longleftrightarrow> (\<forall>x \<in> set xs. \<not> P x)"
  by (induction xs) auto

section \<open>Go's strings package\<close>

abbreviation has_prefix :: "string \<Rightarrow> string \<Rightarrow> bool" where
  "has_prefix s p \<equiv> prefix p s"

abbreviation has_suffix :: "string \<Rightarrow> string \<Rightarrow> bool" where
  "has_suffix s p \<equiv> suffix p s"

definition trim_prefix :: "string \<Rightarrow> string \<Rightarrow> string" where
  "trim_prefix s p = (if has_prefix s p then drop (length p) s else s)"

definition trim_suffix :: "string \<Rightarrow> string \<Rightarrow> string" where
  "trim_suffix s p = (if has_suffix s p then take (length s - length p) s else s)"

definition is_space :: "char \<Rightarrow> bool" where
  "is_space c \<longleftrightarrow> c \<in> {CHR '' '', CHR 0x09, CHR 0x0A, CHR 0x0B, CHR 0x0C, CHR 0x0D}"

definition trim_left :: "string \<Rightarrow> string" where
  "trim_left s = dropWhile is_space s"

definition trim_space :: "string \<Rightarrow> string" where
  "trim_space s = rev (trim_left (rev (trim_left s)))"

text \<open>\<^verbatim>\<open>strings.Trim(s, "/")\<close>.\<close>

definition trim_slashes :: "string \<Rightarrow> string" where
  "trim_slashes s = rev (dropWhile (\<lambda>c. c = CHR ''/'') (rev (dropWhile (\<lambda>c. c = CHR ''/'') s)))"

fun split_on :: "char \<Rightarrow> string \<Rightarrow> string list" where
  "split_on c [] = [[]]"
| "split_on c (x # xs) =
     (if x = c then [] # split_on c xs
      else (case split_on c xs of [] \<Rightarrow> [[x]] | w # ws \<Rightarrow> (x # w) # ws))"

fun join_with :: "string \<Rightarrow> string list \<Rightarrow> string" where
  "join_with sep [] = []"
| "join_with sep [w] = w"
| "join_with sep (w # v # ws) = w @ sep @ join_with sep (v # ws)"

text \<open>\<^verbatim>\<open>strings.IndexByte\<close> and \<^verbatim>\<open>strings.LastIndex\<close> of one byte; \<open>None\<close> is Go's \<open>-1\<close>.\<close>

fun index_byte :: "char \<Rightarrow> string \<Rightarrow> nat option" where
  "index_byte c [] = None"
| "index_byte c (x # xs) = (if x = c then Some 0 else map_option Suc (index_byte c xs))"

fun last_index :: "char \<Rightarrow> string \<Rightarrow> nat option" where
  "last_index c [] = None"
| "last_index c (x # xs) =
     (case last_index c xs of Some i \<Rightarrow> Some (Suc i) | None \<Rightarrow> if x = c then Some 0 else None)"

text \<open>\<^verbatim>\<open>strings.Index\<close> of a substring.\<close>

fun index_of :: "string \<Rightarrow> string \<Rightarrow> nat option" where
  "index_of p [] = (if p = [] then Some 0 else None)"
| "index_of p (x # xs) =
     (if has_prefix (x # xs) p then Some 0 else map_option Suc (index_of p xs))"

lemma split_on_not_Nil [simp]: "split_on c s \<noteq> []"
  by (cases s) (auto split: list.splits)

lemma split_on_no_sep: "c \<notin> set s \<Longrightarrow> split_on c s = [s]"
  by (induction s) auto

lemma split_on_append_sep:
  "c \<notin> set w \<Longrightarrow> split_on c (w @ c # s) = w # split_on c s"
  by (induction w) auto

lemma split_on_join:
  assumes "ws \<noteq> []" and "\<And>w. w \<in> set ws \<Longrightarrow> c \<notin> set w"
  shows "split_on c (join_with [c] ws) = ws"
  using assms
proof (induction "[c]" ws rule: join_with.induct)
  case (3 w v ws)
  then show ?case by (simp add: split_on_append_sep)
qed (auto simp: split_on_no_sep)

lemma join_split_on: "join_with [c] (split_on c s) = s"
proof (induction s)
  case (Cons x xs)
  obtain w ws where s: "split_on c xs = w # ws" by (cases "split_on c xs") auto
  then show ?case using Cons by (cases ws) auto
qed simp

lemma join_with_append:
  "xs \<noteq> [] \<Longrightarrow> ys \<noteq> [] \<Longrightarrow> join_with sep (xs @ ys) = join_with sep xs @ sep @ join_with sep ys"
proof (induction sep xs rule: join_with.induct)
  case (2 sep w)
  then show ?case by (cases ys) auto
qed auto

lemma last_index_None [simp]: "last_index c s = None \<longleftrightarrow> c \<notin> set s"
  by (induction s) (auto split: option.splits)

lemma last_index_append_Cons:
  "c \<notin> set r \<Longrightarrow> last_index c (l @ c # r) = Some (length l)"
proof (induction l)
  case Nil
  then show ?case by (cases "last_index c r") (auto simp flip: last_index_None)
qed auto

lemma last_index_SomeD:
  "last_index c s = Some i \<Longrightarrow> i < length s \<and> s ! i = c \<and> c \<notin> set (drop (Suc i) s)"
proof (induction s arbitrary: i)
  case (Cons x xs)
  show ?case
  proof (cases "last_index c xs")
    case None
    with Cons.prems show ?thesis by (auto split: if_splits)
  next
    case (Some j)
    with Cons show ?thesis by auto
  qed
qed simp

lemma index_byte_append:
  "c \<notin> set l \<Longrightarrow> index_byte c (l @ c # r) = Some (length l)"
  by (induction l) auto

lemma trim_left_no_space: "s = [] \<or> \<not> is_space (hd s) \<Longrightarrow> trim_left s = s"
  by (cases s) (auto simp: trim_left_def)

lemma trim_space_Nil [simp]: "trim_space [] = []"
  by (simp add: trim_space_def trim_left_def)

lemma trim_space_id:
  "s \<noteq> [] \<Longrightarrow> \<not> is_space (hd s) \<Longrightarrow> \<not> is_space (last s) \<Longrightarrow> trim_space s = s"
  by (simp add: trim_space_def trim_left_no_space hd_rev)

lemma trim_space_no_space:
  "(\<And>c. c \<in> set s \<Longrightarrow> \<not> is_space c) \<Longrightarrow> trim_space s = s"
  by (cases "s = []") (auto intro: trim_space_id)

lemma hd_trim_left: "trim_left s \<noteq> [] \<Longrightarrow> \<not> is_space (hd (trim_left s))"
  by (metis hd_dropWhile trim_left_def)

lemma last_trim_left: "trim_left s \<noteq> [] \<Longrightarrow> last (trim_left s) = last s"
  by (metis last_appendR takeWhile_dropWhile_id trim_left_def)

lemma trim_left_Nil [simp]: "trim_left [] = []"
  by (simp add: trim_left_def)

lemma trim_space_idem [simp]: "trim_space (trim_space s) = trim_space s"
proof (cases "trim_space s = []")
  case False
  let ?r = "rev (trim_left s)"
  have ne: "trim_left ?r \<noteq> []" using False by (simp add: trim_space_def)
  have "\<not> is_space (last (trim_space s))"
    using hd_trim_left[OF ne] by (simp add: trim_space_def last_rev)
  moreover have "\<not> is_space (hd (trim_space s))"
  proof -
    have s: "trim_left s \<noteq> []" using ne by (cases "trim_left s") auto
    then show ?thesis
      using hd_trim_left[OF s] last_trim_left[OF ne] by (simp add: trim_space_def hd_rev last_rev)
  qed
  ultimately show ?thesis using False by (blast intro: trim_space_id)
qed simp

section \<open>Sorted key lists\<close>

text \<open>
  Collecting the keys of a Go map or set and sorting them (\<^verbatim>\<open>sort.Strings\<close>,
  \<^verbatim>\<open>slices.Sort\<close>) yields the one sorted list without repetition of the key set; the iteration
  order of the map does not matter.
\<close>

definition sorted_keys :: "'a::linorder set \<Rightarrow> 'a list" where
  "sorted_keys A = sorted_list_of_set A"

lemma set_sorted_keys [simp]: "finite A \<Longrightarrow> set (sorted_keys A) = A"
  by (simp add: sorted_keys_def)

lemma sorted_sorted_keys [simp]: "sorted (sorted_keys A)"
  by (simp add: sorted_keys_def)

lemma distinct_sorted_keys [simp]: "distinct (sorted_keys A)"
  by (simp add: sorted_keys_def)

lemma sorted_keys_empty [simp]: "sorted_keys {} = []"
  by (simp add: sorted_keys_def)

lemma sorted_keys_eq_Nil: "finite A \<Longrightarrow> sorted_keys A = [] \<longleftrightarrow> A = {}"
  by (simp add: sorted_keys_def)

lemma sorted_keys_set: "sorted_keys (set xs) = sort (remdups xs)"
  by (simp add: sorted_keys_def sorted_list_of_set_sort_remdups)

lemma sort_distinct_eq:
  "distinct xs \<Longrightarrow> sort xs = sorted_keys (set xs)"
  by (simp add: sorted_keys_set distinct_remdups_id)

section \<open>The de-duplication loops\<close>

text \<open>
  \<open>keep_loop\<close> is the loop shared by \<^verbatim>\<open>dedupeStringsKeepOrder\<close> (internal/apply),
  \<^verbatim>\<open>dedupeTrimmedStrings\<close> and \<^verbatim>\<open>dedupeSortedStrings\<close> (pkg/store) and
  \<^verbatim>\<open>dedupeSortedStrings\<close> (internal/backend): trim, drop blanks, drop what was seen.
\<close>

fun keep_loop :: "string set \<Rightarrow> string list \<Rightarrow> string list" where
  "keep_loop seen [] = []"
| "keep_loop seen (s # ss) =
     (let t = trim_space s
      in if t = [] \<or> t \<in> seen then keep_loop seen ss else t # keep_loop (insert t seen) ss)"

definition dedupe_keep_order :: "string list \<Rightarrow> string list" where
  "dedupe_keep_order ss = keep_loop {} ss"

definition dedupe_sorted :: "string list \<Rightarrow> string list" where
  "dedupe_sorted ss = sort (keep_loop {} ss)"

definition trimmed :: "string list \<Rightarrow> string set" where
  "trimmed ss = trim_space ` set ss - {[]}"

lemma trimmed_code [code]: "trimmed ss = set (filter (\<lambda>s. s \<noteq> []) (map trim_space ss))"
  by (auto simp: trimmed_def)

lemma finite_trimmed [simp]: "finite (trimmed ss)"
  by (simp add: trimmed_def)

lemma trimmed_simps [simp]:
  "trimmed [] = {}"
  "trimmed (s # ss) = (if trim_space s = [] then trimmed ss else insert (trim_space s) (trimmed ss))"
  by (auto simp: trimmed_def)

lemma trimmed_append [simp]: "trimmed (xs @ ys) = trimmed xs \<union> trimmed ys"
  by (auto simp: trimmed_def)

lemma set_keep_loop: "set (keep_loop seen ss) = trimmed ss - seen"
  by (induction seen ss rule: keep_loop.induct) (auto simp: Let_def)

lemma distinct_keep_loop: "distinct (keep_loop seen ss)"
  by (induction seen ss rule: keep_loop.induct) (auto simp: Let_def set_keep_loop)

lemma set_dedupe_keep_order [simp]: "set (dedupe_keep_order ss) = trimmed ss"
  by (simp add: dedupe_keep_order_def set_keep_loop)

lemma distinct_dedupe_keep_order [simp]: "distinct (dedupe_keep_order ss)"
  by (simp add: dedupe_keep_order_def distinct_keep_loop)

lemma dedupe_sorted_eq: "dedupe_sorted ss = sorted_keys (trimmed ss)"
  by (simp add: dedupe_sorted_def sort_distinct_eq distinct_keep_loop set_keep_loop)

lemma set_dedupe_sorted [simp]: "set (dedupe_sorted ss) = trimmed ss"
  by (simp add: dedupe_sorted_eq)

lemma distinct_dedupe_sorted [simp]: "distinct (dedupe_sorted ss)"
  by (simp add: dedupe_sorted_eq)

lemma sorted_dedupe_sorted [simp]: "sorted (dedupe_sorted ss)"
  by (simp add: dedupe_sorted_eq)

section \<open>Maps\<close>

text \<open>A Go map built by a loop of assignments: a later row overwrites an earlier one.\<close>

definition index_by :: "('a \<Rightarrow> 'k) \<Rightarrow> 'a list \<Rightarrow> ('k \<rightharpoonup> 'a)" where
  "index_by key xs = foldl (\<lambda>m x. m(key x \<mapsto> x)) Map.empty xs"

lemma foldl_upd_map_of:
  "foldl (\<lambda>m x. m(key x \<mapsto> val x)) m xs = m ++ map_of (rev (map (\<lambda>x. (key x, val x)) xs))"
  by (induction xs arbitrary: m) (auto simp: map_add_def fun_eq_iff split: option.splits)

lemma index_by_map_of: "index_by key xs = map_of (rev (map (\<lambda>x. (key x, x)) xs))"
  by (simp add: index_by_def foldl_upd_map_of)

lemma dom_index_by [simp]: "dom (index_by key xs) = key ` set xs"
  by (auto simp: index_by_map_of dom_map_of_conv_image_fst image_iff)

lemma index_by_SomeD: "index_by key xs k = Some x \<Longrightarrow> x \<in> set xs \<and> key x = k"
  by (auto simp: index_by_map_of dest!: map_of_SomeD)

lemma index_by_distinct:
  "distinct (map key xs) \<Longrightarrow> index_by key xs k = Some x \<longleftrightarrow> x \<in> set xs \<and> key x = k"
proof -
  assume d: "distinct (map key xs)"
  then have "distinct (map fst (rev (map (\<lambda>x. (key x, x)) xs)))"
    by (simp add: rev_map[symmetric] comp_def)
  then have "map_of (rev (map (\<lambda>x. (key x, x)) xs)) k = Some x
      \<longleftrightarrow> (k, x) \<in> set (rev (map (\<lambda>x. (key x, x)) xs))"
    by (rule map_of_eq_Some_iff)
  then show ?thesis by (auto simp: index_by_map_of)
qed

lemma index_by_None: "index_by key xs k = None \<longleftrightarrow> k \<notin> key ` set xs"
  by (metis dom_index_by domIff)

lemma option_cases_neq [simp]: "(\<nexists>y. m x = Some y) \<longleftrightarrow> m x = None"
  by (cases "m x") auto

end
