(* ===== verification/Json.thy ===== *)
theory Json
  imports Prelude "HOL-Library.Multiset"
begin

text \<open>
  JSON values as the program handles them: a \<^verbatim>\<open>json.RawMessage\<close> is the value it encodes, with
  the order and the repetitions of its object keys, or \<open>None\<close> when the message is empty.

  \<^verbatim>\<open>json.Unmarshal\<close> into \<^verbatim>\<open>any\<close> followed by \<^verbatim>\<open>json.Marshal\<close> is \<open>canon\<close>: the last of several equal
  keys wins, keys come out sorted, and an integer goes through \<^verbatim>\<open>float64\<close>, which keeps 53
  significant bits. \<open>JFrac\<close> is a number written with a fraction or an exponent; its text is kept
  (the shortest text of a \<^verbatim>\<open>float64\<close>, which decoding and encoding leave as it is).
\<close>

datatype json =
    JNull
  | JBool bool
  | JNum int
  | JFrac string
  | JStr string
  | JArr "json list"
  | JObj "(string \<times> json) list"

type_synonym raw = "json option"

section \<open>Integers as float64\<close>

fun bit_len :: "nat \<Rightarrow> nat" where
  "bit_len n = (if n = 0 then 0 else Suc (bit_len (n div 2)))"

declare bit_len.simps [simp del]

definition round_half_even :: "nat \<Rightarrow> nat \<Rightarrow> nat" where
  "round_half_even n k =
     (let q = n div 2 ^ k; r = n mod 2 ^ k
      in if 2 * r > 2 ^ k \<or> (2 * r = 2 ^ k \<and> odd q) then Suc q else q)"

definition float64_int :: "int \<Rightarrow> int" where
  "float64_int v =
     (let n = nat (abs v); k = bit_len n - 53
      in sgn v * int (round_half_even n k * 2 ^ k))"

lemma bit_len_le: "n < 2 ^ k \<Longrightarrow> bit_len n \<le> k"
proof (induction n arbitrary: k rule: bit_len.induct)
  case (1 n)
  show ?case
  proof (cases "n = 0")
    case True
    then show ?thesis by (simp add: bit_len.simps)
  next
    case False
    then obtain j where k: "k = Suc j" using "1.prems" by (cases k) auto
    then have "n div 2 < 2 ^ j" using "1.prems" by (simp add: less_mult_imp_div_less)
    then show ?thesis using "1.IH"[of j] False k by (simp add: bit_len.simps[of n])
  qed
qed

lemma float64_int_small: "\<bar>v\<bar> < 2 ^ 53 \<Longrightarrow> float64_int v = v"
proof -
  assume "\<bar>v\<bar> < 2 ^ 53"
  then have "nat \<bar>v\<bar> < 2 ^ 53" by (simp add: nat_less_iff)
  then have "bit_len (nat \<bar>v\<bar>) - 53 = 0" using bit_len_le by simp
  then show ?thesis
    by (simp add: float64_int_def round_half_even_def Let_def sgn_mult_abs)
qed

section \<open>Decoding and encoding again\<close>

definition last_fields :: "(string \<times> 'a) list \<Rightarrow> (string \<times> 'a) list" where
  "last_fields kvs =
     map (\<lambda>k. (k, the (map_of (rev kvs) k))) (sort (remdups (map fst kvs)))"

fun canon :: "json \<Rightarrow> json" and canon_fields :: "(string \<times> json) list \<Rightarrow> (string \<times> json) list" where
  "canon JNull = JNull"
| "canon (JBool b) = JBool b"
| "canon (JNum n) = JNum (float64_int n)"
| "canon (JFrac s) = JFrac s"
| "canon (JStr s) = JStr s"
| "canon (JArr xs) = JArr (map canon xs)"
| "canon (JObj kvs) = JObj (last_fields (canon_fields kvs))"
| "canon_fields [] = []"
| "canon_fields ((k, v) # kvs) = (k, canon v) # canon_fields kvs"

lemma canon_fields_map: "canon_fields kvs = map (\<lambda>(k, v). (k, canon v)) kvs"
  by (induction kvs) auto

lemma map_of_mset_eq:
  assumes "distinct (map fst xs)" and "mset xs = mset ys"
  shows "map_of xs = map_of ys"
proof -
  have "mset (map fst xs) = mset (map fst ys)" using assms(2) by (simp add: mset_map)
  then have d: "distinct (map fst ys)" using assms(1) mset_eq_imp_distinct_iff by blast
  have "set xs = set ys" using assms(2) mset_eq_setD by blast
  then show ?thesis using assms(1) d map_of_inject_set by blast
qed

lemma map_of_rev_distinct: "distinct (map fst xs) \<Longrightarrow> map_of (rev xs) = map_of xs"
  using map_of_mset_eq[of "xs" "rev xs"] by simp

text \<open>The order of distinct keys does not matter to the canonical form.\<close>

lemma last_fields_mset_eq:
  assumes d: "distinct (map fst xs)" and m: "mset xs = mset ys"
  shows "last_fields xs = last_fields ys"
proof -
  have "distinct (map fst ys)"
    using d m by (metis mset_eq_imp_distinct_iff mset_map)
  moreover have "set (map fst xs) = set (map fst ys)"
    using m by (metis mset_eq_setD mset_map)
  ultimately show ?thesis
    using d map_of_mset_eq[OF d m]
    by (simp add: last_fields_def map_of_rev_distinct sorted_list_of_set_sort_remdups[symmetric])
qed

lemma canon_obj_mset_eq:
  assumes "distinct (map fst xs)" and "mset xs = mset ys"
  shows "canon (JObj xs) = canon (JObj ys)"
proof -
  have "distinct (map fst (canon_fields xs))"
    using assms(1) by (simp add: canon_fields_map comp_def case_prod_unfold)
  moreover have "mset (canon_fields xs) = mset (canon_fields ys)"
    using assms(2) by (simp add: canon_fields_map mset_map)
  ultimately show ?thesis using last_fields_mset_eq by simp
qed

text \<open>The comparison of two raw messages after decoding and encoding (store and apply packages).\<close>

definition canon_raw :: "raw \<Rightarrow> raw" where
  "canon_raw = map_option canon"

lemma canon_raw_simps [simp]:
  "canon_raw None = None"
  "canon_raw (Some v) = Some (canon v)"
  by (simp_all add: canon_raw_def)

end
