(* ===== verification/GoText.thy ===== *)
theory GoText
  imports Prelude
begin

text \<open>
  The parts of Go's \<^verbatim>\<open>strconv\<close> package that the program uses on addresses: \<^verbatim>\<open>Itoa\<close>/\<^verbatim>\<open>Atoi\<close> on 64-bit
  integers, \<^verbatim>\<open>Quote\<close> and \<^verbatim>\<open>Unquote\<close> of double-quoted strings. Bytes above 127 belong to UTF-8
  sequences of printable characters, which \<^verbatim>\<open>Quote\<close> copies.
\<close>

section \<open>Decimal numbers\<close>

definition digit_char :: "nat \<Rightarrow> char" where
  "digit_char d = char_of (48 + d)"

definition is_digit :: "char \<Rightarrow> bool" where
  "is_digit c \<longleftrightarrow> 48 \<le> (of_char c :: nat) \<and> (of_char c :: nat) < 58"

definition digit_val :: "char \<Rightarrow> nat" where
  "digit_val c = of_char c - 48"

fun show_nat :: "nat \<Rightarrow> string" where
  "show_nat n =
     (if n < 10 then [digit_char n] else show_nat (n div 10) @ [digit_char (n mod 10)])"

declare show_nat.simps [simp del]

definition digits_val :: "string \<Rightarrow> nat" where
  "digits_val s = foldl (\<lambda>n c. 10 * n + digit_val c) 0 s"

definition show_int :: "int \<Rightarrow> string" where
  "show_int i = (if i < 0 then CHR ''-'' # show_nat (nat (- i)) else show_nat (nat i))"

definition int64_range :: "int \<Rightarrow> bool" where
  "int64_range i \<longleftrightarrow> - (2 ^ 63) \<le> i \<and> i < 2 ^ 63"

text \<open>\<^verbatim>\<open>strconv.Atoi\<close>: an optional sign, at least one digit, in the range of \<^verbatim>\<open>int64\<close>.\<close>

definition atoi :: "string \<Rightarrow> int option" where
  "atoi s =
     (let (neg, ds) = (case s of
            [] \<Rightarrow> (False, [])
          | c # cs \<Rightarrow> if c = CHR ''-'' then (True, cs) else if c = CHR ''+'' then (False, cs) else (False, s));
          v = (if neg then - int (digits_val ds) else int (digits_val ds))
      in if ds \<noteq> [] \<and> list_all is_digit ds \<and> int64_range v then Some v else None)"

lemma of_char_digit_char [simp]: "d < 10 \<Longrightarrow> of_char (digit_char d) = 48 + d"
  by (simp add: digit_char_def of_char_of)

lemma is_digit_digit_char [simp]: "d < 10 \<Longrightarrow> is_digit (digit_char d)"
  by (simp add: is_digit_def)

lemma digit_val_digit_char [simp]: "d < 10 \<Longrightarrow> digit_val (digit_char d) = d"
  by (simp add: digit_val_def)

lemma digits_val_append: "digits_val (s @ [c]) = 10 * digits_val s + digit_val c"
  by (simp add: digits_val_def)

lemma show_nat_digits: "list_all is_digit (show_nat n) \<and> show_nat n \<noteq> []"
proof (induction n rule: show_nat.induct)
  case (1 n)
  then show ?case by (subst (1 2) show_nat.simps) auto
qed

lemma digits_val_show_nat [simp]: "digits_val (show_nat n) = n"
proof (induction n rule: show_nat.induct)
  case (1 n)
  show ?case
  proof (cases "n < 10")
    case True
    then show ?thesis by (subst show_nat.simps) (simp add: digits_val_def)
  next
    case False
    then show ?thesis using 1 by (subst show_nat.simps) (simp add: digits_val_append)
  qed
qed

lemma not_digit_signs [simp]:
  "\<not> is_digit (CHR ''-'')" "\<not> is_digit (CHR ''+'')" "\<not> is_digit (CHR ''['')"
  "\<not> is_digit (CHR 0x22)" "\<not> is_digit (CHR '' '')" "\<not> is_digit (CHR '']'')" "\<not> is_digit (CHR ''.'')"
  by (simp_all add: is_digit_def)

lemma atoi_digits:
  assumes "list_all is_digit ds" and "ds \<noteq> []"
  shows "atoi ds = (if int64_range (int (digits_val ds)) then Some (int (digits_val ds)) else None)"
    and "atoi (CHR ''-'' # ds) =
      (if int64_range (- int (digits_val ds)) then Some (- int (digits_val ds)) else None)"
proof -
  obtain c cs where ds: "ds = c # cs" using assms(2) by (cases ds) auto
  have "c \<noteq> CHR ''-''" "c \<noteq> CHR ''+''" using assms(1) ds by auto
  then show "atoi ds = (if int64_range (int (digits_val ds)) then Some (int (digits_val ds)) else None)"
    using assms by (simp add: atoi_def ds)
  show "atoi (CHR ''-'' # ds) =
      (if int64_range (- int (digits_val ds)) then Some (- int (digits_val ds)) else None)"
    using assms by (simp add: atoi_def)
qed

lemma atoi_show_int: "int64_range i \<Longrightarrow> atoi (show_int i) = Some i"
  using atoi_digits[of "show_nat (nat (- i))"] atoi_digits[of "show_nat (nat i)"]
    show_nat_digits[of "nat (- i)"] show_nat_digits[of "nat i"]
  by (auto simp: show_int_def)

lemma set_show_int: "c \<in> set (show_int i) \<Longrightarrow> is_digit c \<or> c = CHR ''-''"
  using show_nat_digits by (auto simp: show_int_def list_all_iff split: if_splits)

lemma show_int_not_Nil [simp]: "show_int i \<noteq> []"
  using show_nat_digits by (auto simp: show_int_def)

section \<open>Quoted strings\<close>

abbreviation dquote :: char where "dquote \<equiv> CHR 0x22"
abbreviation backslash :: char where "backslash \<equiv> CHR 0x5C"

definition hex_char :: "nat \<Rightarrow> char" where
  "hex_char d = (if d < 10 then char_of (48 + d) else char_of (87 + d))"

definition hex_val :: "char \<Rightarrow> nat option" where
  "hex_val c =
     (let n = (of_char c :: nat)
      in if 48 \<le> n \<and> n < 58 then Some (n - 48)
         else if 97 \<le> n \<and> n < 103 then Some (n - 87)
         else if 65 \<le> n \<and> n < 71 then Some (n - 55) else None)"

fun hex_vals :: "string \<Rightarrow> nat option" where
  "hex_vals [] = Some 0"
| "hex_vals (c # cs) = (case (hex_val c, hex_vals cs) of
     (Some d, Some v) \<Rightarrow> Some (d * 16 ^ length cs + v) | _ \<Rightarrow> None)"

definition simple_escapes :: "(char \<times> char) list" where
  "simple_escapes =
     [(CHR ''a'', CHR 0x07), (CHR ''b'', CHR 0x08), (CHR ''f'', CHR 0x0C), (CHR ''n'', CHR 0x0A),
      (CHR ''r'', CHR 0x0D), (CHR ''t'', CHR 0x09), (CHR ''v'', CHR 0x0B),
      (backslash, backslash), (dquote, dquote)]"

definition quote_char :: "char \<Rightarrow> string" where
  "quote_char c =
     (case map_of (map prod.swap simple_escapes) c of
        Some e \<Rightarrow> [backslash, e]
      | None \<Rightarrow>
          (let n = (of_char c :: nat)
           in if n < 32 \<or> n = 127
              then [backslash, CHR ''x'', hex_char (n div 16), hex_char (n mod 16)] else [c]))"

definition quote :: "string \<Rightarrow> string" where
  "quote s = [dquote] @ concat (map quote_char s) @ [dquote]"

text \<open>The UTF-8 bytes of a code point, for the escapes \<^verbatim>\<open>\u\<close> and \<^verbatim>\<open>\U\<close>.\<close>

definition utf8_encode :: "nat \<Rightarrow> string option" where
  "utf8_encode r =
     (if r < 0x80 then Some [char_of r]
      else if r < 0x800 then Some [char_of (0xC0 + r div 0x40), char_of (0x80 + r mod 0x40)]
      else if 0xD800 \<le> r \<and> r < 0xE000 then None
      else if r < 0x10000 then Some [char_of (0xE0 + r div 0x1000),
        char_of (0x80 + r div 0x40 mod 0x40), char_of (0x80 + r mod 0x40)]
      else if r < 0x110000 then Some [char_of (0xF0 + r div 0x40000),
        char_of (0x80 + r div 0x1000 mod 0x40), char_of (0x80 + r div 0x40 mod 0x40),
        char_of (0x80 + r mod 0x40)]
      else None)"

definition octal_vals :: "string \<Rightarrow> nat option" where
  "octal_vals ds =
     (if list_all (\<lambda>c. 48 \<le> (of_char c :: nat) \<and> (of_char c :: nat) < 56) ds
         \<and> foldl (\<lambda>n c. 8 * n + (of_char c - 48)) 0 ds < (256 :: nat)
      then Some (foldl (\<lambda>n c. 8 * n + (of_char c - 48)) 0 ds) else None)"

text \<open>One escape after its backslash: the bytes it stands for and how much of the text it takes.\<close>

definition escape :: "string \<Rightarrow> (string \<times> nat) option" where
  "escape s = (case s of
     [] \<Rightarrow> None
   | c # cs \<Rightarrow>
      (case map_of simple_escapes c of
         Some b \<Rightarrow> Some ([b], 1)
       | None \<Rightarrow>
          if c = CHR ''x'' then
            (if length cs < 2 then None else map_option (\<lambda>v. ([char_of v], 3)) (hex_vals (take 2 cs)))
          else if c = CHR ''u'' then
            (if length cs < 4 then None else map_option (\<lambda>b. (b, 5)) (Option.bind (hex_vals (take 4 cs)) utf8_encode))
          else if c = CHR ''U'' then
            (if length cs < 8 then None else map_option (\<lambda>b. (b, 9)) (Option.bind (hex_vals (take 8 cs)) utf8_encode))
          else if 48 \<le> (of_char c :: nat) \<and> (of_char c :: nat) < 56 then
            (if length cs < 2 then None else map_option (\<lambda>v. ([char_of v], 3)) (octal_vals (take 3 s)))
          else None))"

lemma escape_pos: "escape s = Some (b, n) \<Longrightarrow> 0 < n \<and> n \<le> 9"
  by (auto simp: escape_def split: list.splits option.splits if_splits)

text \<open>The text between the quotes of \<^verbatim>\<open>strconv.Unquote\<close>: no bare quote, no newline.\<close>

function unquote_body :: "string \<Rightarrow> string option" where
  "unquote_body [] = Some []"
| "unquote_body (c # cs) =
     (if c = dquote \<or> c = CHR 0x0A then None
      else if c = backslash then
        (case escape cs of None \<Rightarrow> None
         | Some (b, n) \<Rightarrow> map_option (\<lambda>r. b @ r) (unquote_body (drop n cs)))
      else map_option (\<lambda>r. c # r) (unquote_body cs))"
  by pat_completeness auto
termination by (relation "measure length") (auto split: option.splits)

definition unquote :: "string \<Rightarrow> string option" where
  "unquote s =
     (if length s \<ge> 2 \<and> hd s = dquote \<and> last s = dquote
      then unquote_body (butlast (tl s)) else None)"

lemma hex_val_hex_char: "d < 16 \<Longrightarrow> hex_val (hex_char d) = Some d"
  by (auto simp: hex_val_def hex_char_def of_char_of Let_def)

lemma escape_simple: "(e, b) \<in> set simple_escapes \<Longrightarrow> escape (e # s) = Some ([b], 1)"
proof -
  assume "(e, b) \<in> set simple_escapes"
  moreover have "distinct (map fst simple_escapes)" by (simp add: simple_escapes_def)
  ultimately have "map_of simple_escapes e = Some b" by (rule map_of_is_SomeI[rotated])
  then show ?thesis by (simp add: escape_def)
qed

lemma map_of_simple_x [simp]: "map_of simple_escapes (CHR ''x'') = None"
  by (simp add: simple_escapes_def)

lemma escape_hex:
  "n < 256 \<Longrightarrow> escape (CHR ''x'' # hex_char (n div 16) # hex_char (n mod 16) # s) = Some ([char_of n], 3)"
  by (simp add: escape_def hex_val_hex_char)

lemma unquote_body_quote_char: "unquote_body (quote_char c @ s) = map_option ((#) c) (unquote_body s)"
proof (cases "map_of (map prod.swap simple_escapes) c")
  case (Some e)
  then have "(e, c) \<in> set simple_escapes" by (auto dest!: map_of_SomeD)
  then have "escape (e # s) = Some ([c], 1)" by (rule escape_simple)
  moreover have "(@) [c] = (#) c" by auto
  ultimately show ?thesis using Some by (simp add: quote_char_def)
next
  case None
  show ?thesis
  proof (cases "(of_char c :: nat) < 32 \<or> (of_char c :: nat) = 127")
    case True
    have "escape (CHR ''x'' # hex_char (of_char c div 16) # hex_char (of_char c mod 16) # s) = Some ([c], 3)"
      using escape_hex[of "of_char c" s] by simp
    moreover have "(@) [c] = (#) c" by auto
    ultimately show ?thesis using True None by (simp add: quote_char_def Let_def)
  next
    case False
    have "c \<noteq> dquote" "c \<noteq> CHR 0x0A" "c \<noteq> backslash"
      using None by (auto simp: simple_escapes_def split: if_splits)
    then show ?thesis using False None by (simp add: quote_char_def Let_def)
  qed
qed

lemma unquote_body_quote: "unquote_body (concat (map quote_char s)) = Some s"
  by (induction s) (simp_all add: unquote_body_quote_char)

lemma unquote_quote [simp]: "unquote (quote s) = Some s"
  by (simp add: unquote_def quote_def unquote_body_quote butlast_append)

text \<open>Quoting introduces no bracket.\<close>

definition is_bracket :: "char \<Rightarrow> bool" where
  "is_bracket b \<longleftrightarrow> b = CHR ''['' \<or> b = CHR '']''"

lemma hex_char_not_bracket: "d < 16 \<Longrightarrow> is_bracket b \<Longrightarrow> hex_char d \<noteq> b"
proof
  assume d: "d < 16" and b: "is_bracket b" and "hex_char d = b"
  then have "(of_char (hex_char d) :: nat) = 91 \<or> (of_char (hex_char d) :: nat) = 93"
    using b by (auto simp: is_bracket_def)
  then show False using d by (auto simp: hex_char_def of_char_of split: if_splits)
qed

lemma of_char_div16: "(of_char c :: nat) div 16 < 16"
  using nat_of_char_less_256[of c] by (simp add: less_mult_imp_div_less)

lemma simple_escapes_not_bracket:
  "is_bracket b \<Longrightarrow> map_of (map prod.swap simple_escapes) c \<noteq> Some b"
proof
  assume b: "is_bracket b" and "map_of (map prod.swap simple_escapes) c = Some b"
  then have "(b, c) \<in> set simple_escapes" by (auto dest!: map_of_SomeD)
  then show False using b by (auto simp: is_bracket_def simple_escapes_def)
qed

lemma is_bracket_neq: "is_bracket b \<Longrightarrow> b \<noteq> backslash \<and> b \<noteq> CHR ''x'' \<and> b \<noteq> dquote"
  by (auto simp: is_bracket_def)

lemma quote_char_not_bracket: "is_bracket b \<Longrightarrow> c \<noteq> b \<Longrightarrow> b \<notin> set (quote_char c)"
  using hex_char_not_bracket[of "of_char c div 16" b] hex_char_not_bracket[of "of_char c mod 16" b]
    of_char_div16[of c] simple_escapes_not_bracket[of b c] is_bracket_neq[of b]
  by (auto simp: quote_char_def Let_def split: option.splits)

lemma quote_not_bracket: "is_bracket b \<Longrightarrow> b \<notin> set v \<Longrightarrow> b \<notin> set (quote v)"
proof -
  assume b: "is_bracket b" and "b \<notin> set v"
  then have "\<forall>c \<in> set v. b \<notin> set (quote_char c)" by (metis quote_char_not_bracket)
  then show ?thesis using is_bracket_neq[OF b] by (simp add: quote_def)
qed

lemma is_bracket_simps [simp]: "is_bracket (CHR ''['')" "is_bracket (CHR '']'')"
  by (simp_all add: is_bracket_def)

end
