(* ===== verification/Address.thy ===== *)
theory Address
  imports Json GoText
begin

text \<open>
  The Terraform v4 state of \<^verbatim>\<open>internal/tfstate\<close> (types.go) and its canonical addresses
  (address.go): index decoding, rendering, parsing, provider references.
\<close>

section \<open>The state document\<close>

record tf_output =
  o_value :: raw
  o_type :: raw
  o_sensitive :: bool

record resource_instance =
  i_schema_version :: int
  i_attributes :: raw
  i_sensitive_attributes :: raw
  i_dependencies :: "string list"
  i_index_key :: raw
  i_create_before_destroy :: bool
  i_tainted :: bool
  i_private :: string
  i_status :: string

record tf_resource =
  r_mode :: string
  r_type :: string
  r_name :: string
  r_provider :: string
  r_module :: string
  r_instances :: "resource_instance list"

record tf_state =
  st_version :: int
  st_terraform_version :: string
  st_serial :: int
  st_lineage :: string
  st_outputs :: "(string \<times> tf_output) list"
  st_resources :: "tf_resource list"
  st_check_results :: raw

text \<open>The zero values of Go's struct literals.\<close>

definition zero_instance :: resource_instance where
  "zero_instance = \<lparr>i_schema_version = 0, i_attributes = None, i_sensitive_attributes = None,
     i_dependencies = [], i_index_key = None, i_create_before_destroy = False, i_tainted = False,
     i_private = [], i_status = []\<rparr>"

definition zero_resource :: tf_resource where
  "zero_resource = \<lparr>r_mode = [], r_type = [], r_name = [], r_provider = [], r_module = [],
     r_instances = []\<rparr>"

definition empty_state :: "string \<Rightarrow> tf_state" where
  "empty_state lineage = \<lparr>st_version = 4, st_terraform_version = ''0.0.0'', st_serial = 0,
     st_lineage = lineage, st_outputs = [], st_resources = [], st_check_results = None\<rparr>"

section \<open>The instance index\<close>

datatype index_kind = IndexNone | IndexInt | IndexString

text \<open>
  \<^verbatim>\<open>json.Number\<close> accepts a JSON string whose text is a valid JSON number as well as a number
  token; \<^verbatim>\<open>Number.Int64\<close> then accepts the integers of 64 bits.
\<close>

definition json_int_literal :: "string \<Rightarrow> bool" where
  "json_int_literal s =
     (let ds = (case s of c # cs \<Rightarrow> if c = CHR ''-'' then cs else s | [] \<Rightarrow> [])
      in ds \<noteq> [] \<and> list_all is_digit ds \<and> (hd ds = CHR ''0'' \<longrightarrow> length ds = 1) \<and> atoi s \<noteq> None)"

definition decode_index :: "resource_instance \<Rightarrow> (raw, index_kind \<times> string) result" where
  "decode_index ri = (case i_index_key ri of
     None \<Rightarrow> Inr (IndexNone, [])
   | Some JNull \<Rightarrow> Inr (IndexNone, [])
   | Some (JNum n) \<Rightarrow> if int64_range n then Inr (IndexInt, show_int n) else Inl (i_index_key ri)
   | Some (JStr s) \<Rightarrow> if json_int_literal s then Inr (IndexInt, s) else Inr (IndexString, s)
   | Some _ \<Rightarrow> Inl (i_index_key ri))"

section \<open>Rendering\<close>

definition instance_address :: "tf_resource \<Rightarrow> resource_instance \<Rightarrow> (raw, string) result" where
  "instance_address r inst =
     (let b = (if r_module r \<noteq> [] then r_module r @ ''.'' else []);
          b = (if r_mode r = ''data'' then b @ ''data.'' else b);
          b = b @ r_type r @ ''.'' @ r_name r
      in bind_result (decode_index inst) (\<lambda>(kind, val).
           Inr (case kind of
                  IndexNone \<Rightarrow> b
                | IndexInt \<Rightarrow> b @ ''['' @ val @ '']''
                | IndexString \<Rightarrow> b @ ''['' @ quote val @ '']'')))"

section \<open>Parsing\<close>

datatype address_error = AddressRequired | InvalidAddress string

definition parse_trailing_index :: "string \<Rightarrow> (address_error, raw \<times> string) result" where
  "parse_trailing_index address =
     (if \<not> has_suffix address '']'' then Inr (None, address)
      else (case last_index (CHR ''['') address of
        None \<Rightarrow> Inl (InvalidAddress address)
      | Some open \<Rightarrow>
          (let base = take open address;
               raw = drop (open + 1) (take (length address - 1) address)
           in if trim_space raw = [] then Inl (InvalidAddress address)
              else if hd raw = dquote then
                (case unquote raw of
                   None \<Rightarrow> Inl (InvalidAddress address)
                 | Some value \<Rightarrow> Inr (Some (JStr value), base))
              else (case atoi raw of
                   None \<Rightarrow> Inl (InvalidAddress address)
                 | Some value \<Rightarrow> Inr (Some (JNum value), base)))))"

text \<open>The loop that takes \<^verbatim>\<open>module.<name>\<close> pairs off the front.\<close>

fun take_modules :: "string list \<Rightarrow> string list \<times> string list" where
  "take_modules (p # q # ps) =
     (if p = ''module'' then (let (ms, rest) = take_modules ps in (p # q # ms, rest))
      else ([], p # q # ps))"
| "take_modules ps = ([], ps)"

definition parse_instance_address ::
    "string \<Rightarrow> (address_error, tf_resource \<times> resource_instance) result" where
  "parse_instance_address addr =
     (let address = trim_space addr
      in if address = [] then Inl AddressRequired
         else bind_result (parse_trailing_index address) (\<lambda>(index_key, base).
           let parts = split_on (CHR ''.'') base
           in if length parts < 2 then Inl (InvalidAddress address)
              else
                (let (module_parts, rest) = take_modules parts;
                     mode = (if rest \<noteq> [] \<and> hd rest = ''data'' then ''data'' else ''managed'');
                     rest = (if rest \<noteq> [] \<and> hd rest = ''data'' then tl rest else rest)
                 in (case rest of
                       [t, n] \<Rightarrow> Inr (zero_resource\<lparr>r_mode := mode, r_type := t, r_name := n,
                            r_module := (if module_parts \<noteq> [] then join_with ''.'' module_parts else [])\<rparr>,
                          zero_instance\<lparr>i_index_key := index_key\<rparr>)
                     | _ \<Rightarrow> Inl (InvalidAddress address)))))"

section \<open>Provider references\<close>

definition unquote_provider_source :: "string \<Rightarrow> string option" where
  "unquote_provider_source s =
     (if length s < 2 \<or> hd s \<noteq> dquote \<or> last s \<noteq> dquote then None else unquote s)"

text \<open>The error carries the input and the reason that the message names.\<close>

datatype provider_ref_error =
    TextBeforeProvider | MissingProviderPrefix | MissingClosingBracket | SourceNotQuoted
  | EmptySource | TrailingDot | TextAfterBracket

definition parse_provider_ref :: "string \<Rightarrow> (provider_ref_error, string \<times> string) result" where
  "parse_provider_ref s =
     bind_result
       (case index_of ''provider['' s of
          Some idx \<Rightarrow>
            if idx > 0 then
              (if s ! (idx - 1) \<noteq> CHR ''.'' then Inl TextBeforeProvider else Inr (drop idx s))
            else Inr s
        | None \<Rightarrow> Inr s)
       (\<lambda>rest.
          if \<not> has_prefix rest ''provider['' then Inl MissingProviderPrefix
          else
            (let rest = trim_prefix rest ''provider[''
             in (case index_byte (CHR '']'') rest of
                   None \<Rightarrow> Inl MissingClosingBracket
                 | Some close \<Rightarrow>
                     (case unquote_provider_source (take close rest) of
                        None \<Rightarrow> Inl SourceNotQuoted
                      | Some src \<Rightarrow>
                          if src = [] then Inl EmptySource
                          else
                            (let tail = drop (close + 1) rest
                             in if tail = [] then Inr (src, [])
                                else if has_prefix tail ''.'' then
                                  (if tl tail = [] then Inl TrailingDot else Inr (src, tl tail))
                                else Inl TextAfterBracket)))))"

section \<open>Parsing what was rendered\<close>

text \<open>
  The addresses the round trip covers: a module path of \<^verbatim>\<open>module.<name>\<close> pairs (the names may carry
  an index of their own, without a dot), plain type and name, and an index that is absent, a 64-bit
  integer, or a string that neither reads as an integer nor contains an opening bracket.
\<close>

definition module_path :: "string list \<Rightarrow> string" where
  "module_path ms = join_with ''.'' (concat (map (\<lambda>m. [''module'', m]) ms))"

definition plain_name :: "string \<Rightarrow> bool" where
  "plain_name s \<longleftrightarrow> s \<noteq> [] \<and>
     list_all (\<lambda>c. c \<noteq> CHR ''.'' \<and> c \<noteq> CHR ''['' \<and> c \<noteq> CHR '']'' \<and> \<not> is_space c) s"

definition group_ok :: "string list \<Rightarrow> tf_resource \<Rightarrow> bool" where
  "group_ok ms r \<longleftrightarrow> r_module r = module_path ms \<and> list_all (\<lambda>m. CHR ''.'' \<notin> set m) ms \<and>
     plain_name (r_type r) \<and> plain_name (r_name r) \<and>
     (r_mode r = ''data'' \<or> r_mode r = ''managed'' \<and> r_type r \<noteq> ''module'' \<and> r_type r \<noteq> ''data'')"

definition index_ok :: "raw \<Rightarrow> bool" where
  "index_ok k = (case k of
     None \<Rightarrow> True
   | Some (JNum n) \<Rightarrow> int64_range n
   | Some (JStr s) \<Rightarrow> \<not> json_int_literal s \<and> CHR ''['' \<notin> set s
   | _ \<Rightarrow> False)"

definition address_parts :: "string list \<Rightarrow> tf_resource \<Rightarrow> string list" where
  "address_parts ms r = concat (map (\<lambda>m. [''module'', m]) ms) @
     (if r_mode r = ''data'' then [''data''] else []) @ [r_type r, r_name r]"

definition group_base :: "tf_resource \<Rightarrow> string" where
  "group_base r = (if r_module r \<noteq> [] then r_module r @ ''.'' else []) @
     (if r_mode r = ''data'' then ''data.'' else []) @ r_type r @ ''.'' @ r_name r"

lemma instance_address_base:
  "instance_address r inst = bind_result (decode_index inst) (\<lambda>(kind, val). Inr (group_base r @
     (case kind of IndexNone \<Rightarrow> [] | IndexInt \<Rightarrow> ''['' @ val @ '']''
      | IndexString \<Rightarrow> ''['' @ quote val @ '']'')))"
  by (cases "decode_index inst")
    (auto simp: instance_address_def group_base_def Let_def split: index_kind.splits)

lemma module_path_Nil_iff [simp]: "module_path ms = [] \<longleftrightarrow> ms = []"
  by (cases ms) (auto simp: module_path_def)

lemma group_base_join:
  assumes "group_ok ms r"
  shows "group_base r = join_with ''.'' (address_parts ms r)"
proof (cases "ms = []")
  case True
  then show ?thesis using assms
    by (simp add: group_base_def address_parts_def group_ok_def module_path_def)
next
  case False
  then have "concat (map (\<lambda>m. [''module'', m]) ms) \<noteq> []" by (cases ms) auto
  then show ?thesis using assms False
    by (simp add: group_base_def address_parts_def group_ok_def join_with_append flip: module_path_def)
qed

lemma plain_name_notin:
  "plain_name s \<Longrightarrow> CHR ''.'' \<notin> set s \<and> CHR ''['' \<notin> set s \<and> CHR '']'' \<notin> set s"
  by (auto simp: plain_name_def list_all_iff)

lemma split_group_base:
  assumes "group_ok ms r"
  shows "split_on (CHR ''.'') (group_base r) = address_parts ms r"
proof -
  have "CHR ''.'' \<notin> set w" if "w \<in> set (address_parts ms r)" for w
    using that assms plain_name_notin
    by (auto simp: address_parts_def group_ok_def list_all_iff split: if_splits)
  then show ?thesis
    using split_on_join[of "address_parts ms r" "CHR ''.''"] group_base_join[OF assms]
    by (simp add: address_parts_def)
qed

lemma take_modules_append:
  "rest = [] \<or> hd rest \<noteq> ''module'' \<Longrightarrow>
   take_modules (concat (map (\<lambda>m. [''module'', m]) ms) @ rest)
     = (concat (map (\<lambda>m. [''module'', m]) ms), rest)"
proof (induction ms)
  case Nil
  then show ?case by (cases rest rule: take_modules.cases) auto
qed simp

lemma not_space_quotes [simp]: "\<not> is_space dquote" "\<not> is_space (CHR '']'')" "\<not> is_space (CHR ''m'')"
  "\<not> is_space (CHR ''d'')"
  by (simp_all add: is_space_def)

lemma hd_group_base: "group_ok ms r \<Longrightarrow> group_base r \<noteq> [] \<and> \<not> is_space (hd (group_base r))"
  by (cases ms; cases "r_type r")
    (auto simp: group_ok_def group_base_def plain_name_def is_space_def module_path_def
      split: if_splits elim: list.set_cases dest: hd_in_set)

lemma last_group_base:
  assumes "group_ok ms r"
  shows "\<not> is_space (last (group_base r)) \<and> last (group_base r) \<noteq> CHR '']''"
proof -
  have "r_name r \<noteq> []" using assms by (simp add: group_ok_def plain_name_def)
  then have "last (group_base r) \<in> set (r_name r)" by (simp add: group_base_def)
  then show ?thesis using assms by (auto simp: group_ok_def plain_name_def list_all_iff)
qed

lemma parse_trailing_none:
  "group_ok ms r \<Longrightarrow> parse_trailing_index (group_base r) = Inr (None, group_base r)"
  using last_group_base[of ms r] hd_group_base[of ms r]
  by (auto simp: parse_trailing_index_def suffix_def)

lemma parse_trailing_bracket:
  assumes "CHR ''['' \<notin> set raw"
  shows "parse_trailing_index (base @ ''['' @ raw @ '']'') =
    (if trim_space raw = [] then Inl (InvalidAddress (base @ ''['' @ raw @ '']''))
     else if hd raw = dquote then
       (case unquote raw of None \<Rightarrow> Inl (InvalidAddress (base @ ''['' @ raw @ '']''))
        | Some v \<Rightarrow> Inr (Some (JStr v), base))
     else (case atoi raw of None \<Rightarrow> Inl (InvalidAddress (base @ ''['' @ raw @ '']''))
        | Some v \<Rightarrow> Inr (Some (JNum v), base)))"
proof -
  have "last_index (CHR ''['') (base @ ''['' @ raw @ '']'') = Some (length base)"
    using assms last_index_append_Cons[of "CHR ''[''" "raw @ '']''" base] by simp
  moreover have "has_suffix (base @ ''['' @ raw @ '']'') '']''"
    by (simp add: suffix_def)
  ultimately show ?thesis
    by (auto simp: parse_trailing_index_def Let_def take_Cons' split: option.splits)
qed

lemma trim_space_quote: "trim_space (quote v) \<noteq> [] \<and> hd (quote v) = dquote"
proof -
  have "trim_space (quote v) = quote v"
    by (rule trim_space_id) (simp_all add: quote_def)
  then show ?thesis by (simp add: quote_def)
qed

lemma trim_space_show_int: "trim_space (show_int i) = show_int i \<and> hd (show_int i) \<noteq> dquote"
proof -
  have "\<not> is_space c \<and> c \<noteq> dquote" if "c \<in> set (show_int i)" for c
    using set_show_int[OF that] by (auto simp: is_digit_def is_space_def)
  then show ?thesis by (auto intro: trim_space_no_space)
qed

lemma show_int_not_bracket: "CHR ''['' \<notin> set (show_int i)"
  using set_show_int by fastforce

text \<open>What the rendered address of a covered instance is, and how its index is cut off again.\<close>

lemma parse_trailing_rendered:
  assumes g: "group_ok ms r" and i: "index_ok (i_index_key inst)"
  obtains a where "instance_address r inst = Inr a" and "trim_space a = a" and "a \<noteq> []"
    and "parse_trailing_index a = Inr (i_index_key inst, group_base r)"
proof -
  have base: "group_base r \<noteq> []" "\<not> is_space (hd (group_base r))" using hd_group_base[OF g] by auto
  have bracket: "trim_space (group_base r @ ''['' @ k @ '']'') = group_base r @ ''['' @ k @ '']''" for k
    by (rule trim_space_id) (simp_all add: base)
  have none: "trim_space (group_base r) = group_base r"
    using trim_space_id[OF base] last_group_base[OF g] by simp
  consider "i_index_key inst = None" | n where "i_index_key inst = Some (JNum n)" "int64_range n"
    | v where "i_index_key inst = Some (JStr v)" "\<not> json_int_literal v" "CHR ''['' \<notin> set v"
    using i by (auto simp: index_ok_def split: option.splits json.splits)
  then show thesis
  proof cases
    case 1
    then show thesis
      using that[of "group_base r"] none parse_trailing_none[OF g] base
      by (simp add: instance_address_base decode_index_def)
  next
    case 2
    then show thesis
      using that[of "group_base r @ ''['' @ show_int n @ '']''"] bracket
        parse_trailing_bracket[OF show_int_not_bracket] trim_space_show_int[of n]
      by (simp add: instance_address_base decode_index_def atoi_show_int)
  next
    case 3
    then show thesis
      using that[of "group_base r @ ''['' @ quote v @ '']''"] bracket
        parse_trailing_bracket[OF quote_not_bracket[of "CHR ''[''"]] trim_space_quote[of v]
      by (simp add: instance_address_base decode_index_def)
  qed
qed

lemma parse_base:
  assumes g: "group_ok ms r" and a: "trim_space a = a" "a \<noteq> []"
    and p: "parse_trailing_index a = Inr (k, group_base r)"
  shows "parse_instance_address a = Inr (r\<lparr>r_provider := [], r_instances := []\<rparr>,
    zero_instance\<lparr>i_index_key := k\<rparr>)"
proof -
  let ?rest = "(if r_mode r = ''data'' then [''data''] else []) @ [r_type r, r_name r]"
  have "hd ?rest \<noteq> ''module''" using g by (auto simp: group_ok_def)
  then have t: "take_modules (address_parts ms r) = (concat (map (\<lambda>m. [''module'', m]) ms), ?rest)"
    unfolding address_parts_def by (intro take_modules_append) auto
  have len: "\<not> length (address_parts ms r) < 2" by (simp add: address_parts_def)
  have m: "(if concat (map (\<lambda>m. [''module'', m]) ms) \<noteq> []
      then join_with ''.'' (concat (map (\<lambda>m. [''module'', m]) ms)) else []) = r_module r"
    using g by (simp add: group_ok_def module_path_def)
  have rec: "zero_resource\<lparr>r_mode := r_mode r, r_type := r_type r, r_name := r_name r,
      r_module := r_module r\<rparr> = r\<lparr>r_provider := [], r_instances := []\<rparr>"
    by (cases r) (simp add: zero_resource_def)
  show ?thesis
  proof (cases "r_mode r = ''data''")
    case True
    then show ?thesis using a len m rec
      by (simp add: parse_instance_address_def p split_group_base[OF g] t Let_def)
  next
    case False
    then have "r_type r \<noteq> ''data''" "r_mode r = ''managed''" using g by (auto simp: group_ok_def)
    then show ?thesis using a len m rec
      by (simp add: parse_instance_address_def p split_group_base[OF g] t Let_def)
  qed
qed

text \<open>C28: \<^verbatim>\<open>ParseInstanceAddress\<close> inverts \<^verbatim>\<open>InstanceAddress\<close>: for every group with a module path,
  plain type and name, and an instance whose index is absent, a 64-bit integer or a string key without an
  opening bracket that does not read as a number, the rendered address parses back to the same mode,
  type, name, module path and index key.\<close>

theorem parse_instance_address_roundtrip:
  assumes "group_ok ms r" and "index_ok (i_index_key inst)"
  shows "\<exists>a. instance_address r inst = Inr a \<and>
    parse_instance_address a = Inr (r\<lparr>r_provider := [], r_instances := []\<rparr>,
      zero_instance\<lparr>i_index_key := i_index_key inst\<rparr>)"
  using parse_trailing_rendered[OF assms] parse_base[OF assms(1)] by metis

definition ex_group :: tf_resource where
  "ex_group = zero_resource\<lparr>r_mode := ''managed'', r_type := ''aws_subnet'', r_name := ''private'',
     r_module := ''module.vpc.module.edge[0]''\<rparr>"

definition ex_instance :: resource_instance where
  "ex_instance = zero_instance\<lparr>i_index_key := Some (JStr ''eu.west'')\<rparr>"

theorem parse_instance_address_roundtrip_witness:
  "\<exists>a. instance_address ex_group ex_instance = Inr a \<and>
    parse_instance_address a = Inr (ex_group\<lparr>r_provider := [], r_instances := []\<rparr>,
      zero_instance\<lparr>i_index_key := i_index_key ex_instance\<rparr>)"
proof (rule parse_instance_address_roundtrip)
  show "group_ok [''vpc'', ''edge[0]''] ex_group"
    by (simp add: group_ok_def ex_group_def module_path_def plain_name_def is_space_def zero_resource_def)
  show "index_ok (i_index_key ex_instance)"
    by (simp add: index_ok_def ex_instance_def json_int_literal_def is_digit_def)
qed

text \<open>A \<^verbatim>\<open>for_each\<close> key that reads as an integer renders as a \<^verbatim>\<open>count\<close> index.\<close>

lemma numeric_key_address_collision:
  "instance_address r (inst\<lparr>i_index_key := Some (JStr ''0'')\<rparr>)
     = instance_address r (inst\<lparr>i_index_key := Some (JNum 0)\<rparr>)"
proof -
  have "atoi ''0'' = Some 0" by (simp add: atoi_def is_digit_def digits_val_def digit_val_def int64_range_def)
  moreover have "show_int 0 = ''0''" by code_simp
  ultimately show ?thesis
    by (simp add: instance_address_base decode_index_def json_int_literal_def is_digit_def int64_range_def)
qed

text \<open>A string key with an opening bracket renders to an address that does not parse.\<close>

lemma bracket_key_address_rejected:
  "instance_address ex_group (ex_instance\<lparr>i_index_key := Some (JStr ''a[b'')\<rparr>) = Inr a \<Longrightarrow>
   parse_instance_address a = Inl (InvalidAddress a)"
  apply (simp add: instance_address_base decode_index_def json_int_literal_def is_digit_def
      group_base_def ex_group_def zero_resource_def quote_def quote_char_def simple_escapes_def Let_def)
  apply (drule sym)
  apply (simp add: parse_instance_address_def trim_space_def trim_left_def is_space_def
      parse_trailing_index_def suffix_def atoi_def Let_def)
  done

section \<open>Provider references round trip\<close>

lemma index_of_prefix: "has_prefix s p \<Longrightarrow> index_of p s = Some 0"
  by (cases s) auto

text \<open>
  The root form that Terraform writes, with and without an alias, is read back; a source with a closing
  bracket is cut short.
\<close>

lemma parse_provider_ref_quote:
  assumes src: "src \<noteq> []" "CHR '']'' \<notin> set src" and tl: "tail = [] \<or> (\<exists>al. al \<noteq> [] \<and> tail = ''.'' @ al)"
  shows "parse_provider_ref (''provider['' @ quote src @ '']'' @ tail) = Inr (src, drop 1 tail)"
proof -
  let ?s = "''provider['' @ quote src @ '']'' @ tail"
  have idx: "index_of ''provider['' ?s = Some 0" by (rule index_of_prefix) (simp add: prefix_def)
  have "CHR '']'' \<notin> set (quote src)" using src quote_not_bracket by simp
  then have close: "index_byte (CHR '']'') (quote src @ '']'' @ tail) = Some (length (quote src))"
    using index_byte_append by simp
  have unq: "unquote_provider_source (quote src) = Some src"
    by (simp add: unquote_provider_source_def) (simp add: quote_def)
  show ?thesis using idx close unq src tl
    by (auto simp: parse_provider_ref_def trim_prefix_def Let_def)
qed

end
