(* ===== verification/Claims.thy ===== *)
theory Claims
  imports Prelude
begin

text \<open>
  The contract that the tables of leases and locks share: rows make claims, some pairs of claims
  clash, and an operation adds a claim only when it clashes with none of the claims that remain. What
  the clients of such a table need, that no two claims of it ever clash, is proved once here for every
  run of operations.

  A table may provide this only while its own constraints hold (\<open>guarded_claims\<close>: the lock table) or
  for any contents (\<open>claim_table\<close>: the reservations); the second contract gives the first.
\<close>

locale guarded_claims =
  fixes claims :: "'t \<Rightarrow> 'c set"
    and clash :: "'c \<Rightarrow> 'c \<Rightarrow> bool"
    and step :: "'op \<Rightarrow> 't \<Rightarrow> 't"
    and good :: "'t \<Rightarrow> bool"
  assumes good_step: "good t \<Longrightarrow> good (step p t)"
    and clash_sym: "clash c d \<Longrightarrow> clash d c"
    and guarded_step: "good t \<Longrightarrow> (\<And>a b. a \<in> claims t \<Longrightarrow> b \<in> claims t \<Longrightarrow> \<not> clash a b) \<Longrightarrow>
      c \<in> claims (step p t) \<Longrightarrow> c \<notin> claims t \<Longrightarrow> d \<in> claims (step p t) \<Longrightarrow> \<not> clash c d"
begin

definition safe :: "'t \<Rightarrow> bool" where
  "safe t \<longleftrightarrow> (\<forall>c \<in> claims t. \<forall>d \<in> claims t. \<not> clash c d)"

definition run :: "'op list \<Rightarrow> 't \<Rightarrow> 't" where
  "run ps t = foldl (\<lambda>t p. step p t) t ps"

lemma safe_step:
  assumes "good t" and "safe t"
  shows "safe (step p t)"
  unfolding safe_def
proof (intro ballI)
  fix c d assume cd: "c \<in> claims (step p t)" "d \<in> claims (step p t)"
  show "\<not> clash c d"
  proof (cases "c \<in> claims t \<and> d \<in> claims t")
    case True
    then show ?thesis using assms by (simp add: safe_def)
  next
    case False
    then show ?thesis
      using guarded_step[of t c p d] guarded_step[of t d p c] assms clash_sym cd by (auto simp: safe_def)
  qed
qed

lemma good_run: "good t \<Longrightarrow> good (run ps t)"
  unfolding run_def by (induction ps arbitrary: t) (auto intro: good_step)

lemma safe_run: "good t \<Longrightarrow> safe t \<Longrightarrow> safe (run ps t)"
  unfolding run_def by (induction ps arbitrary: t) (auto intro: safe_step good_step)

lemma safe_clash: "safe t \<Longrightarrow> c \<in> claims t \<Longrightarrow> d \<in> claims t \<Longrightarrow> \<not> clash c d"
  by (simp add: safe_def)

end

locale claim_table =
  fixes claims :: "'t \<Rightarrow> 'c set"
    and clash :: "'c \<Rightarrow> 'c \<Rightarrow> bool"
    and step :: "'op \<Rightarrow> 't \<Rightarrow> 't"
  assumes clash_symmetric: "clash c d \<Longrightarrow> clash d c"
    and step_claims: "c \<in> claims (step p t) \<Longrightarrow> c \<notin> claims t \<Longrightarrow> d \<in> claims (step p t) \<Longrightarrow> \<not> clash c d"

sublocale claim_table \<subseteq> guarded_claims claims clash step "\<lambda>t. True"
  by unfold_locales (auto dest: clash_symmetric step_claims)

end
