(* ===== verification/Reservations.thy ===== *)
theory Reservations
  imports Claims "HOL-Library.Product_Lexorder"
begin

text \<open>
  The reservation table of \<^verbatim>\<open>pkg/store/reservations.go\<close>: leases on address globs that keep
  concurrent applies of one state apart.

  The table \<^verbatim>\<open>resource_reservations\<close> is the list of its rows; \<^verbatim>\<open>gen_random_uuid()\<close> is a counter of
  unused identifiers. The database's \<^verbatim>\<open>now()\<close> and the process's \<^verbatim>\<open>time.Now()\<close> are separate inputs. A
  transaction that returns an error leaves the table as it was.
\<close>

section \<open>Rows\<close>

datatype reservation_mode = ReservationRead | ReservationWrite

record reservation =
  w_glob :: string
  w_mode :: reservation_mode

record active_reservation =
  a_id :: nat
  a_state_id :: string
  a_glob :: string
  a_mode :: reservation_mode
  a_holder :: string
  a_apply_id :: string
  a_acquired_at :: int
  a_expires_at :: int

record reservation_table =
  rt_rows :: "active_reservation list"
  rt_next_id :: nat

text \<open>\<^verbatim>\<open>ReservationConflictError\<close>; its \<^verbatim>\<open>StateID\<close> field is never set.\<close>

datatype reservation_error =
    StateRowMissing
  | ReservationConflict "active_reservation list"

section \<open>Overlap of two globs\<close>

definition globs_intersect :: "string \<Rightarrow> string \<Rightarrow> bool" where
  "globs_intersect g1 g2 =
     (if g1 = ''*'' \<or> g2 = ''*'' then True
      else
        (let is_glob1 = has_suffix g1 ''.*''; p1 = trim_suffix g1 ''.*'';
             is_glob2 = has_suffix g2 ''.*''; p2 = trim_suffix g2 ''.*''
         in if \<not> is_glob1 \<and> \<not> is_glob2 then g1 = g2
            else if is_glob1 \<and> \<not> is_glob2 then has_prefix g2 (p1 @ ''.'') \<or> g2 = p1
            else if \<not> is_glob1 \<and> is_glob2 then has_prefix g1 (p2 @ ''.'') \<or> g1 = p2
            else has_prefix p1 p2 \<or> has_prefix p2 p1))"

section \<open>AcquireReservations\<close>

fun dedupe_loop :: "nat set \<Rightarrow> active_reservation list \<Rightarrow> active_reservation list" where
  "dedupe_loop seen [] = []"
| "dedupe_loop seen (r # rs) =
     (if a_id r \<in> seen then dedupe_loop seen rs else r # dedupe_loop (insert (a_id r) seen) rs)"

definition dedupe_conflicts :: "active_reservation list \<Rightarrow> active_reservation list" where
  "dedupe_conflicts rs = dedupe_loop {} rs"

definition conflicts_with :: "string \<Rightarrow> reservation \<Rightarrow> active_reservation \<Rightarrow> bool" where
  "conflicts_with apply_id w a \<longleftrightarrow>
     \<not> (w_mode w = ReservationRead \<and> a_mode a = ReservationRead) \<and>
     a_apply_id a \<noteq> apply_id \<and> globs_intersect (w_glob w) (a_glob a)"

definition find_conflicts ::
    "string \<Rightarrow> reservation list \<Rightarrow> active_reservation list \<Rightarrow> active_reservation list" where
  "find_conflicts apply_id want active =
     concat (map (\<lambda>w. filter (conflicts_with apply_id w) active) want)"

text \<open>\<^verbatim>\<open>INSERT ... ON CONFLICT (state_id, address_glob, holder, apply_id) DO UPDATE\<close>.\<close>

definition same_key :: "string \<Rightarrow> string \<Rightarrow> string \<Rightarrow> reservation \<Rightarrow> active_reservation \<Rightarrow> bool" where
  "same_key state_id actor apply_id w a \<longleftrightarrow>
     a_state_id a = state_id \<and> a_glob a = w_glob w \<and> a_holder a = actor \<and> a_apply_id a = apply_id"

definition upsert_reservation ::
    "int \<Rightarrow> string \<Rightarrow> string \<Rightarrow> string \<Rightarrow> int \<Rightarrow> reservation \<Rightarrow> reservation_table \<Rightarrow> reservation_table" where
  "upsert_reservation now state_id actor apply_id expires_at w t =
     (if \<exists>a \<in> set (rt_rows t). same_key state_id actor apply_id w a
      then t\<lparr>rt_rows := map (\<lambda>a. if same_key state_id actor apply_id w a
             then a\<lparr>a_expires_at := expires_at, a_mode := w_mode w\<rparr> else a) (rt_rows t)\<rparr>
      else t\<lparr>rt_rows := rt_rows t @ [\<lparr>a_id = rt_next_id t, a_state_id = state_id, a_glob = w_glob w,
               a_mode = w_mode w, a_holder = actor, a_apply_id = apply_id, a_acquired_at = now,
               a_expires_at = expires_at\<rparr>],
             rt_next_id := Suc (rt_next_id t)\<rparr>)"

definition purge_expired :: "int \<Rightarrow> string \<Rightarrow> reservation_table \<Rightarrow> reservation_table" where
  "purge_expired now state_id t =
     t\<lparr>rt_rows := filter (\<lambda>a. \<not> (a_state_id a = state_id \<and> a_expires_at a < now)) (rt_rows t)\<rparr>"

text \<open>\<open>states\<close> are the identifiers in the \<^verbatim>\<open>states\<close> table, \<open>now\<close> and \<open>clock\<close> the two clocks.\<close>

definition acquire_reservations ::
    "string set \<Rightarrow> int \<Rightarrow> int \<Rightarrow> string \<Rightarrow> string \<Rightarrow> string \<Rightarrow> reservation list \<Rightarrow> int \<Rightarrow>
     reservation_table \<Rightarrow> (reservation_error, unit) result \<times> reservation_table" where
  "acquire_reservations states now clock state_id apply_id actor want lease t =
     (if want = [] then (Inr (), t)
      else if state_id \<notin> states then (Inl StateRowMissing, t)
      else
        (let t1 = purge_expired now state_id t;
             active = filter (\<lambda>a. a_state_id a = state_id) (rt_rows t1);
             conflicts = find_conflicts apply_id want active
         in if conflicts \<noteq> [] then (Inl (ReservationConflict (dedupe_conflicts conflicts)), t)
            else (Inr (), foldl (\<lambda>t w. upsert_reservation now state_id actor apply_id (clock + lease) w t)
                   t1 want)))"

section \<open>Release, renew, list\<close>

definition release_reservations :: "string \<Rightarrow> reservation_table \<Rightarrow> reservation_table" where
  "release_reservations apply_id t =
     t\<lparr>rt_rows := filter (\<lambda>a. a_apply_id a \<noteq> apply_id) (rt_rows t)\<rparr>"

text \<open>Times are in seconds; the default lease is 30 seconds. The result counts the updated rows.\<close>

definition renew_reservations ::
    "int \<Rightarrow> int \<Rightarrow> string \<Rightarrow> int \<Rightarrow> reservation_table \<Rightarrow> nat \<times> reservation_table" where
  "renew_reservations now clock apply_id0 lease0 t =
     (let apply_id = trim_space apply_id0
      in if apply_id = [] then (0, t)
         else
           (let lease = (if lease0 \<le> 0 then 30 else lease0);
                hit = (\<lambda>a. a_apply_id a = apply_id \<and> a_expires_at a > now)
            in (length (filter hit (rt_rows t)),
                t\<lparr>rt_rows := map (\<lambda>a. if hit a then a\<lparr>a_expires_at := clock + lease\<rparr> else a)
                    (rt_rows t)\<rparr>)))"

definition mode_text :: "reservation_mode \<Rightarrow> string" where
  "mode_text m = (case m of ReservationRead \<Rightarrow> ''read'' | ReservationWrite \<Rightarrow> ''write'')"

definition list_active_reservations ::
    "(string \<times> string) list \<Rightarrow> int \<Rightarrow> string \<Rightarrow> reservation_table \<Rightarrow> active_reservation list option" where
  "list_active_reservations states now state_name0 t =
     (let state_name = trim_space state_name0
      in if state_name = [] then None
         else Some (sort_key (\<lambda>a. (a_glob a, mode_text (a_mode a)))
           (filter (\<lambda>a. (a_state_id a, state_name) \<in> set states \<and> a_expires_at a > now) (rt_rows t))))"

section \<open>What a glob covers\<close>

definition glob_matches :: "string \<Rightarrow> string \<Rightarrow> bool" where
  "glob_matches g a =
     (if g = ''*'' then True
      else if has_suffix g ''.*'' then
        (let p = trim_suffix g ''.*'' in a = p \<or> has_prefix a (p @ ''.''))
      else a = g)"

lemma globs_intersect_sym: "globs_intersect g1 g2 = globs_intersect g2 g1"
  by (auto simp: globs_intersect_def Let_def)

lemma glob_matches_prefix:
  "glob_matches g a \<Longrightarrow> g \<noteq> ''*'' \<Longrightarrow> has_suffix g ''.*'' \<Longrightarrow> has_prefix a (trim_suffix g ''.*'')"
  by (auto simp: glob_matches_def Let_def dest: append_prefixD)

text \<open>The overlap test misses nothing: two globs that cover a common address overlap.\<close>

lemma globs_intersect_common_address:
  assumes "glob_matches g1 a" and "glob_matches g2 a"
  shows "globs_intersect g1 g2"
proof (cases "g1 = ''*'' \<or> g2 = ''*''")
  case False
  show ?thesis
  proof (cases "has_suffix g1 ''.*'' \<and> has_suffix g2 ''.*''")
    case True
    then show ?thesis
      using glob_matches_prefix[OF assms(1)] glob_matches_prefix[OF assms(2)] False
        prefix_same_cases[of "trim_suffix g1 ''.*''" a "trim_suffix g2 ''.*''"]
      by (auto simp: globs_intersect_def Let_def)
  next
    case False
    then show ?thesis using assms by (auto simp: globs_intersect_def glob_matches_def Let_def)
  qed
qed (auto simp: globs_intersect_def)

text \<open>Against a plain address the test is exact.\<close>

lemma globs_intersect_literal:
  "a \<noteq> ''*'' \<Longrightarrow> \<not> has_suffix a ''.*'' \<Longrightarrow> globs_intersect g a \<longleftrightarrow> glob_matches g a"
  by (auto simp: globs_intersect_def glob_matches_def Let_def)

text \<open>Between two module globs it compares prefixes as text, so sibling modules overlap.\<close>

lemma globs_intersect_siblings:
  "globs_intersect ''module.a.*'' ''module.ab.*''"
  "\<not> (glob_matches ''module.a.*'' x \<and> glob_matches ''module.ab.*'' x)"
  by (auto simp: globs_intersect_def glob_matches_def trim_suffix_def suffix_def prefix_def)

section \<open>The table keeps applies apart\<close>

type_synonym claim = "string \<times> string \<times> string \<times> reservation_mode"

definition claim_of :: "active_reservation \<Rightarrow> claim" where
  "claim_of a = (a_state_id a, a_apply_id a, a_glob a, a_mode a)"

definition table_claims :: "reservation_table \<Rightarrow> claim set" where
  "table_claims t = claim_of ` set (rt_rows t)"

fun claims_clash :: "claim \<Rightarrow> claim \<Rightarrow> bool" where
  "claims_clash (s, p, g, m) (s', p', g', m') \<longleftrightarrow>
     s = s' \<and> p \<noteq> p' \<and> \<not> (m = ReservationRead \<and> m' = ReservationRead) \<and> globs_intersect g g'"

datatype reservation_op =
    Acquire "string set" int int string string string "reservation list" int
  | Release string
  | Renew int int string int

fun reservation_step :: "reservation_op \<Rightarrow> reservation_table \<Rightarrow> reservation_table" where
  "reservation_step (Acquire states now clock sid p actor want lease) t =
     snd (acquire_reservations states now clock sid p actor want lease t)"
| "reservation_step (Release p) t = release_reservations p t"
| "reservation_step (Renew now clock p lease) t = snd (renew_reservations now clock p lease t)"

lemma claims_release: "table_claims (release_reservations p t) \<subseteq> table_claims t"
  by (auto simp: table_claims_def release_reservations_def)

lemma claims_purge: "table_claims (purge_expired now sid t) \<subseteq> table_claims t"
  by (auto simp: table_claims_def purge_expired_def)

lemma claims_renew: "table_claims (snd (renew_reservations now clock p lease t)) \<subseteq> table_claims t"
  by (auto simp: table_claims_def renew_reservations_def Let_def claim_of_def split: if_splits)

lemma claims_upsert:
  "table_claims (upsert_reservation now sid actor p e w t)
     \<subseteq> insert (sid, p, w_glob w, w_mode w) (table_claims t)"
  by (auto simp: table_claims_def upsert_reservation_def claim_of_def same_key_def split: if_splits)

lemma claims_upserts:
  "table_claims (foldl (\<lambda>t w. upsert_reservation now sid actor p e w t) t want)
     \<subseteq> (\<lambda>w. (sid, p, w_glob w, w_mode w)) ` set want \<union> table_claims t"
proof (induction want arbitrary: t)
  case (Cons w want)
  then show ?case using claims_upsert[of now sid actor p e w t] by fastforce
qed simp

lemma set_dedupe_loop: "a_id ` set (dedupe_loop seen rs) = a_id ` set rs - seen"
  by (induction seen rs rule: dedupe_loop.induct) auto

lemma dedupe_loop_subset: "set (dedupe_loop seen rs) \<subseteq> set rs"
  by (induction seen rs rule: dedupe_loop.induct) auto

lemma set_find_conflicts:
  "set (find_conflicts p want active) = {a \<in> set active. \<exists>w \<in> set want. conflicts_with p w a}"
  by (auto simp: find_conflicts_def)

lemma no_conflict_no_clash:
  assumes "find_conflicts p want (filter (\<lambda>a. a_state_id a = sid) (rt_rows t)) = []"
    and "w \<in> set want" and "d \<in> table_claims t"
  shows "\<not> claims_clash (sid, p, w_glob w, w_mode w) d"
proof -
  obtain a where a: "a \<in> set (rt_rows t)" "d = claim_of a" using assms(3) by (auto simp: table_claims_def)
  have "a \<notin> set (find_conflicts p want (filter (\<lambda>a. a_state_id a = sid) (rt_rows t)))"
    by (simp add: assms(1))
  then show ?thesis using a assms(2) by (auto simp: set_find_conflicts conflicts_with_def claim_of_def)
qed

lemma acquire_success:
  assumes "acquire_reservations states now clock sid p actor want lease t = (Inr (), t')" and "want \<noteq> []"
  shows "sid \<in> states"
    and "find_conflicts p want (filter (\<lambda>a. a_state_id a = sid) (rt_rows (purge_expired now sid t))) = []"
    and "t' = foldl (\<lambda>t w. upsert_reservation now sid actor p (clock + lease) w t)
           (purge_expired now sid t) want"
  using assms by (auto simp: acquire_reservations_def Let_def split: if_splits)

lemma acquire_unchanged:
  "acquire_reservations states now clock sid p actor want lease t = (r, t') \<Longrightarrow>
   r \<noteq> Inr () \<or> want = [] \<Longrightarrow> t' = t"
  by (auto simp: acquire_reservations_def Let_def split: if_splits)

lemma acquire_step_claims:
  assumes c: "c \<in> table_claims (snd (acquire_reservations states now clock sid p actor want lease t))"
    and new: "c \<notin> table_claims t"
    and d: "d \<in> table_claims (snd (acquire_reservations states now clock sid p actor want lease t))"
  shows "\<not> claims_clash c d"
proof (cases "acquire_reservations states now clock sid p actor want lease t")
  case (Pair r t')
  show ?thesis
  proof (cases "r = Inr () \<and> want \<noteq> []")
    case False
    then have "t' = t" using acquire_unchanged[OF Pair] by blast
    then show ?thesis using c new Pair by simp
  next
    case True
    let ?t1 = "purge_expired now sid t"
    note ok = acquire_success[of states now clock sid p actor want lease t t']
    have sub: "table_claims t' \<subseteq> (\<lambda>w. (sid, p, w_glob w, w_mode w)) ` set want \<union> table_claims ?t1"
      using claims_upserts ok Pair True by simp
    have "c \<notin> table_claims ?t1" using claims_purge new by blast
    then obtain w where w: "w \<in> set want" "c = (sid, p, w_glob w, w_mode w)"
      using sub c Pair by auto
    show ?thesis
    proof (cases "d \<in> table_claims ?t1")
      case True
      then show ?thesis using no_conflict_no_clash[OF _ w(1) True] ok(2) Pair \<open>r = Inr () \<and> want \<noteq> []\<close> w(2)
        by simp
    next
      case False
      then show ?thesis using sub d Pair w(2) by auto
    qed
  qed
qed

interpretation reservations: claim_table table_claims claims_clash reservation_step
proof
  fix c d :: claim
  assume "claims_clash c d"
  then show "claims_clash d c"
    by (cases c; cases d) (auto simp: globs_intersect_sym)
next
  fix c p t d
  assume c: "c \<in> table_claims (reservation_step p t)" "c \<notin> table_claims t"
    "d \<in> table_claims (reservation_step p t)"
  show "\<not> claims_clash c d"
  proof (cases p)
    case (Acquire states now clock sid q actor want lease)
    then show ?thesis using acquire_step_claims c by simp
  next
    case (Release q)
    then show ?thesis using claims_release c by auto
  next
    case (Renew now clock q lease)
    then show ?thesis using claims_renew[of now clock q lease t] c by auto
  qed
qed

definition run_reservations :: "reservation_op list \<Rightarrow> reservation_table \<Rightarrow> reservation_table" where
  "run_reservations ops t = foldl (\<lambda>t p. reservation_step p t) t ops"

definition empty_reservations :: reservation_table where
  "empty_reservations = \<lparr>rt_rows = [], rt_next_id = 0\<rparr>"

lemma run_reservations_safe: "reservations.safe (run_reservations ops empty_reservations)"
  using reservations.safe_run[of empty_reservations ops]
  by (simp add: run_reservations_def reservations.run_def reservations.safe_def table_claims_def
      empty_reservations_def)

text \<open>C1: Write exclusivity. After any sequence of acquire, release and renew operations, of any number
  of applies and under any clock readings, two rows of one state that are held by different applies and
  cover a common address are both read reservations: no apply can hold an address for writing while
  another holds it at all, and an expired lease that was not purged still excludes.\<close>

theorem reservations_exclusive:
  assumes t: "t = run_reservations ops empty_reservations"
    and r: "r \<in> set (rt_rows t)" and s: "s \<in> set (rt_rows t)"
    and same: "a_state_id r = a_state_id s" and other: "a_apply_id r \<noteq> a_apply_id s"
    and cover: "glob_matches (a_glob r) addr" "glob_matches (a_glob s) addr"
  shows "a_mode r = ReservationRead \<and> a_mode s = ReservationRead"
proof -
  have "reservations.safe t" unfolding t by (rule run_reservations_safe)
  moreover have "claim_of r \<in> table_claims t" "claim_of s \<in> table_claims t"
    using r s by (auto simp: table_claims_def)
  ultimately have "\<not> claims_clash (claim_of r) (claim_of s)" by (rule reservations.safe_clash)
  moreover have "globs_intersect (a_glob r) (a_glob s)"
    using cover by (rule globs_intersect_common_address)
  ultimately show ?thesis using same other by (auto simp: claim_of_def)
qed

definition ex_ops :: "reservation_op list" where
  "ex_ops =
     [Acquire {''s''} 0 0 ''s'' ''p1'' ''ann'' [\<lparr>w_glob = ''aws_vpc.a'', w_mode = ReservationRead\<rparr>] 30,
      Acquire {''s''} 1 1 ''s'' ''p2'' ''bob'' [\<lparr>w_glob = ''*'', w_mode = ReservationRead\<rparr>] 30,
      Acquire {''s''} 2 2 ''s'' ''p2'' ''bob'' [\<lparr>w_glob = ''aws_vpc.a'', w_mode = ReservationWrite\<rparr>] 30]"

lemma ex_ops_rows:
  "rt_rows (run_reservations ex_ops empty_reservations) =
     [\<lparr>a_id = 0, a_state_id = ''s'', a_glob = ''aws_vpc.a'', a_mode = ReservationRead, a_holder = ''ann'',
       a_apply_id = ''p1'', a_acquired_at = 0, a_expires_at = 30\<rparr>,
      \<lparr>a_id = 1, a_state_id = ''s'', a_glob = ''*'', a_mode = ReservationRead, a_holder = ''bob'',
       a_apply_id = ''p2'', a_acquired_at = 1, a_expires_at = 31\<rparr>]"
  by (simp add: run_reservations_def ex_ops_def empty_reservations_def acquire_reservations_def
      purge_expired_def find_conflicts_def conflicts_with_def upsert_reservation_def same_key_def
      globs_intersect_def Let_def)

theorem reservations_exclusive_witness:
  "a_mode (rt_rows (run_reservations ex_ops empty_reservations) ! 0) = ReservationRead \<and>
   a_mode (rt_rows (run_reservations ex_ops empty_reservations) ! 1) = ReservationRead"
  by (rule reservations_exclusive[where ops = ex_ops and addr = "''aws_vpc.a''", OF refl])
    (simp_all add: ex_ops_rows glob_matches_def suffix_def)

section \<open>Every branch of AcquireReservations\<close>

definition blocks :: "int \<Rightarrow> string \<Rightarrow> string \<Rightarrow> reservation list \<Rightarrow> active_reservation \<Rightarrow> bool" where
  "blocks now sid apply_id want a \<longleftrightarrow>
     a_state_id a = sid \<and> now \<le> a_expires_at a \<and> (\<exists>w \<in> set want. conflicts_with apply_id w a)"

lemma find_conflicts_blocks:
  "set (find_conflicts p want (filter (\<lambda>a. a_state_id a = sid) (rt_rows (purge_expired now sid t))))
     = {a \<in> set (rt_rows t). blocks now sid p want a}"
  by (auto simp: set_find_conflicts blocks_def purge_expired_def)

lemma set_dedupe_conflicts:
  assumes "distinct (map a_id rs)" and "set cs \<subseteq> set rs"
  shows "set (dedupe_conflicts cs) = set cs"
proof -
  have "a_id ` set (dedupe_conflicts cs) = a_id ` set cs"
    by (simp add: dedupe_conflicts_def set_dedupe_loop)
  moreover have "set (dedupe_conflicts cs) \<subseteq> set cs"
    using dedupe_loop_subset by (simp add: dedupe_conflicts_def)
  moreover have "inj_on a_id (set cs)"
    using assms by (meson distinct_map inj_on_subset)
  ultimately show ?thesis by (meson inj_on_image_eq_iff subset_refl)
qed

text \<open>C27: A refused acquire changes nothing and names exactly the blockers: when the state exists and
  some unexpired row of another apply conflicts with a wanted reservation, the call fails with the
  set of those rows and the table is the one before the call; otherwise it succeeds.\<close>

theorem acquire_reservations_blocked:
  assumes "want \<noteq> []" and "sid \<in> states" and "distinct (map a_id (rt_rows t))"
  shows "if \<exists>a \<in> set (rt_rows t). blocks now sid p want a
    then \<exists>cs. acquire_reservations states now clock sid p actor want lease t = (Inl (ReservationConflict cs), t)
        \<and> set cs = {a \<in> set (rt_rows t). blocks now sid p want a}
    else fst (acquire_reservations states now clock sid p actor want lease t) = Inr ()"
proof -
  let ?cs = "find_conflicts p want (filter (\<lambda>a. a_state_id a = sid) (rt_rows (purge_expired now sid t)))"
  have cs: "set ?cs = {a \<in> set (rt_rows t). blocks now sid p want a}" by (rule find_conflicts_blocks)
  have "set (dedupe_conflicts ?cs) = set ?cs"
    using set_dedupe_conflicts[OF assms(3)] cs by auto
  moreover have "?cs = [] \<longleftrightarrow> \<not> (\<exists>a \<in> set (rt_rows t). blocks now sid p want a)"
    by (simp only: set_empty[symmetric] cs) blast
  ultimately show ?thesis
  proof (cases "\<exists>a \<in> set (rt_rows t). blocks now sid p want a")
    case True
    then have "acquire_reservations states now clock sid p actor want lease t =
        (Inl (ReservationConflict (dedupe_conflicts ?cs)), t)"
      using assms(1,2) \<open>?cs = [] \<longleftrightarrow> _\<close> by (simp add: acquire_reservations_def Let_def)
    then show ?thesis using True cs \<open>set (dedupe_conflicts ?cs) = set ?cs\<close> by simp
  next
    case False
    then have "?cs = []" using \<open>?cs = [] \<longleftrightarrow> _\<close> by simp
    then show ?thesis using assms(1,2) False by (simp add: acquire_reservations_def Let_def)
  qed
qed

text \<open>The scenario of the witness: a reader holds the address a writer asks for.\<close>

theorem acquire_reservations_blocked_witness:
  "\<exists>cs. acquire_reservations {''s''} 2 2 ''s'' ''p3'' ''eve''
       [\<lparr>w_glob = ''aws_vpc.a'', w_mode = ReservationWrite\<rparr>] 30 (run_reservations ex_ops empty_reservations)
     = (Inl (ReservationConflict cs), run_reservations ex_ops empty_reservations)"
  using acquire_reservations_blocked[of "[\<lparr>w_glob = ''aws_vpc.a'', w_mode = ReservationWrite\<rparr>]" "''s''" "{''s''}"
      "run_reservations ex_ops empty_reservations" 2 "''p3''" 2 "''eve''" 30]
  by (auto simp: ex_ops_rows blocks_def conflicts_with_def globs_intersect_def)

section \<open>What a successful acquire holds\<close>

lemma upsert_holds:
  "\<exists>a \<in> set (rt_rows (upsert_reservation now sid actor p e w t)).
     same_key sid actor p w a \<and> a_mode a = w_mode w \<and> a_expires_at a = e"
proof (cases "\<exists>a \<in> set (rt_rows t). same_key sid actor p w a")
  case True
  then obtain a where a: "a \<in> set (rt_rows t)" "same_key sid actor p w a" by blast
  then have "a\<lparr>a_expires_at := e, a_mode := w_mode w\<rparr>
      \<in> set (rt_rows (upsert_reservation now sid actor p e w t))"
    by (force simp: upsert_reservation_def)
  moreover have "same_key sid actor p w (a\<lparr>a_expires_at := e, a_mode := w_mode w\<rparr>)"
    using a(2) by (simp add: same_key_def)
  moreover have "a_mode (a\<lparr>a_expires_at := e, a_mode := w_mode w\<rparr>) = w_mode w \<and>
      a_expires_at (a\<lparr>a_expires_at := e, a_mode := w_mode w\<rparr>) = e" by simp
  ultimately show ?thesis by blast
qed (simp add: upsert_reservation_def, simp add: same_key_def)

lemma upsert_keeps:
  assumes "a \<in> set (rt_rows t)" and "same_key sid actor p v a" and "a_expires_at a = e"
    and "w_glob w = w_glob v \<longrightarrow> w_mode w = m" and "a_mode a = m"
  shows "\<exists>a \<in> set (rt_rows (upsert_reservation now sid actor p e w t)).
    same_key sid actor p v a \<and> a_mode a = m \<and> a_expires_at a = e"
proof (cases "\<exists>a \<in> set (rt_rows t). same_key sid actor p w a")
  case True
  let ?f = "\<lambda>a. if same_key sid actor p w a then a\<lparr>a_expires_at := e, a_mode := w_mode w\<rparr> else a"
  have "?f a \<in> set (rt_rows (upsert_reservation now sid actor p e w t))"
    using True assms(1) by (simp add: upsert_reservation_def)
  moreover have "same_key sid actor p v (?f a) \<and> a_mode (?f a) = m \<and> a_expires_at (?f a) = e"
    using assms by (auto simp: same_key_def)
  ultimately show ?thesis by blast
next
  case False
  then show ?thesis using assms by (auto simp: upsert_reservation_def)
qed

lemma upserts_hold:
  assumes "distinct (map w_glob want)" and "w \<in> set want"
  shows "\<exists>a \<in> set (rt_rows (foldl (\<lambda>t w. upsert_reservation now sid actor p e w t) t want)).
    same_key sid actor p w a \<and> a_mode a = w_mode w \<and> a_expires_at a = e"
  using assms
proof (induction want rule: rev_induct)
  case (snoc v want)
  show ?case
  proof (cases "w = v")
    case True
    then show ?thesis using upsert_holds by simp
  next
    case False
    then have "w \<in> set want" "w_glob v \<noteq> w_glob w" using snoc.prems by auto
    then show ?thesis using snoc upsert_keeps by fastforce
  qed
qed simp

text \<open>A successful acquire with one entry per glob holds every wanted reservation: for each there is
  a row of this state, glob, holder and apply with the wanted mode and the full lease.\<close>

theorem acquire_reservations_holds:
  assumes "acquire_reservations states now clock sid p actor want lease t = (Inr (), t')"
    and "distinct (map w_glob want)" and "w \<in> set want"
  shows "\<exists>a \<in> set (rt_rows t'). same_key sid actor p w a \<and> a_mode a = w_mode w \<and>
    a_expires_at a = clock + lease"
proof -
  have "want \<noteq> []" using assms(3) by auto
  then show ?thesis using acquire_success(3)[OF assms(1)] upserts_hold[OF assms(2,3)] by simp
qed

theorem acquire_reservations_holds_witness:
  "\<exists>a \<in> set (rt_rows (snd (acquire_reservations {''s''} 5 6 ''s'' ''p1'' ''ann''
       [\<lparr>w_glob = ''aws_vpc.b'', w_mode = ReservationWrite\<rparr>] 30 empty_reservations))).
     same_key ''s'' ''ann'' ''p1'' \<lparr>w_glob = ''aws_vpc.b'', w_mode = ReservationWrite\<rparr> a \<and>
     a_mode a = w_mode \<lparr>w_glob = ''aws_vpc.b'', w_mode = ReservationWrite\<rparr> \<and> a_expires_at a = 6 + 30"
  by (rule acquire_reservations_holds[where states = "{''s''}" and now = 5 and t = empty_reservations
        and want = "[\<lparr>w_glob = ''aws_vpc.b'', w_mode = ReservationWrite\<rparr>]"])
    (simp_all add: acquire_reservations_def empty_reservations_def purge_expired_def find_conflicts_def Let_def)

text \<open>Asking for a glob twice, for writing and then for reading, leaves only the read reservation.\<close>

lemma acquire_downgrades:
  "map a_mode (rt_rows (snd (acquire_reservations {''s''} 5 6 ''s'' ''p1'' ''ann''
     [\<lparr>w_glob = ''aws_vpc.b'', w_mode = ReservationWrite\<rparr>,
      \<lparr>w_glob = ''aws_vpc.b'', w_mode = ReservationRead\<rparr>] 30 empty_reservations))) = [ReservationRead]"
  by (simp add: acquire_reservations_def empty_reservations_def purge_expired_def find_conflicts_def
      upsert_reservation_def same_key_def)

text \<open>Release removes the apply's rows and no other; renewal touches only the live rows of the apply.\<close>

lemma release_rows: "set (rt_rows (release_reservations p t)) = {a \<in> set (rt_rows t). a_apply_id a \<noteq> p}"
  by (auto simp: release_reservations_def)

lemma renew_keeps_expired:
  assumes "a \<in> set (rt_rows t)" and "a_expires_at a \<le> now"
  shows "a \<in> set (rt_rows (snd (renew_reservations now clock p lease t)))"
  using assms by (force simp: renew_reservations_def Let_def)

end
