(* ===== verification/StateMerge.thy ===== *)
theory StateMerge
  imports Address "HOL-Library.Product_Lexorder"
begin

text \<open>
  The three-way merge of \<^verbatim>\<open>pkg/store/merge.go\<close>, which an optimistic write of a whole state uses to
  combine the operator's proposal with what others committed since the operator's base.

  A Go map is the list of its entries (its keys are distinct); \<open>iter\<close> is the order in which Go visits
  one, which the code does not control. Two marshalled instances are equal bytes exactly when the
  normalised instances are equal.
\<close>

section \<open>Instance keys\<close>

record instance_key =
  k_mode :: string
  k_type :: string
  k_name :: string
  k_module :: string
  k_index :: string

type_synonym instance_record = "tf_resource \<times> resource_instance"
type_synonym instance_map = "(instance_key \<times> instance_record) list"

datatype merge_error =
    LineageMismatch
  | BadIndex string string raw
  | DuplicateInstance string
  | WriteSetConflict "string list" int

definition canonical_index :: "resource_instance \<Rightarrow> (raw, string) result" where
  "canonical_index inst = bind_result (decode_index inst) (\<lambda>(kind, val).
     Inr (case kind of IndexNone \<Rightarrow> [] | IndexInt \<Rightarrow> ''i:'' @ val | IndexString \<Rightarrow> ''s:'' @ val))"

definition instance_address_from_key :: "instance_key \<Rightarrow> string" where
  "instance_address_from_key k =
     (if k_module k \<noteq> [] then k_module k @ ''.'' else []) @
     (if k_mode k = ''data'' then ''data.'' else []) @ k_type k @ ''.'' @ k_name k @
     (if k_index k = [] then []
      else if length (k_index k) > 2 \<and> take 2 (k_index k) = ''i:'' then ''['' @ drop 2 (k_index k) @ '']''
      else if length (k_index k) > 2 \<and> take 2 (k_index k) = ''s:''
        then ''['' @ [dquote] @ drop 2 (k_index k) @ [dquote] @ '']''
      else [])"

definition state_instances :: "tf_state \<Rightarrow> instance_record list" where
  "state_instances s = concat (map (\<lambda>r. map (\<lambda>i. (r, i)) (r_instances r)) (st_resources s))"

fun build_loop :: "instance_map \<Rightarrow> instance_record list \<Rightarrow> (merge_error, instance_map) result" where
  "build_loop out [] = Inr out"
| "build_loop out ((r, inst) # rest) =
     (case canonical_index inst of
        Inl e \<Rightarrow> Inl (BadIndex (r_type r) (r_name r) e)
      | Inr idx \<Rightarrow>
          (let k = \<lparr>k_mode = r_mode r, k_type = r_type r, k_name = r_name r, k_module = r_module r,
                    k_index = idx\<rparr>
           in if map_of out k \<noteq> None then Inl (DuplicateInstance (instance_address_from_key k))
              else build_loop (out @ [(k, (r, inst))]) rest))"

definition build_instance_map :: "tf_state \<Rightarrow> (merge_error, instance_map) result" where
  "build_instance_map s = build_loop [] (state_instances s)"

section \<open>Write sets\<close>

definition instance_bytes :: "resource_instance \<Rightarrow> resource_instance" where
  "instance_bytes inst = inst\<lparr>i_attributes := canon_raw (i_attributes inst),
     i_sensitive_attributes := canon_raw (i_sensitive_attributes inst),
     i_index_key := canon_raw (i_index_key inst)\<rparr>"

definition resource_write_set :: "instance_map \<Rightarrow> instance_map \<Rightarrow> string set" where
  "resource_write_set from_map to_map =
     set (map (\<lambda>(k, fr). instance_address_from_key k)
       (filter (\<lambda>(k, fr). case map_of to_map k of
            None \<Rightarrow> True
          | Some tr \<Rightarrow> instance_bytes (snd fr) \<noteq> instance_bytes (snd tr)) from_map))
     \<union> set (map (\<lambda>(k, tr). instance_address_from_key k)
         (filter (\<lambda>(k, tr). map_of from_map k = None) to_map))"

definition output_write_set ::
    "(string \<times> tf_output) list \<Rightarrow> (string \<times> tf_output) list \<Rightarrow> string set" where
  "output_write_set from_map to_map =
     set (map (\<lambda>(n, fv). ''output.'' @ n)
       (filter (\<lambda>(n, fv). case map_of to_map n of
            None \<Rightarrow> True
          | Some tv \<Rightarrow> o_value fv \<noteq> o_value tv \<or> o_type fv \<noteq> o_type tv \<or>
              o_sensitive fv \<noteq> o_sensitive tv) from_map))
     \<union> set (map (\<lambda>(n, tv). ''output.'' @ n) (filter (\<lambda>(n, tv). map_of from_map n = None) to_map))"

section \<open>Rebuilding the resource groups\<close>

definition group_of_key :: "instance_key \<Rightarrow> string \<times> string \<times> string \<times> string" where
  "group_of_key k = (k_module k, k_mode k, k_type k, k_name k)"

definition regroup_resources :: "instance_map \<Rightarrow> tf_resource list" where
  "regroup_resources m =
     map (\<lambda>(md, mo, ty, na).
       (let rows = filter (\<lambda>(k, rec). group_of_key k = (md, mo, ty, na)) m
        in \<lparr>r_mode = mo, r_type = ty, r_name = na,
            r_provider = r_provider (fst (snd (hd rows))), r_module = md,
            r_instances = map (\<lambda>(k, rec). snd rec) (sort_key (\<lambda>(k, rec). k_index k) rows)\<rparr>))
       (sort (remdups (map (\<lambda>(k, rec). group_of_key k) m)))"

section \<open>MergeStates\<close>

definition merge_maps :: "string set \<Rightarrow> instance_map \<Rightarrow> instance_map \<Rightarrow> instance_map" where
  "merge_maps theirs trunk_map proposed_map =
     filter (\<lambda>(k, rec). instance_address_from_key k \<notin> theirs) trunk_map @
     filter (\<lambda>(k, rec). instance_address_from_key k \<in> theirs) proposed_map"

definition merge_outputs ::
    "string set \<Rightarrow> (string \<times> tf_output) list \<Rightarrow> (string \<times> tf_output) list \<Rightarrow> (string \<times> tf_output) list" where
  "merge_outputs theirs trunk_outputs proposed_outputs =
     filter (\<lambda>(n, v). ''output.'' @ n \<notin> theirs) trunk_outputs @
     filter (\<lambda>(n, v). ''output.'' @ n \<in> theirs) proposed_outputs"

definition merge_states ::
    "(instance_map \<Rightarrow> instance_map) \<Rightarrow> tf_state \<Rightarrow> tf_state \<Rightarrow> tf_state \<Rightarrow> (merge_error, tf_state) result" where
  "merge_states iter base trunk_now proposed =
     (if st_lineage proposed \<noteq> [] \<and> st_lineage trunk_now \<noteq> [] \<and>
         st_lineage proposed \<noteq> st_lineage trunk_now then Inl LineageMismatch
      else bind_result (build_instance_map base) (\<lambda>base_map.
           bind_result (build_instance_map trunk_now) (\<lambda>trunk_map.
           bind_result (build_instance_map proposed) (\<lambda>proposed_map.
             (let theirs = resource_write_set base_map proposed_map;
                  committed = resource_write_set base_map trunk_map;
                  theirs_out = output_write_set (st_outputs base) (st_outputs proposed);
                  committed_out = output_write_set (st_outputs base) (st_outputs trunk_now);
                  conflicts = sort (sorted_keys (theirs \<inter> committed) @
                    sorted_keys (theirs_out \<inter> committed_out))
              in if conflicts \<noteq> [] then Inl (WriteSetConflict conflicts (st_serial trunk_now))
                 else Inr \<lparr>st_version = 4,
                   st_terraform_version = st_terraform_version trunk_now,
                   st_serial = st_serial trunk_now + 1,
                   st_lineage = st_lineage trunk_now,
                   st_outputs = merge_outputs theirs_out (st_outputs trunk_now) (st_outputs proposed),
                   st_resources = regroup_resources (iter (merge_maps theirs trunk_map proposed_map)),
                   st_check_results = st_check_results trunk_now\<rparr>)))))"

section \<open>Building the instance map\<close>

definition key_of :: "instance_record \<Rightarrow> instance_key" where
  "key_of p = \<lparr>k_mode = r_mode (fst p), k_type = r_type (fst p), k_name = r_name (fst p),
     k_module = r_module (fst p), k_index = projr (canonical_index (snd p))\<rparr>"

definition indexed :: "instance_record list \<Rightarrow> instance_map" where
  "indexed ps = map (\<lambda>p. (key_of p, p)) ps"

lemma build_loop_Inr:
  "build_loop out ps = Inr m \<longleftrightarrow>
     (\<forall>p \<in> set ps. \<exists>x. canonical_index (snd p) = Inr x) \<and>
     distinct (map key_of ps) \<and> key_of ` set ps \<inter> fst ` set out = {} \<and> m = out @ indexed ps"
proof (induction out ps rule: build_loop.induct)
  case (2 out r inst rest)
  show ?case
  proof (cases "canonical_index inst")
    case (Inr idx)
    have k: "key_of (r, inst) = \<lparr>k_mode = r_mode r, k_type = r_type r, k_name = r_name r,
        k_module = r_module r, k_index = idx\<rparr>"
      using Inr by (simp add: key_of_def)
    show ?thesis
    proof (cases "map_of out (key_of (r, inst))")
      case None
      then have "key_of (r, inst) \<notin> fst ` set out" by (simp add: map_of_eq_None_iff)
      then show ?thesis using 2[OF Inr refl] Inr None k
        by (auto simp: indexed_def Let_def)
    next
      case (Some x)
      then have "key_of (r, inst) \<in> fst ` set out" by (metis map_of_eq_None_iff option.distinct(1))
      then show ?thesis using Inr Some k by (auto simp: Let_def)
    qed
  qed (auto)
qed (auto simp: indexed_def)

text \<open>A state whose instances can be indexed, and the instance it has under a key.\<close>

definition indexable :: "tf_state \<Rightarrow> bool" where
  "indexable s \<longleftrightarrow> (\<forall>p \<in> set (state_instances s). \<exists>x. canonical_index (snd p) = Inr x) \<and>
     distinct (map key_of (state_instances s))"

definition instance_at :: "tf_state \<Rightarrow> instance_key \<Rightarrow> resource_instance option" where
  "instance_at s k = map_of (map (\<lambda>p. (key_of p, snd p)) (state_instances s)) k"

lemma build_instance_map_Inr:
  "build_instance_map s = Inr m \<longleftrightarrow> indexable s \<and> m = indexed (state_instances s)"
  by (auto simp: build_instance_map_def build_loop_Inr indexable_def)

lemma map_of_indexed: "map_of (indexed ps) k = find (\<lambda>p. key_of p = k) ps"
  by (induction ps) (auto simp: indexed_def)

lemma map_of_key_snd: "map_of (map (\<lambda>p. (key_of p, snd p)) ps) k = map_option snd (map_of (indexed ps) k)"
  by (induction ps) (auto simp: indexed_def)

lemma instance_at_indexed: "instance_at s k = map_option snd (map_of (indexed (state_instances s)) k)"
  by (simp add: instance_at_def map_of_key_snd)

section \<open>Regrouping keeps every instance\<close>

lemma mset_filter_disj:
  "(\<And>x. \<not> (P x \<and> Q x)) \<Longrightarrow> mset (filter P xs) + mset (filter Q xs) = mset (filter (\<lambda>x. P x \<or> Q x) xs)"
  by (induction xs) auto

lemma mset_concat_classes:
  "distinct gs \<Longrightarrow> mset (concat (map (\<lambda>g. filter (\<lambda>x. f x = g) xs) gs)) = mset (filter (\<lambda>x. f x \<in> set gs) xs)"
proof (induction gs)
  case (Cons g gs)
  then show ?case
    using mset_filter_disj[of "\<lambda>x. f x = g" "\<lambda>x. f x \<in> set gs" xs] by auto
qed simp

definition regroup_order :: "instance_map \<Rightarrow> instance_map" where
  "regroup_order m = concat (map (\<lambda>g. sort_key (\<lambda>(k, rec). k_index k)
       (filter (\<lambda>x. group_of_key (fst x) = g) m)) (sort (remdups (map (\<lambda>(k, rec). group_of_key k) m))))"

lemma mset_regroup_order: "mset (regroup_order m) = mset m"
proof -
  let ?gs = "sort (remdups (map (\<lambda>(k, rec). group_of_key k) m))"
  have "mset (regroup_order m)
      = mset (concat (map (\<lambda>g. filter (\<lambda>x. group_of_key (fst x) = g) m) ?gs))"
    by (simp add: regroup_order_def mset_concat comp_def)
  also have "\<dots> = mset (filter (\<lambda>x. group_of_key (fst x) \<in> set ?gs) m)"
    by (rule mset_concat_classes) simp
  also have "filter (\<lambda>x. group_of_key (fst x) \<in> set ?gs) m = m"
    by (rule filter_True) (force simp: case_prod_unfold)
  finally show ?thesis .
qed

definition keys_match :: "instance_map \<Rightarrow> bool" where
  "keys_match m \<longleftrightarrow> (\<forall>(k, rec) \<in> set m. canonical_index (snd rec) = Inr (k_index k))"

lemma keys_match_indexed: "indexable s \<Longrightarrow> keys_match (indexed (state_instances s))"
  by (auto simp: keys_match_def indexed_def indexable_def key_of_def)

lemma state_instances_regroup:
  assumes "keys_match m" and "st_resources s = regroup_resources m"
  shows "map (\<lambda>p. (key_of p, snd p)) (state_instances s) = map (\<lambda>(k, rec). (k, snd rec)) (regroup_order m)"
proof -
  have row: "key_of (\<lparr>r_mode = mo, r_type = ty, r_name = na, r_provider = pr, r_module = md, r_instances = is\<rparr>,
        snd rec) = k"
    if "(k, rec) \<in> set m" "group_of_key k = (md, mo, ty, na)" for k rec md mo ty na pr "is"
    using that assms(1) by (cases k) (auto simp: key_of_def group_of_key_def keys_match_def)
  show ?thesis
    unfolding state_instances_def assms(2) regroup_resources_def regroup_order_def map_concat map_map
    by (intro arg_cong[where f = concat] map_cong refl)
      (auto simp: Let_def case_prod_unfold row)
qed

lemma regroup_instance_at:
  assumes m: "keys_match m" "distinct (map fst m)" and s: "st_resources s = regroup_resources m"
  shows "instance_at s k = map_option snd (map_of m k)" and "indexable s"
proof -
  let ?f = "\<lambda>(k, rec :: instance_record). (k, snd rec)"
  note eq = state_instances_regroup[OF m(1) s]
  have perm: "mset (map ?f (regroup_order m)) = mset (map ?f m)"
    by (simp add: mset_regroup_order)
  have d: "distinct (map fst (map ?f m))" using m(2) by (simp add: comp_def case_prod_unfold)
  have "instance_at s k = map_of (map ?f (regroup_order m)) k" by (simp add: instance_at_def eq)
  also have "\<dots> = map_of (map ?f m) k" using map_of_mset_eq[OF d perm[symmetric]] by simp
  also have "\<dots> = map_option snd (map_of m k)" by (induction m) auto
  finally show "instance_at s k = map_option snd (map_of m k)" .
  have keys: "map key_of (state_instances s) = map fst (regroup_order m)"
    using arg_cong[OF eq, of "map fst"] by (simp add: comp_def case_prod_unfold)
  have "distinct (map fst (regroup_order m))"
    using m(2) mset_regroup_order[of m] by (metis mset_eq_imp_distinct_iff mset_map)
  moreover have "\<exists>x. canonical_index (snd p) = Inr x" if "p \<in> set (state_instances s)" for p
  proof -
    have "(key_of p, snd p) \<in> set (map ?f (regroup_order m))" using that by (auto simp flip: eq)
    then have "(key_of p, snd p) \<in> set (map ?f m)" using perm by (metis mset_eq_setD)
    then show ?thesis using m(1) by (auto simp: keys_match_def)
  qed
  ultimately show "indexable s" by (auto simp: indexable_def keys)
qed

section \<open>What a merge takes from whom\<close>

definition instance_changed :: "tf_state \<Rightarrow> tf_state \<Rightarrow> instance_key \<Rightarrow> bool" where
  "instance_changed base s k \<longleftrightarrow>
     map_option instance_bytes (instance_at base k) \<noteq> map_option instance_bytes (instance_at s k)"

definition writes :: "tf_state \<Rightarrow> tf_state \<Rightarrow> string set" where
  "writes base s = resource_write_set (indexed (state_instances base)) (indexed (state_instances s))"

definition output_writes :: "tf_state \<Rightarrow> tf_state \<Rightarrow> string set" where
  "output_writes base s = output_write_set (st_outputs base) (st_outputs s)"

definition visits :: "(instance_map \<Rightarrow> instance_map) \<Rightarrow> bool" where
  "visits iter \<longleftrightarrow> (\<forall>m. mset (iter m) = mset m)"

lemma map_of_filter_keys: "map_of (filter (\<lambda>(k, v). P k) m) k = (if P k then map_of m k else None)"
  by (induction m) auto

lemma map_of_Some_ex: "k \<in> fst ` set m \<Longrightarrow> \<exists>v. map_of m k = Some v"
  by (metis map_of_eq_None_iff not_Some_eq)

lemma resource_write_set_iff:
  assumes "distinct (map fst a)" and "distinct (map fst b)"
  shows "x \<in> resource_write_set a b \<longleftrightarrow> (\<exists>k. x = instance_address_from_key k \<and>
    map_option (instance_bytes \<circ> snd) (map_of a k) \<noteq> map_option (instance_bytes \<circ> snd) (map_of b k))"
proof
  assume "x \<in> resource_write_set a b"
  then show "\<exists>k. x = instance_address_from_key k \<and>
      map_option (instance_bytes \<circ> snd) (map_of a k) \<noteq> map_option (instance_bytes \<circ> snd) (map_of b k)"
  proof (clarsimp simp: resource_write_set_def, elim disjE exE conjE imageE, goal_cases)
    case (1 kf)
    obtain k fr where kf: "kf = (k, fr)" by (cases kf)
    with 1 assms(1) have "map_of a k = Some fr" by auto
    then show ?case using 1 kf by (intro exI[of _ k]) (auto split: option.splits)
  next
    case (2 kt)
    obtain k tr where kt: "kt = (k, tr)" by (cases kt)
    with 2 assms(2) have "map_of b k = Some tr" by auto
    then show ?case using 2 kt by (intro exI[of _ k]) auto
  qed
next
  assume "\<exists>k. x = instance_address_from_key k \<and>
    map_option (instance_bytes \<circ> snd) (map_of a k) \<noteq> map_option (instance_bytes \<circ> snd) (map_of b k)"
  then obtain k where k: "x = instance_address_from_key k"
    "map_option (instance_bytes \<circ> snd) (map_of a k) \<noteq> map_option (instance_bytes \<circ> snd) (map_of b k)"
    by blast
  show "x \<in> resource_write_set a b"
  proof (cases "map_of a k")
    case None
    then obtain tr where "(k, tr) \<in> set b" using k(2) by (auto dest: map_of_SomeD)
    then show ?thesis using None k(1) by (force simp: resource_write_set_def)
  next
    case (Some fr)
    then have "(k, fr) \<in> set a" by (rule map_of_SomeD)
    then show ?thesis using Some k by (force simp: resource_write_set_def split: option.splits)
  qed
qed

lemma distinct_indexed: "indexable s \<Longrightarrow> distinct (map fst (indexed (state_instances s)))"
  by (simp add: indexable_def indexed_def comp_def)

lemma writes_iff:
  assumes "indexable base" and "indexable s"
  shows "x \<in> writes base s \<longleftrightarrow> (\<exists>k. x = instance_address_from_key k \<and> instance_changed base s k)"
  using resource_write_set_iff[OF distinct_indexed[OF assms(1)] distinct_indexed[OF assms(2)]]
  by (simp add: writes_def instance_changed_def instance_at_indexed option.map_comp)

lemma finite_writes [simp]: "finite (writes base s)" "finite (output_writes base s)"
  by (simp_all add: writes_def resource_write_set_def output_writes_def output_write_set_def)

text \<open>The result of a merge in terms of its three inputs.\<close>

lemma merge_states_cases:
  assumes i: "indexable base" "indexable trunk" "indexable proposed"
    and l: "st_lineage proposed = [] \<or> st_lineage trunk = [] \<or> st_lineage proposed = st_lineage trunk"
  shows "merge_states iter base trunk proposed =
    (let conflicts = sort (sorted_keys (writes base proposed \<inter> writes base trunk) @
           sorted_keys (output_writes base proposed \<inter> output_writes base trunk))
     in if conflicts \<noteq> [] then Inl (WriteSetConflict conflicts (st_serial trunk))
        else Inr \<lparr>st_version = 4, st_terraform_version = st_terraform_version trunk,
          st_serial = st_serial trunk + 1, st_lineage = st_lineage trunk,
          st_outputs = merge_outputs (output_writes base proposed) (st_outputs trunk) (st_outputs proposed),
          st_resources = regroup_resources (iter (merge_maps (writes base proposed)
            (indexed (state_instances trunk)) (indexed (state_instances proposed)))),
          st_check_results = st_check_results trunk\<rparr>)"
proof -
  have b: "build_instance_map s = Inr (indexed (state_instances s))" if "indexable s" for s
    using that build_instance_map_Inr by blast
  show ?thesis
    using l by (simp add: merge_states_def b[OF i(1)] b[OF i(2)] b[OF i(3)] writes_def output_writes_def Let_def)
qed

lemma merge_states_InrD:
  assumes "merge_states iter base trunk proposed = Inr merged"
  shows "indexable base" and "indexable trunk" and "indexable proposed"
    and "writes base proposed \<inter> writes base trunk = {}"
    and "output_writes base proposed \<inter> output_writes base trunk = {}"
    and "st_serial merged = st_serial trunk + 1" and "st_lineage merged = st_lineage trunk"
    and "st_outputs merged = merge_outputs (output_writes base proposed) (st_outputs trunk) (st_outputs proposed)"
    and "st_resources merged = regroup_resources (iter (merge_maps (writes base proposed)
            (indexed (state_instances trunk)) (indexed (state_instances proposed))))"
proof -
  have l: "st_lineage proposed = [] \<or> st_lineage trunk = [] \<or> st_lineage proposed = st_lineage trunk"
    using assms by (auto simp: merge_states_def split: if_splits)
  show i: "indexable base" "indexable trunk" "indexable proposed"
    using assms by (auto simp: merge_states_def build_instance_map_Inr split: if_splits)
  have m: "\<not> sort (sorted_keys (writes base proposed \<inter> writes base trunk) @
           sorted_keys (output_writes base proposed \<inter> output_writes base trunk)) \<noteq> []"
    "Inr merged = (Inr \<lparr>st_version = 4, st_terraform_version = st_terraform_version trunk,
          st_serial = st_serial trunk + 1, st_lineage = st_lineage trunk,
          st_outputs = merge_outputs (output_writes base proposed) (st_outputs trunk) (st_outputs proposed),
          st_resources = regroup_resources (iter (merge_maps (writes base proposed)
            (indexed (state_instances trunk)) (indexed (state_instances proposed)))),
          st_check_results = st_check_results trunk\<rparr> :: (merge_error, tf_state) result)"
    using assms unfolding merge_states_cases[OF i l, of iter] by (auto simp only: Let_def split: if_splits)
  then have "sorted_keys (writes base proposed \<inter> writes base trunk) = []"
    "sorted_keys (output_writes base proposed \<inter> output_writes base trunk) = []"
    by (metis append_is_Nil_conv set_empty set_sort)+
  then show "writes base proposed \<inter> writes base trunk = {}"
    "output_writes base proposed \<inter> output_writes base trunk = {}"
    using sorted_keys_eq_Nil by (meson finite_Int finite_writes)+
  show "st_serial merged = st_serial trunk + 1" "st_lineage merged = st_lineage trunk"
    "st_outputs merged = merge_outputs (output_writes base proposed) (st_outputs trunk) (st_outputs proposed)"
    "st_resources merged = regroup_resources (iter (merge_maps (writes base proposed)
            (indexed (state_instances trunk)) (indexed (state_instances proposed))))"
    using m(2) by simp_all
qed

lemma merged_instance_at:
  assumes m: "merge_states iter base trunk proposed = Inr merged" and v: "visits iter"
  shows "instance_at merged k = (if instance_address_from_key k \<in> writes base proposed
      then instance_at proposed k else instance_at trunk k)"
    and "indexable merged"
proof -
  let ?T = "indexed (state_instances trunk)" and ?P = "indexed (state_instances proposed)"
  let ?M = "merge_maps (writes base proposed) ?T ?P"
  note i = merge_states_InrD(1-3)[OF m] and r = merge_states_InrD(9)[OF m]
  have dM: "distinct (map fst ?M)"
    using distinct_indexed[OF i(2)] distinct_indexed[OF i(3)]
    by (auto simp: merge_maps_def distinct_map inj_on_def)
  have "keys_match ?M"
    using keys_match_indexed[OF i(2)] keys_match_indexed[OF i(3)] by (auto simp: keys_match_def merge_maps_def)
  moreover have perm: "mset (iter ?M) = mset ?M" using v by (simp add: visits_def)
  ultimately have k: "keys_match (iter ?M)" by (metis keys_match_def mset_eq_setD)
  have d: "distinct (map fst (iter ?M))" using dM perm by (metis mset_eq_imp_distinct_iff mset_map)
  have "map_of (iter ?M) k = map_of ?M k" using map_of_mset_eq[OF d perm] by simp
  also have "\<dots> = (if instance_address_from_key k \<in> writes base proposed then map_of ?P k else map_of ?T k)"
    by (auto simp: merge_maps_def map_add_def map_of_filter_keys split: option.splits)
  finally show "instance_at merged k = (if instance_address_from_key k \<in> writes base proposed
      then instance_at proposed k else instance_at trunk k)"
    using regroup_instance_at(1)[OF k d r] by (simp add: instance_at_indexed)
  show "indexable merged" by (rule regroup_instance_at(2)[OF k d r])
qed

lemma merged_output_at:
  assumes "merge_states iter base trunk proposed = Inr merged"
  shows "map_of (st_outputs merged) n = (if ''output.'' @ n \<in> output_writes base proposed
      then map_of (st_outputs proposed) n else map_of (st_outputs trunk) n)"
  by (auto simp: merge_states_InrD(8)[OF assms] merge_outputs_def map_add_def map_of_filter_keys
      split: option.splits)

lemma merged_keeps:
  assumes m: "merge_states iter base trunk proposed = Inr merged" and v: "visits iter"
  shows "(if instance_changed base trunk k then instance_at merged k = instance_at trunk k
     else if instance_changed base proposed k then instance_at merged k = instance_at proposed k
     else map_option instance_bytes (instance_at merged k) = map_option instance_bytes (instance_at base k))
   \<and> indexable merged \<and> st_serial merged = st_serial trunk + 1 \<and> st_lineage merged = st_lineage trunk"
proof -
  note i = merge_states_InrD(1-3)[OF m] and disj = merge_states_InrD(4)[OF m]
  have t: "instance_changed base trunk k \<Longrightarrow> instance_address_from_key k \<notin> writes base proposed"
    using writes_iff[OF i(1,2)] disj by blast
  have p: "instance_changed base proposed k \<Longrightarrow> instance_address_from_key k \<in> writes base proposed"
    using writes_iff[OF i(1,3)] by blast
  show ?thesis
    using t p merged_instance_at[OF m v] merge_states_InrD(6,7)[OF m]
    by (auto simp: instance_changed_def)
qed

text \<open>C3: A successful merge loses no write. Every instance that others changed since the base is in
  the result as they committed it, every instance the proposal changed is there as proposed, and every
  other instance is the trunk's; the result can be indexed again (no duplicate instance), has the
  trunk's lineage and a serial one above the trunk's.\<close>

theorem merge_states_keeps_all_writes:
  assumes m: "merge_states iter base trunk proposed = Inr merged" and v: "visits iter"
  shows "(if instance_changed base trunk k then instance_at merged k = instance_at trunk k
     else if instance_changed base proposed k then instance_at merged k = instance_at proposed k
     else map_option instance_bytes (instance_at merged k) = map_option instance_bytes (instance_at base k))
   \<and> indexable merged \<and> st_serial merged = st_serial trunk + 1 \<and> st_lineage merged = st_lineage trunk"
  using m v by (rule merged_keeps)

definition ex_res :: "string \<Rightarrow> int \<Rightarrow> tf_resource" where
  "ex_res n v = zero_resource\<lparr>r_mode := ''managed'', r_type := ''t'', r_name := n,
     r_instances := [zero_instance\<lparr>i_attributes := Some (JNum v)\<rparr>]\<rparr>"

definition ex_base :: tf_state where
  "ex_base = (empty_state ''l'')\<lparr>st_serial := 4, st_resources := [ex_res ''a'' 1, ex_res ''b'' 1]\<rparr>"

definition ex_trunk :: tf_state where
  "ex_trunk = (empty_state ''l'')\<lparr>st_serial := 7, st_resources := [ex_res ''a'' 1, ex_res ''b'' 2]\<rparr>"

definition ex_proposed :: tf_state where
  "ex_proposed = (empty_state ''l'')\<lparr>st_serial := 5, st_resources := [ex_res ''a'' 3, ex_res ''b'' 1]\<rparr>"

definition ex_merged :: tf_state where
  "ex_merged = (empty_state ''l'')\<lparr>st_serial := 8, st_resources := [ex_res ''a'' 3, ex_res ''b'' 2]\<rparr>"

lemma ex_merge: "merge_states id ex_base ex_trunk ex_proposed = Inr ex_merged"
  by code_simp

definition ex_key :: "string \<Rightarrow> instance_key" where
  "ex_key n = \<lparr>k_mode = ''managed'', k_type = ''t'', k_name = n, k_module = [], k_index = []\<rparr>"

theorem merge_states_keeps_all_writes_witness:
  "instance_at ex_merged (ex_key ''b'') = instance_at ex_trunk (ex_key ''b'') \<and> indexable ex_merged"
proof -
  have "instance_changed ex_base ex_trunk (ex_key ''b'')" by code_simp
  then show ?thesis
    using merge_states_keeps_all_writes[OF ex_merge, of "ex_key ''b''"] by (simp add: visits_def)
qed

text \<open>C26: A merge is refused exactly when both sides wrote a common address: on indexable states of one
  lineage the merge fails if and only if some resource address or output is in both write sets, the
  error then lists those addresses in order with the trunk's serial.\<close>

theorem merge_states_conflict:
  assumes "indexable base" and "indexable trunk" and "indexable proposed"
    and "st_lineage proposed = st_lineage trunk"
  shows "if writes base proposed \<inter> writes base trunk = {} \<and>
       output_writes base proposed \<inter> output_writes base trunk = {}
    then \<exists>merged. merge_states iter base trunk proposed = Inr merged
    else \<exists>addrs. merge_states iter base trunk proposed = Inl (WriteSetConflict addrs (st_serial trunk)) \<and>
       sorted addrs \<and> set addrs = (writes base proposed \<inter> writes base trunk) \<union>
         (output_writes base proposed \<inter> output_writes base trunk)"
proof -
  let ?w = "writes base proposed \<inter> writes base trunk"
  let ?o = "output_writes base proposed \<inter> output_writes base trunk"
  let ?c = "sort (sorted_keys ?w @ sorted_keys ?o)"
  have set: "set ?c = ?w \<union> ?o" by simp
  then have "?c = [] \<longleftrightarrow> ?w = {} \<and> ?o = {}" by (metis Un_empty set_empty)
  then show ?thesis
    using merge_states_cases[OF assms(1-3), of iter] assms(4) set sorted_sort[of "sorted_keys ?w @ sorted_keys ?o"]
    by (auto simp del: set_sort simp: Let_def)
qed

theorem merge_states_conflict_witness:
  "\<exists>addrs. merge_states id ex_base (ex_trunk\<lparr>st_resources := [ex_res ''a'' 9, ex_res ''b'' 2]\<rparr>) ex_proposed
     = Inl (WriteSetConflict addrs 7)"
proof -
  let ?t = "ex_trunk\<lparr>st_resources := [ex_res ''a'' 9, ex_res ''b'' 2]\<rparr>"
  have i: "indexable ex_base" "indexable ?t" "indexable ex_proposed"
    by (simp_all add: indexable_def state_instances_def ex_base_def ex_trunk_def ex_proposed_def
        empty_state_def ex_res_def zero_resource_def zero_instance_def canonical_index_def decode_index_def
        key_of_def)
  have "''t.a'' \<in> writes ex_base ex_proposed" "''t.a'' \<in> writes ex_base ?t" by code_simp+
  then have "\<not> (writes ex_base ex_proposed \<inter> writes ex_base ?t = {} \<and>
      output_writes ex_base ex_proposed \<inter> output_writes ex_base ?t = {})" by blast
  moreover have "st_lineage ex_proposed = st_lineage ?t" "st_serial ?t = 7"
    by (simp_all add: ex_proposed_def ex_trunk_def empty_state_def)
  ultimately show ?thesis using merge_states_conflict[OF i, of id] by (metis (no_types, lifting))
qed

lemma output_write_set_refl: "distinct (map fst m) \<Longrightarrow> output_write_set m m = {}"
  by (auto simp: output_write_set_def map_of_eq_None_iff image_iff split: option.splits) force+

text \<open>When nobody committed since the base, the merge is the proposal: it succeeds on states of one
  lineage, every instance of the result equals the proposed one up to the JSON normal form, and only the
  serial, the lineage and the scalars come from the trunk.\<close>

theorem merge_states_uncontended:
  assumes "indexable base" and "indexable proposed" and "st_lineage proposed = st_lineage base"
    and "distinct (map fst (st_outputs base))" and "visits iter"
  shows "\<exists>merged. merge_states iter base base proposed = Inr merged \<and> st_serial merged = st_serial base + 1 \<and>
    (\<forall>k. map_option instance_bytes (instance_at merged k) = map_option instance_bytes (instance_at proposed k))"
proof -
  have "writes base base = {}" using writes_iff[OF assms(1,1)] by (auto simp: instance_changed_def)
  moreover have "output_writes base base = {}"
    using output_write_set_refl[OF assms(4)] by (simp add: output_writes_def)
  ultimately obtain merged where m: "merge_states iter base base proposed = Inr merged"
    using merge_states_cases[OF assms(1,1,2), of iter] assms(3) by (auto simp: Let_def)
  then show ?thesis
    using merged_instance_at(1)[OF m assms(5)] merge_states_InrD(6)[OF m] writes_iff[OF assms(1,2)]
    by (auto simp: instance_changed_def)
qed

theorem merge_states_uncontended_witness:
  "\<exists>merged. merge_states id ex_base ex_base ex_proposed = Inr merged \<and> st_serial merged = 4 + 1 \<and>
    (\<forall>k. map_option instance_bytes (instance_at merged k) = map_option instance_bytes (instance_at ex_proposed k))"
proof -
  have i: "indexable ex_base" "indexable ex_proposed"
    by (simp_all add: indexable_def state_instances_def ex_base_def ex_proposed_def
        empty_state_def ex_res_def zero_resource_def zero_instance_def canonical_index_def decode_index_def
        key_of_def)
  have "st_lineage ex_proposed = st_lineage ex_base" "distinct (map fst (st_outputs ex_base))" "visits id"
    "st_serial ex_base = 4"
    by (simp_all add: ex_base_def ex_proposed_def empty_state_def visits_def)
  then show ?thesis using merge_states_uncontended[OF i] by metis
qed

text \<open>
  The instance with the empty string as its \<^verbatim>\<open>for_each\<close> key and the instance without an index have one
  address, so a change of either counts as a write of both.
\<close>

lemma empty_key_address_collision:
  "canonical_index (inst\<lparr>i_index_key := Some (JStr [])\<rparr>) = Inr ''s:'' \<and>
   instance_address_from_key (k\<lparr>k_index := ''s:''\<rparr>) = instance_address_from_key (k\<lparr>k_index := []\<rparr>)"
  by (simp add: canonical_index_def decode_index_def json_int_literal_def instance_address_from_key_def)

text \<open>A quote in a key is not escaped in the merge's addresses, unlike in \<^verbatim>\<open>InstanceAddress\<close>.\<close>

lemma quoted_key_addresses_differ:
  "instance_address_from_key \<lparr>k_mode = ''managed'', k_type = ''t'', k_name = ''n'', k_module = [],
      k_index = ''s:'' @ [dquote]\<rparr> \<noteq> projr (instance_address (zero_resource\<lparr>r_mode := ''managed'',
      r_type := ''t'', r_name := ''n''\<rparr>) (zero_instance\<lparr>i_index_key := Some (JStr [dquote])\<rparr>))"
  by code_simp

end
