(* ===== verification/ApplyMerge.thy ===== *)
theory ApplyMerge
  imports Address
begin

text \<open>
  The row-level commit of an apply: state slices (\<^verbatim>\<open>internal/slice/slice.go\<close>), the merge of the
  post-apply slice into the trunk (\<^verbatim>\<open>internal/apply/merge.go\<close>) and the staleness check of the read set
  (\<^verbatim>\<open>internal/apply/staleness.go\<close>).

  A Go map filled from a list is the partial map \<^const>\<open>index_by\<close>; the loops over Go maps run over a list
  of the keys in an order the lemmas do not depend on. Pointers are values, so the nil checks on the
  arguments have no counterpart.
\<close>

section \<open>Trunk states and slices\<close>

record trunk_resource =
  tr_module :: string
  tr_mode :: string
  tr_type :: string
  tr_name :: string
  tr_provider :: string
  tr_each :: string
  tr_instances :: raw

record trunk_state =
  ts_version :: int
  ts_terraform_version :: string
  ts_serial :: int
  ts_lineage :: string
  ts_outputs :: raw
  ts_check_results :: raw
  ts_resources :: "trunk_resource list"

definition tr_address :: "trunk_resource \<Rightarrow> string" where
  "tr_address r =
     (let addr = tr_type r @ ''.'' @ tr_name r;
          addr = (if tr_mode r = ''data'' then ''data.'' @ addr else addr)
      in if tr_module r \<noteq> [] then tr_module r @ ''.'' @ addr else addr)"

definition build_slice :: "trunk_state \<Rightarrow> string set \<Rightarrow> trunk_state" where
  "build_slice trunk footprint =
     trunk\<lparr>ts_resources := filter (\<lambda>r. tr_address r \<in> footprint) (ts_resources trunk)\<rparr>"

definition strip_index :: "string \<Rightarrow> string" where
  "strip_index addr =
     (if addr = [] then addr
      else if last addr \<noteq> CHR '']'' then addr
      else (case last_index (CHR ''['') addr of Some i \<Rightarrow> take i addr | None \<Rightarrow> addr))"

definition index_footprint_by_group :: "string list \<Rightarrow> string set" where
  "index_footprint_by_group addresses = set (map strip_index addresses)"

section \<open>Merging the post-apply state into the trunk\<close>

record merge_result =
  mr_merged :: trunk_state
  mr_new_serial :: int
  mr_applied :: "string list"

text \<open>The error names the first post-apply resource outside the footprint.\<close>

datatype commit_error = SurpriseResource string

definition index_resources :: "trunk_resource list \<Rightarrow> (string \<rightharpoonup> trunk_resource)" where
  "index_resources rs = index_by tr_address rs"

definition merge_step ::
    "(string \<rightharpoonup> trunk_resource) \<Rightarrow> (string \<rightharpoonup> trunk_resource) \<Rightarrow>
     (string \<rightharpoonup> trunk_resource) \<times> string list \<Rightarrow> string \<Rightarrow> (string \<rightharpoonup> trunk_resource) \<times> string list" where
  "merge_step trunk_by post_by wa addr =
     (case wa of (working, applied) \<Rightarrow>
       (case post_by addr of
          Some row \<Rightarrow> (working(addr \<mapsto> row), applied @ [addr])
        | None \<Rightarrow> if trunk_by addr \<noteq> None then (working(addr := None), applied @ [addr])
                  else (working, applied)))"

definition build_merged_state ::
    "trunk_state \<Rightarrow> trunk_state \<Rightarrow> string list \<Rightarrow> string set \<Rightarrow> (commit_error, merge_result) result" where
  "build_merged_state trunk post write_set footprint =
     (case find (\<lambda>r. tr_address r \<notin> footprint) (ts_resources post) of
        Some r \<Rightarrow> Inl (SurpriseResource (tr_address r))
      | None \<Rightarrow>
         (let post_by = index_resources (ts_resources post);
              trunk_by = index_resources (ts_resources trunk);
              groups = remdups (map strip_index write_set);
              (working, applied) = foldl (merge_step trunk_by post_by) (trunk_by, []) groups;
              addrs = sort (remdups (filter (\<lambda>a. working a \<noteq> None)
                (map tr_address (ts_resources trunk) @ groups)));
              lineage = (if ts_lineage trunk = [] then ts_lineage post else ts_lineage trunk);
              tfv = (if ts_terraform_version trunk = [] \<or> ts_terraform_version trunk = ''0.0.0''
                     then ts_terraform_version post else ts_terraform_version trunk)
          in Inr \<lparr>mr_merged = \<lparr>ts_version = ts_version trunk, ts_terraform_version = tfv,
                    ts_serial = ts_serial trunk + 1, ts_lineage = lineage,
                    ts_outputs = ts_outputs post, ts_check_results = ts_check_results post,
                    ts_resources = map (\<lambda>a. the (working a)) addrs\<rparr>,
                  mr_new_serial = ts_serial trunk + 1,
                  mr_applied = sort applied\<rparr>))"

definition post_apply_surprises :: "trunk_state \<Rightarrow> string set \<Rightarrow> string list" where
  "post_apply_surprises post footprint =
     sort (filter (\<lambda>a. a \<notin> footprint) (map tr_address (ts_resources post)))"

text \<open>\<^verbatim>\<open>jsonRawEqual\<close>: an empty message next to a non-empty one does not decode.\<close>

definition json_raw_equal :: "raw \<Rightarrow> raw \<Rightarrow> (unit, bool) result" where
  "json_raw_equal a b =
     (case (a, b) of
        (None, None) \<Rightarrow> Inr True
      | (Some av, Some bv) \<Rightarrow> Inr (canon av = canon bv)
      | _ \<Rightarrow> Inl ())"

section \<open>Staleness of the read set\<close>

datatype staleness_error = BadBaseState | BadCurrentState

definition row_changed :: "trunk_resource option \<Rightarrow> trunk_resource option \<Rightarrow> bool" where
  "row_changed b c =
     (case (b, c) of
        (None, None) \<Rightarrow> False
      | (Some br, Some cr) \<Rightarrow>
          tr_module br \<noteq> tr_module cr \<or> tr_mode br \<noteq> tr_mode cr \<or> tr_type br \<noteq> tr_type cr \<or>
          tr_name br \<noteq> tr_name cr \<or> tr_provider br \<noteq> tr_provider cr \<or> tr_each br \<noteq> tr_each cr \<or>
          json_raw_equal (tr_instances br) (tr_instances cr) \<noteq> Inr True
      | _ \<Rightarrow> True)"

text \<open>A state document that does not decode is \<open>None\<close>.\<close>

definition changed_read_set_addresses ::
    "trunk_state option \<Rightarrow> trunk_state option \<Rightarrow> string list \<Rightarrow> (staleness_error, string list) result" where
  "changed_read_set_addresses base_raw current_raw read_set =
     (if read_set = [] then Inr []
      else (case base_raw of None \<Rightarrow> Inl BadBaseState | Some base \<Rightarrow>
        (case current_raw of None \<Rightarrow> Inl BadCurrentState | Some cur \<Rightarrow>
          (let base_by = index_resources (ts_resources base);
               cur_by = index_resources (ts_resources cur)
           in Inr (sort (filter (\<lambda>a. row_changed (base_by a) (cur_by a))
                (remdups (map strip_index read_set))))))))"

section \<open>Stripping the index of a rendered address\<close>

lemma strip_index_bracket:
  "CHR ''['' \<notin> set k \<Longrightarrow> strip_index (base @ ''['' @ k @ '']'') = base"
  using last_index_append_Cons[of "CHR ''[''" "k @ '']''" base]
  by (simp add: strip_index_def)

lemma strip_index_no_bracket: "a = [] \<or> last a \<noteq> CHR '']'' \<Longrightarrow> strip_index a = a"
  by (auto simp: strip_index_def)

definition row_of_group :: "tf_resource \<Rightarrow> trunk_resource \<Rightarrow> bool" where
  "row_of_group r row \<longleftrightarrow> tr_module row = r_module r \<and> tr_mode row = r_mode r \<and>
     tr_type row = r_type r \<and> tr_name row = r_name r"

lemma tr_address_group_base: "row_of_group r row \<Longrightarrow> tr_address row = group_base r"
  by (auto simp: row_of_group_def tr_address_def group_base_def Let_def)

text \<open>The group of an instance address is the state row that holds the instance: stripping the index
  of a rendered address gives the address of the resource row with the same module, mode, type and
  name, for every group and index that the address round trip covers.\<close>

theorem strip_index_instance_address:
  assumes "group_ok ms r" and "index_ok (i_index_key inst)" and "row_of_group r row"
    and "instance_address r inst = Inr a"
  shows "strip_index a = tr_address row"
proof -
  have base: "strip_index (group_base r) = group_base r"
    using last_group_base[OF assms(1)] by (intro strip_index_no_bracket) simp
  show ?thesis
    using assms(2,4) base strip_index_bracket[OF show_int_not_bracket] strip_index_bracket[OF quote_not_bracket[OF is_bracket_simps(1)]]
    by (auto simp: tr_address_group_base[OF assms(3)] instance_address_base decode_index_def index_ok_def
        split: option.splits json.splits if_splits)
qed

definition ex_row :: "string \<Rightarrow> int \<Rightarrow> trunk_resource" where
  "ex_row n v = \<lparr>tr_module = [], tr_mode = ''managed'', tr_type = ''t'', tr_name = n, tr_provider = ''p'',
     tr_each = [], tr_instances = Some (JArr [JNum v])\<rparr>"

definition ex_state :: "int \<Rightarrow> trunk_resource list \<Rightarrow> trunk_state" where
  "ex_state serial rs = \<lparr>ts_version = 4, ts_terraform_version = ''1.9'', ts_serial = serial, ts_lineage = ''l'',
     ts_outputs = None, ts_check_results = None, ts_resources = rs\<rparr>"

definition ex_managed :: "string \<Rightarrow> tf_resource" where
  "ex_managed n = zero_resource\<lparr>r_mode := ''managed'', r_type := ''t'', r_name := n\<rparr>"

theorem strip_index_instance_address_witness:
  "strip_index ''t.a[7]'' = tr_address (ex_row ''a'' 1)"
proof (rule strip_index_instance_address)
  show "group_ok [] (ex_managed ''a'')"
    by (simp add: group_ok_def ex_managed_def zero_resource_def module_path_def plain_name_def is_space_def)
  show "index_ok (i_index_key (zero_instance\<lparr>i_index_key := Some (JNum 7)\<rparr>))"
    by (simp add: index_ok_def int64_range_def)
  show "row_of_group (ex_managed ''a'') (ex_row ''a'' 1)"
    by (simp add: row_of_group_def ex_managed_def ex_row_def zero_resource_def)
  show "instance_address (ex_managed ''a'') (zero_instance\<lparr>i_index_key := Some (JNum 7)\<rparr>) = Inr ''t.a[7]''"
    by code_simp
qed

section \<open>What a commit changes\<close>

lemma index_resources_SomeD: "index_resources rs a = Some r \<Longrightarrow> r \<in> set rs \<and> tr_address r = a"
  by (auto simp: index_resources_def dest: index_by_SomeD)

lemma index_resources_None: "index_resources rs a = None \<longleftrightarrow> a \<notin> tr_address ` set rs"
  by (simp add: index_resources_def index_by_None)

lemma foldl_merge_step:
  "foldl (merge_step t p) (w, ap) gs =
     (\<lambda>a. if a \<in> set gs \<and> (p a \<noteq> None \<or> t a \<noteq> None) then p a else w a,
      ap @ filter (\<lambda>a. p a \<noteq> None \<or> t a \<noteq> None) gs)"
proof (induction gs arbitrary: w ap)
  case (Cons g gs)
  then show ?case by (auto simp: merge_step_def fun_eq_iff split: option.splits)
qed simp

lemma foldl_merge_trunk:
  "foldl (merge_step t p) (t, []) gs =
     (\<lambda>a. if a \<in> set gs then p a else t a, filter (\<lambda>a. p a \<noteq> None \<or> t a \<noteq> None) gs)"
  by (auto simp: foldl_merge_step fun_eq_iff)

lemma build_merged_state_Inr:
  assumes "build_merged_state trunk post ws fp = Inr m"
  defines "t \<equiv> index_resources (ts_resources trunk)" and "p \<equiv> index_resources (ts_resources post)"
    and "gs \<equiv> remdups (map strip_index ws)"
  defines "w \<equiv> \<lambda>a. if a \<in> set gs then p a else t a"
  shows "\<forall>r \<in> set (ts_resources post). tr_address r \<in> fp"
    and "ts_resources (mr_merged m) = map (\<lambda>a. the (w a)) (sort (remdups (filter (\<lambda>a. w a \<noteq> None)
           (map tr_address (ts_resources trunk) @ gs))))"
    and "mr_applied m = sort (filter (\<lambda>a. p a \<noteq> None \<or> t a \<noteq> None) gs)"
    and "ts_serial (mr_merged m) = ts_serial trunk + 1" and "mr_new_serial m = ts_serial trunk + 1"
    and "ts_outputs (mr_merged m) = ts_outputs post"
proof -
  have f: "find (\<lambda>r. tr_address r \<notin> fp) (ts_resources post) = None"
    using assms(1) by (cases "find (\<lambda>r. tr_address r \<notin> fp) (ts_resources post)")
      (simp_all add: build_merged_state_def)
  then show "\<forall>r \<in> set (ts_resources post). tr_address r \<in> fp" by (simp add: find_None_iff)
  note m = assms(1)[unfolded build_merged_state_def f option.case Let_def foldl_merge_trunk prod.case
      sum.inject, symmetric]
  show "ts_resources (mr_merged m) = map (\<lambda>a. the (w a)) (sort (remdups (filter (\<lambda>a. w a \<noteq> None)
           (map tr_address (ts_resources trunk) @ gs))))"
    "mr_applied m = sort (filter (\<lambda>a. p a \<noteq> None \<or> t a \<noteq> None) gs)"
    "ts_serial (mr_merged m) = ts_serial trunk + 1" "mr_new_serial m = ts_serial trunk + 1"
    "ts_outputs (mr_merged m) = ts_outputs post"
    by (simp_all only: m merge_result.simps trunk_state.simps w_def p_def t_def gs_def)
qed

lemma build_merged_state_total:
  "\<forall>r \<in> set (ts_resources post). tr_address r \<in> fp \<Longrightarrow> \<exists>m. build_merged_state trunk post ws fp = Inr m"
proof -
  assume "\<forall>r \<in> set (ts_resources post). tr_address r \<in> fp"
  then have "find (\<lambda>r. tr_address r \<notin> fp) (ts_resources post) = None" by (simp add: find_None_iff)
  then show ?thesis by (simp add: build_merged_state_def foldl_merge_trunk Let_def)
qed

lemma rebuild_rows:
  assumes w: "\<And>a r. w a = Some r \<Longrightarrow> tr_address r = a" and dom: "\<And>a. w a \<noteq> None \<Longrightarrow> a \<in> set as"
  defines "rs \<equiv> map (\<lambda>a. the (w a)) (sort (remdups (filter (\<lambda>a. w a \<noteq> None) as)))"
  shows "map tr_address rs = sort (remdups (filter (\<lambda>a. w a \<noteq> None) as))" and "index_resources rs = w"
proof -
  let ?as = "sort (remdups (filter (\<lambda>a. w a \<noteq> None) as))"
  have "tr_address (the (w a)) = a" if "a \<in> set ?as" for a using that w by auto
  then show m: "map tr_address rs = ?as"
    unfolding rs_def map_map comp_def by (rule map_idI)
  show "index_resources rs = w"
  proof (rule ext)
    fix a
    show "index_resources rs a = w a"
    proof (cases "w a")
      case None
      then have "a \<notin> tr_address ` set rs" using m by (metis (mono_tags, lifting) list.set_map mem_Collect_eq set_filter set_remdups set_sort)
      then show ?thesis using None by (simp add: index_resources_None)
    next
      case (Some r)
      then have "a \<in> set ?as" using dom by auto
      then have "r \<in> set rs" using Some unfolding rs_def by force
      moreover have "distinct (map tr_address rs)" by (simp add: m)
      ultimately show ?thesis using Some w[OF Some] by (simp add: index_resources_def index_by_distinct)
    qed
  qed
qed

lemma merged_rows:
  assumes "build_merged_state trunk post ws fp = Inr m"
  shows "index_resources (ts_resources (mr_merged m)) a =
      (if a \<in> index_footprint_by_group ws then index_resources (ts_resources post) a
       else index_resources (ts_resources trunk) a)
    \<and> sorted (map tr_address (ts_resources (mr_merged m)))
    \<and> distinct (map tr_address (ts_resources (mr_merged m)))
    \<and> ts_serial (mr_merged m) = ts_serial trunk + 1 \<and> mr_new_serial m = ts_serial (mr_merged m)
    \<and> tr_address ` set (ts_resources post) \<subseteq> fp"
proof -
  let ?t = "index_resources (ts_resources trunk)" and ?p = "index_resources (ts_resources post)"
  let ?gs = "remdups (map strip_index ws)"
  let ?w = "\<lambda>a. if a \<in> set ?gs then ?p a else ?t a"
  note b = build_merged_state_Inr[OF assms]
  have dom: "?w a \<noteq> None \<Longrightarrow> a \<in> set (map tr_address (ts_resources trunk) @ ?gs)" for a
    by (auto dest!: index_resources_SomeD split: if_splits)
  have key: "?w a = Some r \<Longrightarrow> tr_address r = a" for a r
    by (auto dest: index_resources_SomeD split: if_splits)
  have r1: "map tr_address (ts_resources (mr_merged m))
      = sort (remdups (filter (\<lambda>a. ?w a \<noteq> None) (map tr_address (ts_resources trunk) @ ?gs)))"
    unfolding b(2) by (rule rebuild_rows(1)[of ?w, OF key dom])
  have r2: "index_resources (ts_resources (mr_merged m)) = ?w"
    unfolding b(2) by (rule rebuild_rows(2)[of ?w, OF key dom])
  show ?thesis
    unfolding r1 r2 using b(1,4,5) by (auto simp: index_footprint_by_group_def simp del: set_map)
qed

text \<open>C10: The row-level commit. A commit replaces exactly the rows of the write set's groups by the
  post-apply rows (a row missing there is deleted); every other row is the trunk's own row, unchanged. The
  rows come out in address order without repetition, the new serial is one above the trunk's, and no row
  outside the footprint was accepted.\<close>

theorem build_merged_state_rows:
  assumes "build_merged_state trunk post ws fp = Inr m"
  shows "index_resources (ts_resources (mr_merged m)) a =
      (if a \<in> index_footprint_by_group ws then index_resources (ts_resources post) a
       else index_resources (ts_resources trunk) a)
    \<and> sorted (map tr_address (ts_resources (mr_merged m)))
    \<and> distinct (map tr_address (ts_resources (mr_merged m)))
    \<and> ts_serial (mr_merged m) = ts_serial trunk + 1 \<and> mr_new_serial m = ts_serial (mr_merged m)
    \<and> tr_address ` set (ts_resources post) \<subseteq> fp"
  by (rule merged_rows[OF assms])

theorem build_merged_state_rows_witness:
  "index_resources (ts_resources (mr_merged (projr (build_merged_state
       (ex_state 7 [ex_row ''a'' 1, ex_row ''b'' 2]) (ex_state 8 [ex_row ''a'' 5, ex_row ''b'' 9])
       [''t.a''] {''t.a'', ''t.b''})))) ''t.b'' = Some (ex_row ''b'' 2)"
proof -
  obtain m where m: "build_merged_state (ex_state 7 [ex_row ''a'' 1, ex_row ''b'' 2])
      (ex_state 8 [ex_row ''a'' 5, ex_row ''b'' 9]) [''t.a''] {''t.a'', ''t.b''} = Inr m"
    using build_merged_state_total[of "ex_state 8 [ex_row ''a'' 5, ex_row ''b'' 9]" "{''t.a'', ''t.b''}"]
    by (auto simp: ex_state_def ex_row_def tr_address_def)
  then show ?thesis using build_merged_state_rows[OF m, of "''t.b''"]
    by (auto simp: index_footprint_by_group_def strip_index_def ex_state_def ex_row_def
        index_resources_def index_by_def tr_address_def)
qed

text \<open>The audit list of a commit: the applied addresses are exactly the groups of the write set that the
  trunk or the post-apply state has a row for, in order and without repetition.\<close>

theorem build_merged_state_applied:
  assumes "build_merged_state trunk post ws fp = Inr m"
  shows "sorted (mr_applied m) \<and> distinct (mr_applied m) \<and>
    set (mr_applied m) = index_footprint_by_group ws \<inter>
      tr_address ` (set (ts_resources post) \<union> set (ts_resources trunk))"
proof -
  have "set (filter (\<lambda>a. index_resources (ts_resources post) a \<noteq> None \<or> index_resources (ts_resources trunk) a \<noteq> None)
      (remdups (map strip_index ws)))
    = index_footprint_by_group ws \<inter> tr_address ` (set (ts_resources post) \<union> set (ts_resources trunk))"
    unfolding index_resources_None index_footprint_by_group_def set_filter set_remdups image_Un by blast
  then show ?thesis by (simp only: build_merged_state_Inr(3)[OF assms] set_sort sorted_sort distinct_sort)
    (simp add: distinct_filter)
qed

theorem build_merged_state_applied_witness:
  "set (mr_applied (projr (build_merged_state (ex_state 7 [ex_row ''a'' 1, ex_row ''b'' 2])
      (ex_state 8 [ex_row ''a'' 5]) [''t.a'', ''t.c''] {''t.a''}))) = {''t.a''}"
proof -
  obtain m where m: "build_merged_state (ex_state 7 [ex_row ''a'' 1, ex_row ''b'' 2])
      (ex_state 8 [ex_row ''a'' 5]) [''t.a'', ''t.c''] {''t.a''} = Inr m"
    using build_merged_state_total[of "ex_state 8 [ex_row ''a'' 5]" "{''t.a''}"]
    by (auto simp: ex_state_def ex_row_def tr_address_def)
  then show ?thesis using build_merged_state_applied[OF m]
    by (simp add: index_footprint_by_group_def strip_index_def ex_state_def ex_row_def tr_address_def)
qed

text \<open>The other branch: a surprise resource refuses the commit.\<close>

lemma build_merged_state_surprise:
  "(\<exists>e. build_merged_state trunk post ws fp = Inl e) \<longleftrightarrow> post_apply_surprises post fp \<noteq> []"
proof -
  have "post_apply_surprises post fp = [] \<longleftrightarrow> (\<forall>r \<in> set (ts_resources post). tr_address r \<in> fp)"
    unfolding set_empty[symmetric] post_apply_surprises_def set_sort by auto
  then show ?thesis
    using build_merged_state_total[of post fp trunk ws] build_merged_state_Inr(1)[of trunk post ws fp]
    by (cases "build_merged_state trunk post ws fp") auto
qed

text \<open>
  The unit of a commit is the resource row, not the instance: a write set with one instance of a row
  takes every instance of that row from the post-apply state.
\<close>

lemma commit_replaces_siblings:
  assumes "build_merged_state trunk post [''t.a[0]''] fp = Inr m"
  shows "index_resources (ts_resources (mr_merged m)) ''t.a'' = index_resources (ts_resources post) ''t.a''"
proof -
  have "index_footprint_by_group [''t.a[0]''] = {''t.a''}"
    by (simp add: index_footprint_by_group_def strip_index_def)
  moreover have "index_resources (ts_resources (mr_merged m)) =
    (\<lambda>a. if a \<in> set (remdups (map strip_index [''t.a[0]''])) then index_resources (ts_resources post) a
       else index_resources (ts_resources trunk) a)"
    unfolding build_merged_state_Inr(2)[OF assms]
    by (rule rebuild_rows(2)) (auto dest!: index_resources_SomeD split: if_splits)
  ultimately show ?thesis by (simp add: index_footprint_by_group_def)
qed

section \<open>Slices and staleness\<close>

lemma index_build_slice:
  "index_resources (ts_resources (build_slice trunk fp)) a =
     (if a \<in> fp then index_resources (ts_resources trunk) a else None)"
proof -
  have "map (\<lambda>r. (tr_address r, r)) (filter (\<lambda>r. tr_address r \<in> fp) rs)
      = filter (\<lambda>(a, r). a \<in> fp) (map (\<lambda>r. (tr_address r, r)) rs)" for rs
    by (induction rs) auto
  moreover have "map_of (filter (\<lambda>(a, r). a \<in> fp) m) a = (if a \<in> fp then map_of m a else None)"
    for m :: "(string \<times> trunk_resource) list"
    by (induction m) auto
  ultimately show ?thesis
    by (simp add: build_slice_def index_resources_def index_by_map_of rev_filter del: rev_map)
qed

definition norm_row :: "trunk_resource \<Rightarrow> trunk_resource" where
  "norm_row r = r\<lparr>tr_instances := canon_raw (tr_instances r)\<rparr>"

lemma row_changed_norm: "row_changed b c \<longleftrightarrow> map_option norm_row b \<noteq> map_option norm_row c"
proof (cases "b = None \<or> c = None")
  case True
  then show ?thesis by (cases b; cases c) (auto simp: row_changed_def)
next
  case False
  then obtain br cr where "b = Some br" "c = Some cr" by auto
  then show ?thesis
    by (cases br; cases cr)
      (auto simp: row_changed_def norm_row_def json_raw_equal_def canon_raw_def split: option.splits)
qed

text \<open>The staleness check is exact: on states that decode, the reported addresses are the groups of
  the read set whose rows differ between the base and the current state after JSON normalisation, in order
  and without repetition; an unreported read row is the one the plan saw.\<close>

theorem changed_read_set_exact:
  assumes "read_set \<noteq> []"
  shows "\<exists>cs. changed_read_set_addresses (Some base) (Some cur) read_set = Inr cs \<and> sorted cs \<and> distinct cs \<and>
    set cs = {a \<in> index_footprint_by_group read_set.
      map_option norm_row (index_resources (ts_resources base) a)
        \<noteq> map_option norm_row (index_resources (ts_resources cur) a)}"
  using assms
  by (simp add: changed_read_set_addresses_def row_changed_norm index_footprint_by_group_def)

theorem changed_read_set_exact_witness:
  "\<exists>cs. changed_read_set_addresses (Some (ex_state 7 [ex_row ''a'' 1])) (Some (ex_state 8 [ex_row ''a'' 2]))
       [''t.a'', ''t.b''] = Inr cs \<and> ''t.a'' \<in> set cs"
proof -
  obtain cs where cs: "changed_read_set_addresses (Some (ex_state 7 [ex_row ''a'' 1]))
      (Some (ex_state 8 [ex_row ''a'' 2])) [''t.a'', ''t.b''] = Inr cs"
    "set cs = {a \<in> index_footprint_by_group [''t.a'', ''t.b''].
      map_option norm_row (index_resources (ts_resources (ex_state 7 [ex_row ''a'' 1])) a)
        \<noteq> map_option norm_row (index_resources (ts_resources (ex_state 8 [ex_row ''a'' 2])) a)}"
    using changed_read_set_exact[of "[''t.a'', ''t.b'']" "ex_state 7 [ex_row ''a'' 1]" "ex_state 8 [ex_row ''a'' 2]"]
    by auto
  moreover have "map_option norm_row (index_resources (ts_resources (ex_state 7 [ex_row ''a'' 1])) ''t.a'')
      \<noteq> map_option norm_row (index_resources (ts_resources (ex_state 8 [ex_row ''a'' 2])) ''t.a'')"
    by code_simp
  ultimately have "''t.a'' \<in> set cs" by (simp add: index_footprint_by_group_def strip_index_def)
  with cs(1) show ?thesis by blast
qed

end
