(* ===== verification/PlanGraph.thy ===== *)
theory PlanGraph
  imports Address "HOL-Library.Product_Lexorder"
begin

text \<open>
  From a Terraform plan to a plan spec (\<^verbatim>\<open>internal/plan\<close>: plan.go, writeset.go, footprint.go,
  depgraph.go, spec.go, target_scope.go): the action of a change, the write set, the HCL footprint,
  the static dependency graph and its closure, the reservations an apply will ask for.

  A dependency graph is the list of its edges: its order stands for the order in which Go visits the
  two levels of the map, and the results are shown not to depend on it. Object keys of an expression
  are distinct.
\<close>

section \<open>The plan file\<close>

datatype action =
    ActionNoop | ActionCreate | ActionUpdate | ActionDelete | ActionReplace | ActionRead
  | ActionForget | ActionUnknown

record resource_change =
  rc_address :: string
  rc_mode :: string
  rc_type :: string
  rc_name :: string
  rc_actions :: "string list"

text \<open>Of a planned resource only the address is read.\<close>

datatype planned_module = PlannedModule "string list" "planned_module list"

text \<open>The range is the \<^verbatim>\<open>filename\<close> of the source location, when the plan has one.\<close>

record config_resource =
  cr_address :: string
  cr_mode :: string
  cr_type :: string
  cr_name :: string
  cr_range :: "string option"
  cr_expressions :: "(string \<times> json) list"

datatype config_module =
  ConfigModule "config_resource list" "(string \<times> string option \<times> config_module) list"

record plan_file =
  pf_format_version :: string
  pf_terraform_version :: string
  pf_resource_changes :: "resource_change list"
  pf_planned_root :: planned_module
  pf_config_root :: config_module
  pf_variables :: "(string \<times> raw) list"

definition validate_plan :: "plan_file \<Rightarrow> bool" where
  "validate_plan f \<longleftrightarrow> pf_format_version f \<noteq> []"

section \<open>Actions and the write set\<close>

definition action_of_text :: "string \<Rightarrow> action" where
  "action_of_text s =
     (if s = ''no-op'' then ActionNoop else if s = ''create'' then ActionCreate
      else if s = ''update'' then ActionUpdate else if s = ''delete'' then ActionDelete
      else if s = ''read'' then ActionRead else if s = ''forget'' then ActionForget
      else ActionUnknown)"

definition classify_change :: "string list \<Rightarrow> action" where
  "classify_change actions = (case actions of
     [a] \<Rightarrow> action_of_text a
   | [a, b] \<Rightarrow>
       if a = ''delete'' \<and> b = ''create'' \<or> a = ''create'' \<and> b = ''delete''
       then ActionReplace else ActionUnknown
   | _ \<Rightarrow> ActionUnknown)"

definition is_write :: "action \<Rightarrow> bool" where
  "is_write a \<longleftrightarrow> a \<in> {ActionCreate, ActionUpdate, ActionDelete, ActionReplace, ActionForget}"

definition extract_write_set :: "plan_file \<Rightarrow> string list" where
  "extract_write_set f =
     sort (map rc_address (filter (\<lambda>rc. is_write (classify_change (rc_actions rc))) (pf_resource_changes f)))"

definition extract_read_action_set :: "plan_file \<Rightarrow> string list" where
  "extract_read_action_set f =
     sort (map rc_address (filter (\<lambda>rc. classify_change (rc_actions rc) = ActionRead) (pf_resource_changes f)))"

record plan_summary =
  ps_create :: nat
  ps_update :: nat
  ps_delete :: nat
  ps_replace :: nat
  ps_read :: nat
  ps_noop :: nat
  ps_forget :: nat
  ps_total :: nat

definition count_action :: "action \<Rightarrow> plan_summary \<Rightarrow> plan_summary" where
  "count_action a s =
     (let s = s\<lparr>ps_total := Suc (ps_total s)\<rparr>
      in (case a of
            ActionCreate \<Rightarrow> s\<lparr>ps_create := Suc (ps_create s)\<rparr>
          | ActionUpdate \<Rightarrow> s\<lparr>ps_update := Suc (ps_update s)\<rparr>
          | ActionDelete \<Rightarrow> s\<lparr>ps_delete := Suc (ps_delete s)\<rparr>
          | ActionReplace \<Rightarrow> s\<lparr>ps_replace := Suc (ps_replace s)\<rparr>
          | ActionRead \<Rightarrow> s\<lparr>ps_read := Suc (ps_read s)\<rparr>
          | ActionNoop \<Rightarrow> s\<lparr>ps_noop := Suc (ps_noop s)\<rparr>
          | ActionForget \<Rightarrow> s\<lparr>ps_forget := Suc (ps_forget s)\<rparr>
          | ActionUnknown \<Rightarrow> s))"

definition summarize_actions :: "resource_change list \<Rightarrow> plan_summary" where
  "summarize_actions changes =
     foldl (\<lambda>s rc. count_action (classify_change (rc_actions rc)) s)
       \<lparr>ps_create = 0, ps_update = 0, ps_delete = 0, ps_replace = 0, ps_read = 0, ps_noop = 0,
        ps_forget = 0, ps_total = 0\<rparr> changes"

section \<open>The HCL footprint\<close>

fun walk_planned_module :: "planned_module \<Rightarrow> string list" where
  "walk_planned_module (PlannedModule resources children) =
     filter (\<lambda>a. a \<noteq> []) resources @ concat (map walk_planned_module children)"

definition extract_hcl_footprint :: "plan_file \<Rightarrow> string list" where
  "extract_hcl_footprint f = sort (remdups (walk_planned_module (pf_planned_root f)))"

section \<open>The dependency graph\<close>

type_synonym edge = "string \<times> string"
type_synonym dep_graph = "edge list"

fun collect_references :: "json \<Rightarrow> string list"
  and collect_field :: "string \<times> json \<Rightarrow> string list" where
  "collect_references (JObj kvs) = concat (map collect_field kvs)"
| "collect_references (JArr xs) = concat (map collect_references xs)"
| "collect_references JNull = []"
| "collect_references (JBool _) = []"
| "collect_references (JNum _) = []"
| "collect_references (JFrac _) = []"
| "collect_references (JStr _) = []"
| "collect_field (k, v) =
     (if k = ''references''
      then (case v of JArr rs \<Rightarrow> concat (map (\<lambda>r. case r of JStr s \<Rightarrow> [s] | _ \<Rightarrow> []) rs) | _ \<Rightarrow> [])
      else collect_references v)"

definition is_resource_ref :: "string \<Rightarrow> bool" where
  "is_resource_ref ref \<longleftrightarrow> ref \<noteq> [] \<and>
     \<not> list_ex (has_prefix ref)
        [''var.'', ''local.'', ''each.'', ''count.'', ''path.'', ''terraform.'', ''self.'']"

text \<open>The length of the \<^verbatim>\<open>module.<name>\<close> prefix, in parts.\<close>

fun module_parts :: "string list \<Rightarrow> nat" where
  "module_parts (p # q # ps) = (if p = ''module'' then 2 + module_parts ps else 0)"
| "module_parts ps = 0"

definition normalize_ref :: "string \<Rightarrow> string" where
  "normalize_ref ref =
     (if ref = [] then []
      else
        (let parts = split_on (CHR ''.'') ref; i = module_parts parts
         in if i \<ge> length parts then ref
            else
              (let want = (if parts ! i = ''data'' then 3 else 2); stop = i + want
               in if stop > length parts then join_with ''.'' parts
                  else join_with ''.'' (take stop parts))))"

definition join_addr :: "string \<Rightarrow> string \<Rightarrow> string" where
  "join_addr pre addr = (if pre = [] then addr else if addr = [] then pre else pre @ ''.'' @ addr)"

definition resource_edges :: "string \<Rightarrow> config_resource \<Rightarrow> dep_graph" where
  "resource_edges pre r =
     (let src = join_addr pre (cr_address r)
      in concat (map (\<lambda>ref.
           if \<not> is_resource_ref ref then []
           else (let tgt = normalize_ref (join_addr pre ref)
                 in if tgt = [] \<or> tgt = src then [] else [(src, tgt)]))
         (collect_references (JObj (cr_expressions r)))))"

fun walk_config_module :: "config_module \<Rightarrow> string \<Rightarrow> dep_graph"
  and walk_module_call :: "string \<times> string option \<times> config_module \<Rightarrow> string \<Rightarrow> dep_graph" where
  "walk_config_module (ConfigModule resources calls) pre =
     concat (map (resource_edges pre) resources) @ concat (map (\<lambda>c. walk_module_call c pre) calls)"
| "walk_module_call (name, rng, m) pre = walk_config_module m (join_addr pre (''module.'' @ name))"

definition build_dep_graph :: "plan_file \<Rightarrow> dep_graph" where
  "build_dep_graph f = walk_config_module (pf_config_root f) []"

definition graph_edges :: "dep_graph \<Rightarrow> edge list" where
  "graph_edges g = sort (remdups g)"

section \<open>The closure of the write set\<close>

definition forward_sweep :: "dep_graph \<Rightarrow> string set \<Rightarrow> string set" where
  "forward_sweep g out = foldl (\<lambda>out (f, t). if f \<in> out then insert t out else out) out g"

definition reverse_sweep :: "dep_graph \<Rightarrow> string set \<Rightarrow> string set" where
  "reverse_sweep g out = foldl (\<lambda>out (f, t). if t \<in> out then insert f out else out) out g"

lemma forward_sweep_simps [simp]:
  "forward_sweep [] out = out"
  "forward_sweep ((f, t) # g) out = forward_sweep g (if f \<in> out then insert t out else out)"
  by (simp_all add: forward_sweep_def)

lemma reverse_sweep_simps [simp]:
  "reverse_sweep [] out = out"
  "reverse_sweep ((f, t) # g) out = reverse_sweep g (if t \<in> out then insert f out else out)"
  by (simp_all add: reverse_sweep_def)

definition graph_nodes :: "dep_graph \<Rightarrow> string set" where
  "graph_nodes g = fst ` set g \<union> snd ` set g"

lemma forward_sweep_mono: "out \<subseteq> forward_sweep g out"
  by (induction g arbitrary: out) (auto split: if_splits, blast+)

lemma reverse_sweep_mono: "out \<subseteq> reverse_sweep g out"
  by (induction g arbitrary: out) (auto split: if_splits, blast+)

lemma forward_sweep_nodes: "forward_sweep g out \<subseteq> out \<union> graph_nodes g"
proof (induction g arbitrary: out)
  case (Cons e g)
  then show ?case
    by (cases e) (use Cons[of out] Cons[of "insert (snd e) out"] in \<open>auto simp: graph_nodes_def\<close>)
qed simp

lemma reverse_sweep_nodes: "reverse_sweep g out \<subseteq> out \<union> graph_nodes g"
proof (induction g arbitrary: out)
  case (Cons e g)
  then show ?case
    by (cases e) (use Cons[of out] Cons[of "insert (fst e) out"] in \<open>auto simp: graph_nodes_def\<close>)
qed simp

lemma sweep_measure:
  assumes "out' = reverse_sweep g (forward_sweep g out)" and "out' \<noteq> out"
  shows "card (graph_nodes g - out') < card (graph_nodes g - out)"
proof -
  have "out \<subseteq> out'" using assms forward_sweep_mono reverse_sweep_mono by blast
  moreover have "out' \<subseteq> out \<union> graph_nodes g"
    using assms forward_sweep_nodes reverse_sweep_nodes by blast
  ultimately have "graph_nodes g - out' \<subset> graph_nodes g - out" using assms(2) by blast
  then show ?thesis by (simp add: graph_nodes_def psubset_card_mono)
qed

text \<open>The fixed-point loop of \<^verbatim>\<open>CloseReadSet\<close>; it stops because every round but the last adds a node.\<close>

function close_loop :: "dep_graph \<Rightarrow> string set \<Rightarrow> string set" where
  "close_loop g out =
     (let out' = reverse_sweep g (forward_sweep g out)
      in if out' = out then out else close_loop g out')"
  by pat_completeness auto
termination
  by (relation "measure (\<lambda>(g, out). card (graph_nodes g - out))") (auto intro: sweep_measure)

declare close_loop.simps [simp del]

definition close_read_set :: "string list \<Rightarrow> dep_graph \<Rightarrow> string list" where
  "close_read_set write_set g = sorted_keys (close_loop g (set write_set))"

section \<open>The plan spec\<close>

record plan_reservation =
  pr_address :: string
  pr_mode :: string

record state_engine_metadata =
  se_fetch_addresses :: "string list"
  se_config_required_nodes :: "string list"
  se_removed_config_nodes :: "string list"

text \<open>The timing and counting fields of the metadata, and the scoped files, carry no behaviour here.\<close>

record plan_spec =
  sp_format_version :: string
  sp_config_dir :: string
  sp_terraform_version :: string
  sp_source_serial :: "int option"
  sp_state_name :: string
  sp_state_engine :: "state_engine_metadata option"
  sp_summary :: plan_summary
  sp_write_set :: "string list"
  sp_read_set :: "string list"
  sp_hcl_footprint :: "string list"
  sp_reservations :: "plan_reservation list"
  sp_edges :: "edge list"
  sp_variables :: "(string \<times> raw) list option"

record spec_build_input =
  in_config_dir :: string
  in_state_name :: string
  in_source_serial :: "int option"
  in_explicit_vars :: "(string \<times> raw) list"
  in_pin_all_vars :: bool

definition build_reservations :: "string list \<Rightarrow> string list \<Rightarrow> plan_reservation list" where
  "build_reservations write_set read_set =
     sort_key (\<lambda>r. (pr_address r, pr_mode r))
       (map (\<lambda>a. \<lparr>pr_address = a, pr_mode = (if a \<in> set write_set then ''write'' else ''read'')\<rparr>) read_set)"

definition merge_variables ::
    "(string \<times> raw) list \<Rightarrow> (string \<times> raw) list \<Rightarrow> bool \<Rightarrow> (string \<times> raw) list option" where
  "merge_variables observed explicit pin_all =
     (let pinned = (if pin_all then filter (\<lambda>(k, v). v \<noteq> None) observed else []);
          out = filter (\<lambda>(k, v). map_of explicit k = None) pinned @ explicit
      in if out = [] then None else Some out)"

definition current_spec_format_version :: string where
  "current_spec_format_version = ''1''"

definition build_spec :: "plan_file \<Rightarrow> spec_build_input \<Rightarrow> plan_spec" where
  "build_spec f inp =
     (let write_set = extract_write_set f;
          g = build_dep_graph f;
          read_set = close_read_set write_set g;
          footprint = extract_hcl_footprint f
      in \<lparr>sp_format_version = current_spec_format_version,
          sp_config_dir = in_config_dir inp,
          sp_terraform_version = pf_terraform_version f,
          sp_source_serial = in_source_serial inp,
          sp_state_name = in_state_name inp,
          sp_state_engine = None,
          sp_summary = summarize_actions (pf_resource_changes f),
          sp_write_set = write_set,
          sp_read_set = read_set,
          sp_hcl_footprint = footprint,
          sp_reservations = build_reservations write_set read_set,
          sp_edges = graph_edges g,
          sp_variables = merge_variables (pf_variables f) (in_explicit_vars inp) (in_pin_all_vars inp)\<rparr>)"

datatype spec_error = SpecNotJson | MissingFormatVersion | UnsupportedFormatVersion string

text \<open>\<open>None\<close> is a document that \<^verbatim>\<open>json.Unmarshal\<close> rejects.\<close>

definition unmarshal_spec :: "plan_spec option \<Rightarrow> (spec_error, plan_spec) result" where
  "unmarshal_spec doc = (case doc of
     None \<Rightarrow> Inl SpecNotJson
   | Some s \<Rightarrow>
       if sp_format_version s = [] then Inl MissingFormatVersion
       else if sp_format_version s \<noteq> current_spec_format_version
       then Inl (UnsupportedFormatVersion (sp_format_version s))
       else if sp_reservations s = [] \<and> (sp_write_set s \<noteq> [] \<or> sp_read_set s \<noteq> [])
       then Inr (s\<lparr>sp_reservations := build_reservations (sp_write_set s) (sp_read_set s)\<rparr>)
       else Inr s)"

definition marshal_spec :: "plan_spec \<Rightarrow> plan_spec" where
  "marshal_spec s =
     (if sp_format_version s = [] then s\<lparr>sp_format_version := current_spec_format_version\<rparr> else s)"

section \<open>Target scopes\<close>

text \<open>The error is the sorted list of the unexpected writes.\<close>

definition validate_targeted_write_set :: "string list \<Rightarrow> string list \<Rightarrow> (string list, unit) result" where
  "validate_targeted_write_set write_set allowed =
     (let allow = filter (\<lambda>a. a \<noteq> []) (map trim_space allowed);
          prefixes = map (\<lambda>a. a @ ''.'') (filter (\<lambda>a. has_prefix a ''module.'') allow);
          unexpected = filter (\<lambda>w. w \<notin> set allow \<and> \<not> list_ex (has_prefix w) prefixes) write_set
      in if unexpected = [] then Inr () else Inl (sort unexpected))"

section \<open>The closure is the connected part\<close>

definition linked :: "dep_graph \<Rightarrow> (string \<times> string) set" where
  "linked g = (set g \<union> (set g)\<inverse>)\<^sup>*"

lemma linked_linked [simp]: "linked g `` (linked g `` X) = linked g `` X"
  by (simp add: linked_def relcomp_Image[symmetric])

lemma linked_refl: "X \<subseteq> linked g `` X"
  by (auto simp: linked_def)

lemma linked_mono: "X \<subseteq> Y \<Longrightarrow> linked g `` X \<subseteq> linked g `` Y"
  by blast

lemma linked_edge:
  "(f, t) \<in> set g \<Longrightarrow> (x, f) \<in> linked g \<Longrightarrow> (x, t) \<in> linked g"
  "(f, t) \<in> set g \<Longrightarrow> (x, t) \<in> linked g \<Longrightarrow> (x, f) \<in> linked g"
  by (auto simp: linked_def intro: rtrancl_into_rtrancl)

lemma forward_sweep_linked: "set g' \<subseteq> set g \<Longrightarrow> forward_sweep g' out \<subseteq> linked g `` out"
proof (induction g' arbitrary: out)
  case (Cons e g')
  obtain f t where e: "e = (f, t)" by (cases e)
  let ?out = "if f \<in> out then insert t out else out"
  have "(f, t) \<in> set g" using Cons.prems e by simp
  then have "?out \<subseteq> linked g `` out"
    using linked_refl[of out g] linked_edge(1)[of f t g f] by (auto simp: linked_def)
  then have "linked g `` ?out \<subseteq> linked g `` out" using linked_mono by (metis linked_linked)
  then show ?case using Cons.IH[of ?out] Cons.prems by (simp add: e)
qed (simp add: linked_refl)

lemma reverse_sweep_linked: "set g' \<subseteq> set g \<Longrightarrow> reverse_sweep g' out \<subseteq> linked g `` out"
proof (induction g' arbitrary: out)
  case (Cons e g')
  obtain f t where e: "e = (f, t)" by (cases e)
  let ?out = "if t \<in> out then insert f out else out"
  have "(f, t) \<in> set g" using Cons.prems e by simp
  then have "?out \<subseteq> linked g `` out"
    using linked_refl[of out g] linked_edge(2)[of f t g t] by (auto simp: linked_def)
  then have "linked g `` ?out \<subseteq> linked g `` out" using linked_mono by (metis linked_linked)
  then show ?case using Cons.IH[of ?out] Cons.prems by (simp add: e)
qed (simp add: linked_refl)

lemma forward_sweep_fixed:
  assumes "forward_sweep g out = out" and "(f, t) \<in> set g" and "f \<in> out"
  shows "t \<in> out"
proof -
  have "t \<in> forward_sweep g out" using assms(2,3)
  proof (induction g arbitrary: out)
    case (Cons e g)
    then show ?case
      using forward_sweep_mono[of "insert t out" g] by (cases e) (auto split: if_splits)
  qed simp
  then show ?thesis using assms(1) by simp
qed

lemma reverse_sweep_fixed:
  assumes "reverse_sweep g out = out" and "(f, t) \<in> set g" and "t \<in> out"
  shows "f \<in> out"
proof -
  have "f \<in> reverse_sweep g out" using assms(2,3)
  proof (induction g arbitrary: out)
    case (Cons e g)
    then show ?case
      using reverse_sweep_mono[of "insert f out" g] by (cases e) (auto split: if_splits)
  qed simp
  then show ?thesis using assms(1) by simp
qed

lemma close_loop_linked: "close_loop g out = linked g `` out"
proof (induction g out rule: close_loop.induct)
  case (1 g out)
  let ?f = "forward_sweep g out" and ?o = "reverse_sweep g (forward_sweep g out)"
  have up: "out \<subseteq> ?f" "?f \<subseteq> ?o" by (rule forward_sweep_mono, rule reverse_sweep_mono)
  have sub: "?o \<subseteq> linked g `` out"
    using forward_sweep_linked[of g g out] reverse_sweep_linked[of g g ?f]
      linked_mono[of ?f "linked g `` out" g] by simp
  show ?case
  proof (cases "?o = out")
    case True
    then have f: "?f = out" using up by blast
    with True have r: "reverse_sweep g out = out" by simp
    have "y \<in> out" if "(x, y) \<in> (set g \<union> (set g)\<inverse>)\<^sup>*" "x \<in> out" for x y
      using that
    proof (induction rule: rtrancl_induct)
      case (step y z)
      then show ?case using forward_sweep_fixed[OF f] reverse_sweep_fixed[OF r] by blast
    qed simp
    then have "linked g `` out \<subseteq> out" by (auto simp: linked_def)
    then have "linked g `` out = out" using linked_refl by blast
    then show ?thesis using True by (subst close_loop.simps) simp
  next
    case False
    have "linked g `` ?o = linked g `` out"
    proof
      show "linked g `` ?o \<subseteq> linked g `` out"
        using linked_mono[OF sub, of g] by simp
      show "linked g `` out \<subseteq> linked g `` ?o" using up by blast
    qed
    then show ?thesis using 1[OF refl False] False by (subst close_loop.simps) simp
  qed
qed

lemma edge_nodes: "(x, y) \<in> set g \<Longrightarrow> x \<in> graph_nodes g \<and> y \<in> graph_nodes g"
  by (force simp: graph_nodes_def)

lemma linked_nodes: "(x, y) \<in> linked g \<Longrightarrow> y = x \<or> x \<in> graph_nodes g \<and> y \<in> graph_nodes g"
  unfolding linked_def by (induction rule: rtrancl_induct) (auto dest: edge_nodes)

lemma finite_linked: "finite out \<Longrightarrow> finite (linked g `` out)"
  by (rule finite_subset[of _ "out \<union> graph_nodes g"]) (auto dest: linked_nodes simp: graph_nodes_def)

text \<open>C12: The fixed-point loop terminates with the closure: the read set is, in order and without
  repetition, exactly the addresses connected to the write set by dependency edges followed in either
  direction, whatever the order of the edges.\<close>

theorem close_read_set_closure:
  "set (close_read_set ws g) = {y. \<exists>x \<in> set ws. (x, y) \<in> (set g \<union> (set g)\<inverse>)\<^sup>*}
    \<and> sorted (close_read_set ws g) \<and> distinct (close_read_set ws g)"
  using finite_linked[of "set ws" g]
  by (auto simp: close_read_set_def close_loop_linked linked_def)

text \<open>An address that no edge mentions, such as an expanded instance, brings nothing into its closure.\<close>

lemma close_read_set_isolated: "x \<notin> graph_nodes g \<Longrightarrow> close_read_set [x] g = [x]"
proof -
  assume "x \<notin> graph_nodes g"
  then have "linked g `` {x} = {x}" using linked_nodes linked_refl[of "{x}" g] by blast
  then show ?thesis by (simp add: close_read_set_def close_loop_linked sorted_keys_def)
qed

section \<open>Reservations of a spec\<close>

lemma sorted_pairs:
  "sorted as \<Longrightarrow> distinct as \<Longrightarrow> sorted (map (\<lambda>a. (a :: 'a :: linorder, h a :: 'b :: linorder)) as)"
proof (induction as)
  case (Cons a as)
  then have "\<forall>x \<in> set as. a < x" by (auto simp: order.strict_iff_order)
  then show ?case using Cons by (auto simp: less_eq_prod_def)
qed simp

lemma build_reservations_sorted:
  assumes "sorted rs" and "distinct rs"
  shows "build_reservations ws rs =
    map (\<lambda>a. \<lparr>pr_address = a, pr_mode = (if a \<in> set ws then ''write'' else ''read'')\<rparr>) rs"
  unfolding build_reservations_def
  using sorted_pairs[OF assms, of "\<lambda>a. if a \<in> set ws then ''write'' else ''read''"]
  by (intro sort_key_id_if_sorted) (simp add: comp_def)

lemma set_close_read_set [simp]:
  "set (close_read_set ws g) = linked g `` set ws" "sorted (close_read_set ws g)" "distinct (close_read_set ws g)"
  using finite_linked[of "set ws" g] by (simp_all add: close_read_set_def close_loop_linked)

lemma build_spec_parts:
  "sp_read_set (build_spec f inp) = close_read_set (extract_write_set f) (build_dep_graph f)"
  "sp_write_set (build_spec f inp) = extract_write_set f"
  "sp_reservations (build_spec f inp) =
     map (\<lambda>a. \<lparr>pr_address = a, pr_mode = (if a \<in> set (extract_write_set f) then ''write'' else ''read'')\<rparr>)
       (close_read_set (extract_write_set f) (build_dep_graph f))"
  using build_reservations_sorted[OF set_close_read_set(2,3)]
  by (simp_all add: build_spec_def Let_def)

text \<open>A spec asks for one reservation per address of its read set, in order: for writing exactly on the
  addresses of its write set, for reading on the rest of the closure; the write set is within the read
  set, which is closed under the dependency edges of the plan in both directions.\<close>

theorem build_spec_reservations:
  "map pr_address (sp_reservations (build_spec f inp)) = sp_read_set (build_spec f inp)
    \<and> distinct (sp_read_set (build_spec f inp))
    \<and> (\<forall>a m. \<lparr>pr_address = a, pr_mode = m\<rparr> \<in> set (sp_reservations (build_spec f inp)) \<longleftrightarrow>
         a \<in> set (sp_read_set (build_spec f inp)) \<and>
         m = (if a \<in> set (extract_write_set f) then ''write'' else ''read''))
    \<and> set (extract_write_set f) \<subseteq> set (sp_read_set (build_spec f inp))
    \<and> linked (build_dep_graph f) `` set (sp_read_set (build_spec f inp)) = set (sp_read_set (build_spec f inp))"
  unfolding build_spec_parts
  using set_close_read_set linked_refl[of "set (extract_write_set f)" "build_dep_graph f"]
  by (auto simp: comp_def)

text \<open>Nothing in the write set is a no-op or a read, and a change of an unknown kind is not in it either.\<close>

lemma set_extract_write_set:
  "set (extract_write_set f) = {rc_address rc | rc. rc \<in> set (pf_resource_changes f) \<and>
     classify_change (rc_actions rc) \<notin> {ActionNoop, ActionRead, ActionUnknown}}"
proof -
  have "is_write a \<longleftrightarrow> a \<notin> {ActionNoop, ActionRead, ActionUnknown}" for a
    by (cases a) (auto simp: is_write_def)
  then show ?thesis by (auto simp: extract_write_set_def)
qed

lemma summarize_total_aux:
  "ps_total (foldl (\<lambda>s rc. count_action (classify_change (rc_actions rc)) s) s0 changes)
     = ps_total s0 + length changes"
  by (induction changes arbitrary: s0) (auto simp: count_action_def Let_def split: action.splits)

lemma summarize_total: "ps_total (summarize_actions changes) = length changes"
  by (simp add: summarize_actions_def summarize_total_aux)

section \<open>Specs that are read back\<close>

text \<open>Reading back what was written: a spec that was built by \<^verbatim>\<open>BuildSpec\<close> and marshalled is accepted and
  comes back unchanged.\<close>

theorem unmarshal_marshal_spec:
  "unmarshal_spec (Some (marshal_spec (build_spec f inp))) = Inr (build_spec f inp)"
proof -
  let ?s = "build_spec f inp"
  have v: "sp_format_version ?s = ''1''" by (simp add: build_spec_def current_spec_format_version_def Let_def)
  have "sp_reservations ?s = [] \<longleftrightarrow> sp_read_set ?s = []" by (simp add: build_spec_parts)
  moreover have "sp_read_set ?s = [] \<longrightarrow> sp_write_set ?s = []"
    using linked_refl[of "set (sp_write_set ?s)" "build_dep_graph f"]
    by (auto simp: build_spec_parts simp flip: set_empty)
  ultimately show ?thesis
    using v by (auto simp: unmarshal_spec_def marshal_spec_def current_spec_format_version_def)
qed

section \<open>Target scopes\<close>

definition in_target :: "string list \<Rightarrow> string \<Rightarrow> bool" where
  "in_target allowed w \<longleftrightarrow> (\<exists>a \<in> trimmed allowed. w = a \<or> has_prefix a ''module.'' \<and> has_prefix w (a @ ''.''))"

text \<open>The target guard accepts a write set exactly when every write is an allowed address or lies below
  an allowed module, and otherwise reports exactly the writes outside the scope, in order.\<close>

theorem validate_targeted_write_set_exact:
  "validate_targeted_write_set ws allowed =
     (if \<forall>w \<in> set ws. in_target allowed w then Inr ()
      else Inl (sort (filter (\<lambda>w. \<not> in_target allowed w) ws)))"
proof -
  let ?allow = "filter (\<lambda>a. a \<noteq> []) (map trim_space allowed)"
  have allow: "set ?allow = trimmed allowed" by (auto simp: trimmed_def)
  have "w \<notin> set ?allow \<and> \<not> list_ex (has_prefix w) (map (\<lambda>a. a @ ''.'') (filter (\<lambda>a. has_prefix a ''module.'') ?allow))
      \<longleftrightarrow> \<not> in_target allowed w" for w
    using allow by (auto simp: in_target_def list_ex_iff simp del: set_filter) (auto simp flip: allow)
  then show ?thesis
    by (simp only: validate_targeted_write_set_def Let_def) (auto simp: filter_empty_conv)
qed

theorem validate_targeted_write_set_exact_witness:
  "validate_targeted_write_set [''module.a.t.x'', ''t.y''] [''module.a''] = Inl [''t.y'']"
  using validate_targeted_write_set_exact[of "[''module.a.t.x'', ''t.y'']" "[''module.a'']"]
  by (auto simp: in_target_def trim_space_def trim_left_def is_space_def)

section \<open>References\<close>

lemma module_parts_modules:
  "rest = [] \<or> hd rest \<noteq> ''module'' \<Longrightarrow>
   module_parts (concat (map (\<lambda>m. [''module'', m]) ms) @ rest) = 2 * length ms"
proof (induction ms)
  case Nil
  then show ?case by (cases rest rule: module_parts.cases) auto
qed simp

text \<open>A reference is cut back to the address of its resource; the attribute path is dropped.\<close>

lemma normalize_ref_resource:
  assumes parts: "\<forall>w \<in> set (address_parts ms r @ attrs). CHR ''.'' \<notin> set w"
    and "r_mode r = ''data'' \<or> r_type r \<noteq> ''data'' \<and> r_type r \<noteq> ''module''"
  shows "normalize_ref (join_with ''.'' (address_parts ms r @ attrs)) = join_with ''.'' (address_parts ms r)"
proof -
  let ?ref = "join_with ''.'' (address_parts ms r @ attrs)"
  have split: "split_on (CHR ''.'') ?ref = address_parts ms r @ attrs"
    using parts by (intro split_on_join) (auto simp: address_parts_def)
  have ne: "?ref \<noteq> []" using split by (auto simp: address_parts_def split: if_splits)
  let ?rest = "(if r_mode r = ''data'' then [''data''] else []) @ [r_type r, r_name r] @ attrs"
  have "module_parts (address_parts ms r @ attrs) = 2 * length ms"
    using module_parts_modules[of ?rest ms] assms(2)
    by (cases "r_mode r = ''data''") (simp_all add: address_parts_def)
  moreover have "length (concat (map (\<lambda>m. [''module'', m]) ms)) = 2 * length ms" by (induction ms) auto
  ultimately show ?thesis
    using ne split assms(2)
    by (auto simp: normalize_ref_def Let_def address_parts_def nth_append)
qed

text \<open>An index key with a dot is cut in the middle.\<close>

lemma normalize_ref_dotted_key:
  "normalize_ref (''aws_instance.web['' @ quote ''a.b'' @ ''].id'') = ''aws_instance.web['' @ [dquote] @ ''a''"
  by code_simp

end
