(* ===== verification/EngineDelta.thy ===== *)
theory EngineDelta
  imports ApplyMerge PlanGraph
begin

text \<open>
  The state-engine commit of an apply (\<^verbatim>\<open>internal/apply/state_engine_delta.go\<close> and the intent of
  \<^verbatim>\<open>runtf.go\<close>): instead of a whole merged state the apply sends the resources it wrote, the addresses
  it deleted and the outputs that changed.

  Raw messages carry no white space, so \<^verbatim>\<open>json.Compact\<close> leaves them as they are.
\<close>

section \<open>Decoding instances\<close>

text \<open>\<^verbatim>\<open>json.Unmarshal\<close> into \<^verbatim>\<open>tfstate.ResourceInstance\<close>: \<open>null\<close> leaves a typed field at its zero value.\<close>

definition json_field :: "string \<Rightarrow> (string \<times> json) list \<Rightarrow> raw" where
  "json_field k kvs = map_of (rev kvs) k"

definition decode_int :: "raw \<Rightarrow> int option" where
  "decode_int v = (case v of None \<Rightarrow> Some 0 | Some JNull \<Rightarrow> Some 0
     | Some (JNum n) \<Rightarrow> if int64_range n then Some n else None | _ \<Rightarrow> None)"

definition decode_bool :: "raw \<Rightarrow> bool option" where
  "decode_bool v = (case v of None \<Rightarrow> Some False | Some JNull \<Rightarrow> Some False | Some (JBool b) \<Rightarrow> Some b | _ \<Rightarrow> None)"

definition decode_string :: "raw \<Rightarrow> string option" where
  "decode_string v = (case v of None \<Rightarrow> Some [] | Some JNull \<Rightarrow> Some [] | Some (JStr s) \<Rightarrow> Some s | _ \<Rightarrow> None)"

fun decode_all :: "('a \<Rightarrow> 'b option) \<Rightarrow> 'a list \<Rightarrow> 'b list option" where
  "decode_all f [] = Some []"
| "decode_all f (x # xs) =
     (case f x of None \<Rightarrow> None | Some y \<Rightarrow> map_option (\<lambda>ys. y # ys) (decode_all f xs))"

definition decode_strings :: "raw \<Rightarrow> string list option" where
  "decode_strings v = (case v of None \<Rightarrow> Some [] | Some JNull \<Rightarrow> Some []
     | Some (JArr xs) \<Rightarrow> decode_all (\<lambda>x. decode_string (Some x)) xs | _ \<Rightarrow> None)"

definition decode_instance :: "json \<Rightarrow> resource_instance option" where
  "decode_instance j = (case j of
     JNull \<Rightarrow> Some zero_instance
   | JObj kvs \<Rightarrow>
      (case (decode_int (json_field ''schema_version'' kvs), decode_strings (json_field ''dependencies'' kvs),
             decode_bool (json_field ''create_before_destroy'' kvs), decode_bool (json_field ''tainted'' kvs),
             decode_string (json_field ''private'' kvs), decode_string (json_field ''status'' kvs)) of
         (Some sv, Some deps, Some cbd, Some tnt, Some prv, Some sts) \<Rightarrow>
           Some \<lparr>i_schema_version = sv, i_attributes = json_field ''attributes'' kvs,
             i_sensitive_attributes = json_field ''sensitive_attributes'' kvs, i_dependencies = deps,
             i_index_key = json_field ''index_key'' kvs, i_create_before_destroy = cbd, i_tainted = tnt,
             i_private = prv, i_status = sts\<rparr>
       | _ \<Rightarrow> None)
   | _ \<Rightarrow> None)"

definition decode_instances :: "raw \<Rightarrow> resource_instance list option" where
  "decode_instances v = (case v of None \<Rightarrow> Some [] | Some JNull \<Rightarrow> Some []
     | Some (JArr xs) \<Rightarrow> decode_all decode_instance xs | _ \<Rightarrow> None)"

datatype delta_error =
    BadInstances string
  | BadAddress raw
  | InstanceCountMismatch string
  | BadOutputs

definition slice_resource_to_tfstate :: "trunk_resource \<Rightarrow> (delta_error, tf_resource) result" where
  "slice_resource_to_tfstate r =
     (case decode_instances (tr_instances r) of
        None \<Rightarrow> Inl (BadInstances (tr_address r))
      | Some is \<Rightarrow> Inr \<lparr>r_mode = tr_mode r, r_type = tr_type r, r_name = tr_name r,
          r_provider = tr_provider r, r_module = tr_module r, r_instances = is\<rparr>)"

definition tfstate_group_address :: "tf_resource \<Rightarrow> string" where
  "tfstate_group_address r =
     (let addr = r_type r @ ''.'' @ r_name r;
          addr = (if trim_space (r_mode r) = ''data'' then ''data.'' @ addr else addr)
      in if trim_space (r_module r) \<noteq> [] then trim_space (r_module r) @ ''.'' @ addr else addr)"

section \<open>Exact entries\<close>

record exact_entry =
  ee_mode :: string
  ee_type :: string
  ee_name :: string
  ee_provider :: string
  ee_module :: string
  ee_instance :: json

definition compact_raw :: "raw \<Rightarrow> json" where
  "compact_raw v = (case v of None \<Rightarrow> JNull | Some j \<Rightarrow> j)"

definition raw_instances :: "raw \<Rightarrow> json list" where
  "raw_instances v = (case v of Some (JArr xs) \<Rightarrow> xs | _ \<Rightarrow> [])"

fun entry_loop :: "tf_resource \<Rightarrow> resource_instance list \<Rightarrow> json list \<Rightarrow>
    (string \<rightharpoonup> exact_entry) \<Rightarrow> (delta_error, string \<rightharpoonup> exact_entry) result" where
  "entry_loop r [] raws out = Inr out"
| "entry_loop r (inst # insts) raws out =
     (case instance_address r inst of
        Inl e \<Rightarrow> Inl (BadAddress e)
      | Inr addr \<Rightarrow>
          (case raws of
             [] \<Rightarrow> Inl (InstanceCountMismatch addr)
           | raw # raws' \<Rightarrow> entry_loop r insts raws' (out(addr \<mapsto>
               \<lparr>ee_mode = r_mode r, ee_type = r_type r, ee_name = r_name r, ee_provider = r_provider r,
                ee_module = r_module r, ee_instance = raw\<rparr>))))"

fun exact_entries_loop ::
    "trunk_resource list \<Rightarrow> (string \<rightharpoonup> exact_entry) \<Rightarrow> (delta_error, string \<rightharpoonup> exact_entry) result" where
  "exact_entries_loop [] out = Inr out"
| "exact_entries_loop (sr # srs) out =
     bind_result (slice_resource_to_tfstate sr) (\<lambda>r.
       bind_result (entry_loop r (r_instances r) (raw_instances (tr_instances sr)) out)
         (exact_entries_loop srs))"

definition exact_state_entries :: "trunk_state \<Rightarrow> (delta_error, string \<rightharpoonup> exact_entry) result" where
  "exact_state_entries st = exact_entries_loop (ts_resources st) Map.empty"

definition trunk_resource_equal :: "trunk_resource \<Rightarrow> trunk_resource \<Rightarrow> bool" where
  "trunk_resource_equal a b \<longleftrightarrow>
     tr_module a = tr_module b \<and> tr_mode a = tr_mode b \<and> tr_type a = tr_type b \<and> tr_name a = tr_name b \<and>
     tr_provider a = tr_provider b \<and> tr_each a = tr_each b \<and>
     compact_raw (tr_instances a) = compact_raw (tr_instances b)"

text \<open>The comparison of one address: \<open>None\<close> is Go's \<open>ok = false\<close>, else (changed, deleted).\<close>

definition compare_exact_address :: "string \<Rightarrow> (string \<rightharpoonup> trunk_resource) \<Rightarrow> (string \<rightharpoonup> trunk_resource) \<Rightarrow>
    (string \<rightharpoonup> exact_entry) \<Rightarrow> (string \<rightharpoonup> exact_entry) \<Rightarrow> (bool \<times> bool) option" where
  "compare_exact_address addr trunk_by post_by trunk_exact post_exact =
     (case trunk_by addr of
        Some trunk_row \<Rightarrow>
          (case post_by addr of
             None \<Rightarrow> Some (True, True)
           | Some post_row \<Rightarrow> Some (\<not> trunk_resource_equal trunk_row post_row, False))
      | None \<Rightarrow>
          (case post_by addr of
             Some post_row \<Rightarrow> Some (True, False)
           | None \<Rightarrow>
               (case (trunk_exact addr, post_exact addr) of
                  (None, None) \<Rightarrow> None
                | (Some t, None) \<Rightarrow> Some (True, True)
                | (None, Some p) \<Rightarrow> Some (True, False)
                | (Some t, Some p) \<Rightarrow> Some (t \<noteq> p, False))))"

definition detect_applied_write_set ::
    "trunk_state \<Rightarrow> trunk_state \<Rightarrow> string list \<Rightarrow> (delta_error, string list \<times> string list) result" where
  "detect_applied_write_set trunk post write_set0 =
     (let write_set = dedupe_keep_order write_set0
      in if write_set = [] then Inr ([], [])
         else
           bind_result (exact_state_entries trunk) (\<lambda>trunk_exact.
           bind_result (exact_state_entries post) (\<lambda>post_exact.
             (let trunk_by = index_resources (ts_resources trunk);
                  post_by = index_resources (ts_resources post);
                  cmp = (\<lambda>addr. compare_exact_address addr trunk_by post_by trunk_exact post_exact);
                  applied = filter (\<lambda>a. case cmp a of Some (ch, del) \<Rightarrow> ch | None \<Rightarrow> False) write_set;
                  deletes = filter (\<lambda>a. case cmp a of Some (ch, del) \<Rightarrow> del | None \<Rightarrow> False) write_set
              in Inr (dedupe_sorted applied, dedupe_sorted deletes)))))"

section \<open>Outputs\<close>

definition decode_output :: "json \<Rightarrow> tf_output option" where
  "decode_output j = (case j of
     JNull \<Rightarrow> Some \<lparr>o_value = None, o_type = None, o_sensitive = False\<rparr>
   | JObj kvs \<Rightarrow> map_option (\<lambda>b. \<lparr>o_value = json_field ''value'' kvs, o_type = json_field ''type'' kvs,
       o_sensitive = b\<rparr>) (decode_bool (json_field ''sensitive'' kvs))
   | _ \<Rightarrow> None)"

definition extract_outputs :: "trunk_state \<Rightarrow> (delta_error, (string \<times> tf_output) list) result" where
  "extract_outputs st = (case ts_outputs st of
     None \<Rightarrow> Inr []
   | Some JNull \<Rightarrow> Inr []
   | Some (JObj kvs) \<Rightarrow>
       (case decode_all (\<lambda>(k, v). map_option (\<lambda>out. (k, out)) (decode_output v)) (last_fields kvs) of
          None \<Rightarrow> Inl BadOutputs | Some outs \<Rightarrow> Inr outs)
   | _ \<Rightarrow> Inl BadOutputs)"

text \<open>Two outputs are compared by their marshalled bytes; an empty message is marshalled as \<^verbatim>\<open>null\<close>.\<close>

definition output_bytes :: "tf_output \<Rightarrow> json \<times> json \<times> bool" where
  "output_bytes out = (compact_raw (o_value out), compact_raw (o_type out), o_sensitive out)"

definition detect_output_delta ::
    "(string \<times> tf_output) list \<Rightarrow> (string \<times> tf_output) list \<Rightarrow> (string \<times> tf_output) list \<times> string list" where
  "detect_output_delta trunk_outputs post_outputs =
     (filter (\<lambda>(n, post). case map_of trunk_outputs n of
          None \<Rightarrow> True | Some trunk \<Rightarrow> output_bytes trunk \<noteq> output_bytes post) post_outputs,
      dedupe_sorted (map fst (filter (\<lambda>(n, t). map_of post_outputs n = None) trunk_outputs)))"

section \<open>The delta commit\<close>

record delta_commit =
  dc_terraform_version :: string
  dc_lineage :: string
  dc_check_results :: raw
  dc_resources :: "tf_resource list"
  dc_write_set :: "string list"
  dc_delete_set :: "string list"
  dc_output_writes :: "(string \<times> tf_output) list"
  dc_output_delete_set :: "string list"

definition kept_instances ::
    "string set \<Rightarrow> tf_resource \<Rightarrow> (delta_error, resource_instance list) result" where
  "kept_instances want r =
     bind_result (map_result (\<lambda>inst. case instance_address r inst of
        Inl e \<Rightarrow> Inl (BadAddress e) | Inr a \<Rightarrow> Inr (a \<in> want, inst)) (r_instances r))
       (\<lambda>flags. Inr (map snd (filter fst flags)))"

fun select_loop :: "string set \<Rightarrow> trunk_resource list \<Rightarrow> (delta_error, tf_resource list) result" where
  "select_loop want [] = Inr []"
| "select_loop want (sr # srs) =
     bind_result (slice_resource_to_tfstate sr) (\<lambda>r.
       if tfstate_group_address r \<in> want
       then bind_result (select_loop want srs) (\<lambda>rs. Inr (r # rs))
       else if r_instances r = [] then select_loop want srs
       else bind_result (kept_instances want r) (\<lambda>kept.
              if kept = [] then select_loop want srs
              else bind_result (select_loop want srs) (\<lambda>rs. Inr (r\<lparr>r_instances := kept\<rparr> # rs))))"

definition select_slice_resources :: "trunk_state \<Rightarrow> string list \<Rightarrow> (delta_error, tf_resource list) result" where
  "select_slice_resources st write_set =
     (if write_set = [] then Inr [] else select_loop (set write_set) (ts_resources st))"

definition build_delta_commit ::
    "trunk_state \<Rightarrow> string list \<Rightarrow> string list \<Rightarrow> (delta_error, delta_commit) result" where
  "build_delta_commit post write_set delete_set =
     bind_result (select_slice_resources post write_set) (\<lambda>selected.
       Inr \<lparr>dc_terraform_version = ts_terraform_version post, dc_lineage = ts_lineage post,
         dc_check_results = ts_check_results post, dc_resources = selected, dc_write_set = write_set,
         dc_delete_set = delete_set, dc_output_writes = [], dc_output_delete_set = []\<rparr>)"

definition attach_output_delta ::
    "delta_commit \<Rightarrow> trunk_state \<Rightarrow> trunk_state \<Rightarrow> (delta_error, delta_commit) result" where
  "attach_output_delta delta trunk post =
     bind_result (extract_outputs trunk) (\<lambda>trunk_outputs.
     bind_result (extract_outputs post) (\<lambda>post_outputs.
       (case detect_output_delta trunk_outputs post_outputs of
          (writes, deletes) \<Rightarrow> Inr (delta\<lparr>dc_output_writes := writes, dc_output_delete_set := deletes\<rparr>))))"

section \<open>The intent of the validation replan\<close>

record terraform_run_intent =
  ti_exact_write_set :: "string list"
  ti_delete_set :: "string list"

datatype intent_error =
    WriteSetMismatch "string list" "string list"
  | DeleteOutsideWrite string
  | NoIntent

definition exact_intent_from_plan :: "plan_file \<Rightarrow> terraform_run_intent" where
  "exact_intent_from_plan f =
     \<lparr>ti_exact_write_set = sort (map rc_address (filter (\<lambda>rc. classify_change (rc_actions rc) \<in>
          {ActionCreate, ActionUpdate, ActionReplace, ActionDelete, ActionForget}) (pf_resource_changes f))),
      ti_delete_set = sort (map rc_address (filter (\<lambda>rc. classify_change (rc_actions rc) \<in>
          {ActionDelete, ActionForget}) (pf_resource_changes f)))\<rparr>"

text \<open>The check of \<^verbatim>\<open>validateReplanMatchesTargets\<close> on the decoded plan of the replan.\<close>

definition replan_intent ::
    "string list \<Rightarrow> plan_file \<Rightarrow> (intent_error, terraform_run_intent) result" where
  "replan_intent targets f =
     (if targets = [] then Inr \<lparr>ti_exact_write_set = [], ti_delete_set = []\<rparr>
      else
        (let want = index_footprint_by_group targets;
             got = index_footprint_by_group (extract_write_set f);
             missing = sorted_keys (want - got); extra = sorted_keys (got - want)
         in if missing = [] \<and> extra = [] then Inr (exact_intent_from_plan f)
            else Inl (WriteSetMismatch missing extra)))"

definition validate_trusted_intent ::
    "string list \<Rightarrow> terraform_run_intent option \<Rightarrow> (intent_error, unit) result" where
  "validate_trusted_intent spec_write_set intent0 =
     (case intent0 of
        None \<Rightarrow> Inl NoIntent
      | Some intent \<Rightarrow>
         (let want = index_footprint_by_group spec_write_set;
              got = index_footprint_by_group (ti_exact_write_set intent);
              missing = sorted_keys (want - got); extra = sorted_keys (got - want)
          in if missing \<noteq> [] \<or> extra \<noteq> [] then Inl (WriteSetMismatch missing extra)
             else (case find (\<lambda>a. a \<noteq> [] \<and> a \<notin> got) (map trim_space (ti_delete_set intent)) of
                     Some a \<Rightarrow> Inl (DeleteOutsideWrite a)
                   | None \<Rightarrow> Inr ())))"

section \<open>Only what was written is sent\<close>

lemma kept_instances_in:
  assumes "kept_instances want r = Inr kept" and "i \<in> set kept"
  shows "i \<in> set (r_instances r)" and "\<exists>a \<in> want. instance_address r i = Inr a"
proof -
  obtain flags where f: "list_all2 (\<lambda>inst y. (case instance_address r inst of
        Inl e \<Rightarrow> Inl (BadAddress e) | Inr a \<Rightarrow> Inr (a \<in> want, inst)) = Inr y) (r_instances r) flags"
    and kept: "kept = map snd (filter fst flags)"
    using assms(1) by (auto simp: kept_instances_def map_result_Inr_iff)
  obtain b where b: "(True, i) \<in> set flags" using assms(2) kept by auto
  then obtain n where n: "n < length flags" "flags ! n = (True, i)" by (auto simp: in_set_conv_nth)
  then have "(case instance_address r (r_instances r ! n) of
        Inl e \<Rightarrow> Inl (BadAddress e) | Inr a \<Rightarrow> Inr (a \<in> want, r_instances r ! n)) = Inr (True, i)"
    and len: "n < length (r_instances r)"
    using f by (auto simp: list_all2_conv_all_nth)
  then show "\<exists>a \<in> want. instance_address r i = Inr a" "i \<in> set (r_instances r)"
    by (auto split: sum.splits)
qed

definition sent_by_write_set :: "string set \<Rightarrow> tf_resource \<Rightarrow> bool" where
  "sent_by_write_set want r \<longleftrightarrow> tfstate_group_address r \<in> want \<or>
     r_instances r \<noteq> [] \<and> (\<forall>i \<in> set (r_instances r). \<exists>a \<in> want. instance_address r i = Inr a)"

lemma instance_address_instances [simp]: "instance_address (r\<lparr>r_instances := is\<rparr>) i = instance_address r i"
  by (simp add: instance_address_def)

lemma select_loop_in:
  "select_loop want srs = Inr rs \<Longrightarrow> \<forall>r \<in> set rs. sent_by_write_set want r"
proof (induction srs arbitrary: rs)
  case (Cons sr srs)
  then obtain r where r: "slice_resource_to_tfstate sr = Inr r" by auto
  show ?case
  proof (cases "tfstate_group_address r \<in> want")
    case True
    then obtain rs' where "select_loop want srs = Inr rs'" "rs = r # rs'" using Cons.prems r by auto
    then show ?thesis using Cons.IH True by (simp add: sent_by_write_set_def)
  next
    case False
    show ?thesis
    proof (cases "r_instances r = []")
      case True
      then show ?thesis using Cons False r by simp
    next
      case ne: False
      then obtain kept where k: "kept_instances want r = Inr kept" using Cons.prems False r by auto
      have "kept \<noteq> [] \<Longrightarrow> sent_by_write_set want (r\<lparr>r_instances := kept\<rparr>)"
        using kept_instances_in[OF k] by (auto simp: sent_by_write_set_def)
      then show ?thesis using Cons False ne r k by (auto split: if_splits)
    qed
  qed
qed simp

text \<open>C31: A delta commit carries nothing outside the write set: every resource it sends either has its
  group address in the write set or consists, non-empty, of instances whose own addresses are in it.\<close>

theorem delta_commit_within_write_set:
  assumes "build_delta_commit post ws ds = Inr dc" and "r \<in> set (dc_resources dc)"
  shows "sent_by_write_set (set ws) r"
  using assms select_loop_in[of "set ws" "ts_resources post"]
  by (auto simp: build_delta_commit_def select_slice_resources_def split: if_splits)

definition ex_counted :: trunk_resource where
  "ex_counted = (ex_row ''a'' 0)\<lparr>tr_instances := Some (JArr [JObj [(''index_key'', JNum 0)], JObj [(''index_key'', JNum 1)]])\<rparr>"

theorem delta_commit_within_write_set_witness:
  "sent_by_write_set (set [''t.a[1]'']) (hd (dc_resources (projr (build_delta_commit (ex_state 8 [ex_counted]) [''t.a[1]''] []))))"
proof (rule delta_commit_within_write_set)
  have "\<not> isl (build_delta_commit (ex_state 8 [ex_counted]) [''t.a[1]''] [])" by code_simp
  then show "build_delta_commit (ex_state 8 [ex_counted]) [''t.a[1]''] []
      = Inr (projr (build_delta_commit (ex_state 8 [ex_counted]) [''t.a[1]''] []))"
    by (cases "build_delta_commit (ex_state 8 [ex_counted]) [''t.a[1]''] []") auto
  have "dc_resources (projr (build_delta_commit (ex_state 8 [ex_counted]) [''t.a[1]''] [])) \<noteq> []" by code_simp
  then show "hd (dc_resources (projr (build_delta_commit (ex_state 8 [ex_counted]) [''t.a[1]''] [])))
      \<in> set (dc_resources (projr (build_delta_commit (ex_state 8 [ex_counted]) [''t.a[1]''] [])))"
    by (rule hd_in_set)
qed

section \<open>The trusted intent\<close>

lemma sorted_keys_Diff_Nil: "finite A \<Longrightarrow> sorted_keys (A - B) = [] \<longleftrightarrow> A \<subseteq> B"
  using sorted_keys_eq_Nil[of "A - B"] by auto

lemma finite_groups [simp]: "finite (index_footprint_by_group ws)"
  by (simp add: index_footprint_by_group_def)

text \<open>C29: The trust check of a state-engine commit: it passes exactly when there is an intent, the groups
  the intent writes are the groups of the plan spec, and every non-blank deleted address is one of those
  groups.\<close>

theorem validate_trusted_intent_exact:
  "validate_trusted_intent ws intent0 = Inr () \<longleftrightarrow>
     (\<exists>intent. intent0 = Some intent \<and>
        index_footprint_by_group (ti_exact_write_set intent) = index_footprint_by_group ws \<and>
        trimmed (ti_delete_set intent) \<subseteq> index_footprint_by_group ws)"
proof (cases intent0)
  case (Some intent)
  then show ?thesis
    using sorted_keys_Diff_Nil[of "index_footprint_by_group ws" "index_footprint_by_group (ti_exact_write_set intent)"]
      sorted_keys_Diff_Nil[of "index_footprint_by_group (ti_exact_write_set intent)" "index_footprint_by_group ws"]
    by (auto simp: validate_trusted_intent_def trimmed_def Let_def)
qed (simp add: validate_trusted_intent_def)

text \<open>
  The deleted addresses are compared unstripped with the stripped write groups, so an apply that deletes
  one instance of a counted resource passes the replan check and is then refused.
\<close>

definition ex_delete_plan :: plan_file where
  "ex_delete_plan = \<lparr>pf_format_version = ''1.2'', pf_terraform_version = ''1.9'', pf_resource_changes =
     [\<lparr>rc_address = ''t.a[1]'', rc_mode = ''managed'', rc_type = ''t'', rc_name = ''a'', rc_actions = [''delete'']\<rparr>],
     pf_planned_root = PlannedModule [] [], pf_config_root = ConfigModule [] [], pf_variables = []\<rparr>"

lemma indexed_delete_refused:
  "replan_intent [''t.a[1]''] ex_delete_plan = Inr (exact_intent_from_plan ex_delete_plan)"
  "validate_trusted_intent [''t.a[1]''] (Some (exact_intent_from_plan ex_delete_plan))
     = Inl (DeleteOutsideWrite ''t.a[1]'')"
  by code_simp+

end
