(* ===== verification/History.thy ===== *)
theory History
  imports Prelude
begin

text \<open>
  The contract of a versioned table: it is written at increasing serials, a read at the serial of a
  write returns what was written, and reads at older serials are not affected. What its clients rely
  on, that every past version can still be read after any number of later writes, is proved here once.
\<close>

locale history_table =
  fixes view :: "'t \<Rightarrow> int \<Rightarrow> 'k \<Rightarrow> 'v option"
    and store :: "int \<Rightarrow> 'm \<Rightarrow> 't \<Rightarrow> ('e, 't) result"
    and wanted :: "'m \<Rightarrow> 'k \<Rightarrow> 'v option"
    and ok :: "int \<Rightarrow> 't \<Rightarrow> bool"
  assumes write_ok: "ok s t \<Longrightarrow> s < s' \<Longrightarrow> store s' m t = Inr t' \<Longrightarrow> ok s' t'"
    and write_now: "ok s t \<Longrightarrow> s < s' \<Longrightarrow> store s' m t = Inr t' \<Longrightarrow> view t' s' k = wanted m k"
    and write_past: "ok s t \<Longrightarrow> s < s' \<Longrightarrow> store s' m t = Inr t' \<Longrightarrow> q < s' \<Longrightarrow> view t' q k = view t q k"
begin

fun writes_all :: "(int \<times> 'm) list \<Rightarrow> 't \<Rightarrow> ('e, 't) result" where
  "writes_all [] t = Inr t"
| "writes_all ((s, m) # ws) t = bind_result (store s m t) (writes_all ws)"

lemma writes_all_past:
  "ok s t \<Longrightarrow> sorted_wrt (<) (s # map fst ws) \<Longrightarrow> writes_all ws t = Inr t' \<Longrightarrow> q \<le> s \<Longrightarrow>
   view t' q k = view t q k"
proof (induction ws arbitrary: s t)
  case (Cons w ws)
  obtain s1 m t1 where w: "w = (s1, m)" and t1: "store s1 m t = Inr t1" "writes_all ws t1 = Inr t'"
    using Cons.prems(3) by (cases w) auto
  have lt: "s < s1" using Cons.prems(2) w by simp
  have "view t' q k = view t1 q k"
    using Cons.IH[OF write_ok[OF Cons.prems(1) lt t1(1)] _ t1(2)] Cons.prems(2,4) w lt by simp
  also have "\<dots> = view t q k" using write_past[OF Cons.prems(1) lt t1(1)] Cons.prems(4) lt by simp
  finally show ?case .
qed simp

lemma writes_all_view:
  "ok s t \<Longrightarrow> sorted_wrt (<) (s # map fst ws) \<Longrightarrow> writes_all ws t = Inr t' \<Longrightarrow> (q, m) \<in> set ws \<Longrightarrow>
   view t' q k = wanted m k"
proof (induction ws arbitrary: s t)
  case (Cons w ws)
  obtain s1 m1 t1 where w: "w = (s1, m1)" and t1: "store s1 m1 t = Inr t1" "writes_all ws t1 = Inr t'"
    using Cons.prems(3) by (cases w) auto
  have lt: "s < s1" using Cons.prems(2) w by simp
  note ok1 = write_ok[OF Cons.prems(1) lt t1(1)]
  show ?case
  proof (cases "(q, m) = w")
    case True
    then have "view t' q k = view t1 q k"
      using writes_all_past[OF ok1 _ t1(2), of q k] Cons.prems(2) w by simp
    then show ?thesis using write_now[OF Cons.prems(1) lt t1(1)] True w by simp
  next
    case False
    then have "(q, m) \<in> set ws" using Cons.prems(4) by auto
    then show ?thesis using Cons.IH[OF ok1 _ t1(2)] Cons.prems(2) w by simp
  qed
qed simp

end

end
