(* ===== verification/Ledger.thy ===== *)
theory Ledger
  imports Address History "HOL-Library.Product_Lexorder"
begin

text \<open>
  The resource ledger of \<^verbatim>\<open>pkg/store/normalize.go\<close>: the table \<^verbatim>\<open>resources\<close>, whose rows have a life
  from \<^verbatim>\<open>create_serial\<close> (included) to \<^verbatim>\<open>delete_serial\<close> (excluded, or open), and the two write
  algorithms that keep it in step with the states written.

  \<open>sha\<close> is SHA-256 in hexadecimal and \<open>txt\<close> the text of a JSON value. A column of JSON holds the value.
  The constraints of the table (\<^verbatim>\<open>CHECK (delete_serial > create_serial)\<close> and
  \<^verbatim>\<open>UNIQUE (state_id, address, create_serial)\<close>) make a write fail. Identifiers are a counter.
\<close>

section \<open>Rows\<close>

record resource_row =
  rr_address :: string
  rr_mode :: string
  rr_type :: string
  rr_name :: string
  rr_provider :: string
  rr_module :: string
  rr_index_kind :: string
  rr_index_value :: "string option"
  rr_schema_version :: int
  rr_attributes :: json
  rr_sensitive :: json
  rr_dependencies :: json
  rr_hash :: string

record ledger_row =
  lr_id :: nat
  lr_state_id :: string
  lr_row :: resource_row
  lr_create :: int
  lr_delete :: "int option"

record ledger =
  ld_rows :: "ledger_row list"
  ld_next_id :: nat

datatype ledger_error =
    BadInstance raw
  | CheckViolation
  | UniqueViolation
  | BadIndexKind string
  | BadIndexValue string
  | BadDependencies string

definition index_kind_text :: "index_kind \<Rightarrow> string" where
  "index_kind_text k = (case k of IndexInt \<Rightarrow> ''int'' | IndexString \<Rightarrow> ''string'' | IndexNone \<Rightarrow> ''none'')"

definition json_or_default :: "raw \<Rightarrow> json \<Rightarrow> json" where
  "json_or_default v d = (case v of None \<Rightarrow> d | Some j \<Rightarrow> j)"

definition marshal_dependencies :: "string list \<Rightarrow> json" where
  "marshal_dependencies deps = JArr (map JStr deps)"

text \<open>The unit separator between the hashed fields.\<close>

abbreviation unit_sep :: string where "unit_sep \<equiv> [CHR 0x1F]"

definition hash_resource_content :: "(json \<Rightarrow> string) \<Rightarrow> (string \<Rightarrow> string) \<Rightarrow> resource_row \<Rightarrow> string" where
  "hash_resource_content txt sha r =
     sha (join_with unit_sep
       [rr_mode r, rr_type r, rr_name r, rr_provider r, rr_module r, rr_index_kind r,
        (case rr_index_value r of None \<Rightarrow> [] | Some s \<Rightarrow> s), show_int (rr_schema_version r),
        txt (rr_attributes r), txt (rr_sensitive r), txt (rr_dependencies r)])"

definition build_resource_row ::
    "(json \<Rightarrow> string) \<Rightarrow> (string \<Rightarrow> string) \<Rightarrow> tf_resource \<Rightarrow> resource_instance \<Rightarrow> (ledger_error, resource_row) result" where
  "build_resource_row txt sha r inst =
     (case instance_address r inst of Inl e \<Rightarrow> Inl (BadInstance e) | Inr addr \<Rightarrow>
       (case decode_index inst of Inl e \<Rightarrow> Inl (BadInstance e) | Inr (kind, val) \<Rightarrow>
         (let row = \<lparr>rr_address = addr, rr_mode = r_mode r, rr_type = r_type r, rr_name = r_name r,
                rr_provider = r_provider r, rr_module = r_module r, rr_index_kind = index_kind_text kind,
                rr_index_value = (if kind \<noteq> IndexNone then Some val else None),
                rr_schema_version = i_schema_version inst,
                rr_attributes = json_or_default (i_attributes inst) (JObj []),
                rr_sensitive = json_or_default (i_sensitive_attributes inst) (JArr []),
                rr_dependencies = marshal_dependencies (i_dependencies inst), rr_hash = []\<rparr>
          in Inr (row\<lparr>rr_hash := hash_resource_content txt sha row\<rparr>))))"

text \<open>The parsed rows, in the order of the state; as a map the last row of an address wins.\<close>

definition build_resource_rows ::
    "(json \<Rightarrow> string) \<Rightarrow> (string \<Rightarrow> string) \<Rightarrow> tf_state \<Rightarrow> (ledger_error, resource_row list) result" where
  "build_resource_rows txt sha s =
     map_result (\<lambda>(r, inst). build_resource_row txt sha r inst)
       (concat (map (\<lambda>r. map (\<lambda>i. (r, i)) (r_instances r)) (st_resources s)))"

section \<open>Open rows, closing, inserting\<close>

definition is_open :: "string \<Rightarrow> ledger_row \<Rightarrow> bool" where
  "is_open st r \<longleftrightarrow> lr_state_id r = st \<and> lr_delete r = None"

definition load_open :: "ledger \<Rightarrow> string \<Rightarrow> (string \<rightharpoonup> ledger_row)" where
  "load_open L st = index_by (\<lambda>r. rr_address (lr_row r)) (filter (is_open st) (ld_rows L))"

definition load_open_by_address :: "ledger \<Rightarrow> string \<Rightarrow> string list \<Rightarrow> (string \<rightharpoonup> ledger_row)" where
  "load_open_by_address L st addrs =
     index_by (\<lambda>r. rr_address (lr_row r))
       (filter (\<lambda>r. is_open st r \<and> rr_address (lr_row r) \<in> set addrs) (ld_rows L))"

definition close_row :: "nat list \<Rightarrow> int \<Rightarrow> ledger_row \<Rightarrow> ledger_row" where
  "close_row ids serial r =
     (if lr_id r \<in> set ids \<and> lr_delete r = None then r\<lparr>lr_delete := Some serial\<rparr> else r)"

definition close_resources :: "nat list \<Rightarrow> int \<Rightarrow> ledger \<Rightarrow> (ledger_error, ledger) result" where
  "close_resources ids serial L =
     (if list_ex (\<lambda>r. lr_id r \<in> set ids \<and> lr_delete r = None \<and> \<not> serial > lr_create r) (ld_rows L)
      then Inl CheckViolation
      else Inr (L\<lparr>ld_rows := map (close_row ids serial) (ld_rows L)\<rparr>))"

definition new_row :: "string \<Rightarrow> int \<Rightarrow> nat \<Rightarrow> resource_row \<Rightarrow> ledger_row" where
  "new_row st serial i row =
     \<lparr>lr_id = i, lr_state_id = st, lr_row = row, lr_create = serial, lr_delete = None\<rparr>"

fun insert_rows :: "string \<Rightarrow> int \<Rightarrow> resource_row list \<Rightarrow> ledger \<Rightarrow> (ledger_error, ledger) result" where
  "insert_rows st serial [] L = Inr L"
| "insert_rows st serial (row # rows) L =
     (if list_ex (\<lambda>r. lr_state_id r = st \<and> rr_address (lr_row r) = rr_address row \<and> lr_create r = serial)
           (ld_rows L)
      then Inl UniqueViolation
      else insert_rows st serial rows
        (L\<lparr>ld_rows := ld_rows L @ [new_row st serial (ld_next_id L) row], ld_next_id := Suc (ld_next_id L)\<rparr>))"

definition commit_rows ::
    "string \<Rightarrow> int \<Rightarrow> nat list \<Rightarrow> resource_row list \<Rightarrow> ledger \<Rightarrow> (ledger_error, ledger) result" where
  "commit_rows st serial to_close to_insert L =
     bind_result (close_resources to_close serial L) (insert_rows st serial to_insert)"

section \<open>The two write algorithms\<close>

definition parsed_map :: "resource_row list \<Rightarrow> (string \<rightharpoonup> resource_row)" where
  "parsed_map rows = index_by rr_address rows"

text \<open>Whether the swept address gets its open row closed and a new row inserted.\<close>

definition closes :: "(string \<rightharpoonup> resource_row) \<Rightarrow> (string \<rightharpoonup> ledger_row) \<Rightarrow> string \<Rightarrow> bool" where
  "closes parsed open_by a = (case (parsed a, open_by a) of
     (Some new, Some old) \<Rightarrow> rr_hash (lr_row old) \<noteq> rr_hash new
   | (None, Some old) \<Rightarrow> True
   | _ \<Rightarrow> False)"

definition inserts :: "(string \<rightharpoonup> resource_row) \<Rightarrow> (string \<rightharpoonup> ledger_row) \<Rightarrow> string \<Rightarrow> bool" where
  "inserts parsed open_by a = (case (parsed a, open_by a) of
     (Some new, Some old) \<Rightarrow> rr_hash (lr_row old) \<noteq> rr_hash new
   | (Some new, None) \<Rightarrow> True
   | _ \<Rightarrow> False)"

definition apply_resource_delta ::
    "string \<Rightarrow> int \<Rightarrow> resource_row list \<Rightarrow> ledger \<Rightarrow> (ledger_error, ledger) result" where
  "apply_resource_delta st serial rows L =
     (let parsed = parsed_map rows;
          open_by = load_open L st;
          parsed_addrs = remdups (map rr_address rows);
          open_addrs = remdups (map (\<lambda>r. rr_address (lr_row r)) (filter (is_open st) (ld_rows L)));
          to_close = map (\<lambda>a. lr_id (the (open_by a)))
            (filter (closes parsed open_by) parsed_addrs @
             filter (\<lambda>a. parsed a = None) open_addrs);
          to_insert = map (\<lambda>a. the (parsed a)) (filter (inserts parsed open_by) parsed_addrs)
      in commit_rows st serial to_close to_insert L)"

definition apply_resource_delta_selected ::
    "string \<Rightarrow> int \<Rightarrow> resource_row list \<Rightarrow> string list \<Rightarrow> ledger \<Rightarrow> (ledger_error, ledger) result" where
  "apply_resource_delta_selected st serial rows selected0 L =
     (let selected = dedupe_sorted selected0
      in if selected = [] then Inr L
         else
           (let parsed = parsed_map rows;
                open_by = load_open_by_address L st selected;
                to_insert = map (\<lambda>a. the (parsed a)) (filter (inserts parsed open_by) selected);
                to_close = map (\<lambda>a. lr_id (the (open_by a))) (filter (closes parsed open_by) selected)
            in commit_rows st serial to_close to_insert L))"

section \<open>The state back from the open rows\<close>

definition row_order :: "resource_row \<Rightarrow> string \<times> string \<times> string \<times> string \<times> string \<times> string" where
  "row_order r = (rr_module r, rr_mode r, rr_type r, rr_name r, rr_provider r, rr_address r)"

definition load_open_state_rows :: "ledger \<Rightarrow> string \<Rightarrow> resource_row list" where
  "load_open_state_rows L st = sort_key row_order (map lr_row (filter (is_open st) (ld_rows L)))"

definition decode_dependencies :: "json \<Rightarrow> string list option" where
  "decode_dependencies j = (case j of
     JArr xs \<Rightarrow> those (map (\<lambda>x. case x of JStr s \<Rightarrow> Some s | JNull \<Rightarrow> Some [] | _ \<Rightarrow> None) xs)
   | JNull \<Rightarrow> Some []
   | _ \<Rightarrow> None)"

definition resource_instance_from_row :: "resource_row \<Rightarrow> (ledger_error, resource_instance) result" where
  "resource_instance_from_row row =
     (let value = (case rr_index_value row of None \<Rightarrow> [] | Some v \<Rightarrow> v);
          kind = trim_space (rr_index_kind row)
      in bind_result
        (if kind = [] \<or> kind = ''none'' then Inr None
         else if kind = ''int'' then
           (case atoi (trim_space value) of
              None \<Rightarrow> Inl (BadIndexValue (rr_address row)) | Some n \<Rightarrow> Inr (Some (JNum n)))
         else if kind = ''string'' then Inr (Some (JStr value))
         else Inl (BadIndexKind (rr_address row)))
        (\<lambda>key. case decode_dependencies (rr_dependencies row) of
           None \<Rightarrow> Inl (BadDependencies (rr_address row))
         | Some deps \<Rightarrow> Inr (zero_instance\<lparr>i_schema_version := rr_schema_version row,
             i_attributes := Some (rr_attributes row), i_sensitive_attributes := Some (rr_sensitive row),
             i_index_key := key, i_dependencies := deps\<rparr>)))"

definition row_group :: "resource_row \<Rightarrow> string \<times> string \<times> string \<times> string \<times> string" where
  "row_group r = (rr_mode r, rr_type r, rr_name r, rr_provider r, rr_module r)"

text \<open>The grouping loop: the first row of a group opens it, later rows append to it.\<close>

fun group_loop :: "resource_row list \<Rightarrow> tf_resource list \<Rightarrow> (ledger_error, tf_resource list) result" where
  "group_loop [] out = Inr out"
| "group_loop (row # rows) out =
     (let is_group = (\<lambda>r. (r_mode r, r_type r, r_name r, r_provider r, r_module r) = row_group row);
          out = (if list_ex is_group out then out
                 else out @ [\<lparr>r_mode = rr_mode row, r_type = rr_type row, r_name = rr_name row,
                   r_provider = rr_provider row, r_module = rr_module row, r_instances = []\<rparr>])
      in bind_result (resource_instance_from_row row) (\<lambda>inst.
           group_loop rows (map (\<lambda>r. if is_group r then r\<lparr>r_instances := r_instances r @ [inst]\<rparr> else r) out)))"

definition build_current_resources :: "ledger \<Rightarrow> string \<Rightarrow> (ledger_error, tf_resource list) result" where
  "build_current_resources L st = group_loop (load_open_state_rows L st) []"

section \<open>The lifecycle invariant\<close>

definition ends_before :: "ledger_row \<Rightarrow> ledger_row \<Rightarrow> bool" where
  "ends_before r t \<longleftrightarrow> (case lr_delete r of None \<Rightarrow> False | Some d \<Rightarrow> d \<le> lr_create t)"

abbreviation lr_address :: "ledger_row \<Rightarrow> string" where
  "lr_address r \<equiv> rr_address (lr_row r)"

definition no_overlap :: "ledger \<Rightarrow> bool" where
  "no_overlap L \<longleftrightarrow> (\<forall>r \<in> set (ld_rows L). \<forall>t \<in> set (ld_rows L).
     lr_id r \<noteq> lr_id t \<longrightarrow> lr_state_id r = lr_state_id t \<longrightarrow> lr_address r = lr_address t \<longrightarrow>
     ends_before r t \<or> ends_before t r)"

definition within_serial :: "int \<Rightarrow> ledger_row \<Rightarrow> bool" where
  "within_serial s r \<longleftrightarrow> lr_create r \<le> s \<and>
     (case lr_delete r of None \<Rightarrow> True | Some d \<Rightarrow> lr_create r < d \<and> d \<le> s)"

text \<open>A ledger whose rows of the state \<open>st\<close> have serials up to \<open>s\<close>.\<close>

definition ledger_ok :: "string \<Rightarrow> int \<Rightarrow> ledger \<Rightarrow> bool" where
  "ledger_ok st s L \<longleftrightarrow> distinct (map lr_id (ld_rows L)) \<and> (\<forall>r \<in> set (ld_rows L). lr_id r < ld_next_id L) \<and>
     (\<forall>r \<in> set (ld_rows L). lr_state_id r = st \<longrightarrow> within_serial s r) \<and> no_overlap L"

definition live :: "string \<Rightarrow> int \<Rightarrow> ledger_row \<Rightarrow> bool" where
  "live st q r \<longleftrightarrow> lr_state_id r = st \<and> lr_create r \<le> q \<and>
     (case lr_delete r of None \<Rightarrow> True | Some d \<Rightarrow> q < d)"

text \<open>The resources of the state as of serial \<open>q\<close>.\<close>

definition content_at :: "string \<Rightarrow> ledger \<Rightarrow> int \<Rightarrow> (string \<rightharpoonup> resource_row)" where
  "content_at st L q = map_of (map (\<lambda>r. (lr_address r, lr_row r)) (filter (live st q) (ld_rows L)))"

definition hash_at :: "string \<Rightarrow> ledger \<Rightarrow> int \<Rightarrow> (string \<rightharpoonup> string)" where
  "hash_at st L q a = map_option rr_hash (content_at st L q a)"

lemma live_unique:
  assumes "no_overlap L" "r \<in> set (ld_rows L)" "t \<in> set (ld_rows L)"
    and "live st q r" "live st q t" "lr_address r = lr_address t"
  shows "lr_id r = lr_id t"
proof (rule ccontr)
  assume ne: "lr_id r \<noteq> lr_id t"
  have "lr_state_id r = lr_state_id t" using assms(4,5) by (simp add: live_def)
  then have "ends_before r t \<or> ends_before t r"
    using assms(1-3,6) ne unfolding no_overlap_def by blast
  then show False using assms(4,5) by (auto simp: ends_before_def live_def split: option.splits)
qed

lemma distinct_ids_eq:
  "distinct (map lr_id rs) \<Longrightarrow> r \<in> set rs \<Longrightarrow> t \<in> set rs \<Longrightarrow> lr_id r = lr_id t \<Longrightarrow> r = t"
  by (metis distinct_map inj_onD)

lemma content_at_iff:
  assumes "distinct (map lr_id (ld_rows L))" and "no_overlap L"
  shows "content_at st L q a = Some x \<longleftrightarrow>
    (\<exists>r \<in> set (ld_rows L). live st q r \<and> lr_address r = a \<and> lr_row r = x)"
proof -
  have "distinct (map fst (map (\<lambda>r. (lr_address r, lr_row r)) (filter (live st q) (ld_rows L))))"
  proof -
    have "inj_on lr_address (set (filter (live st q) (ld_rows L)))"
      using live_unique[OF assms(2)] distinct_ids_eq[OF assms(1)]
      by (intro inj_onI) (simp, metis)
    moreover have "distinct (filter (live st q) (ld_rows L))"
      using assms(1) by (simp add: distinct_map)
    ultimately show ?thesis by (simp add: distinct_map comp_def)
  qed
  then show ?thesis by (auto simp: content_at_def)
qed

lemma map_option_ext: "(\<And>x. f = Some x \<longleftrightarrow> g = Some x) \<Longrightarrow> f = g"
  by (cases f; cases g) auto

section \<open>Closing and inserting\<close>

lemma insert_rows_Inr:
  "insert_rows st s rows L = Inr L' \<Longrightarrow> \<exists>news. ld_rows L' = ld_rows L @ news \<and> map lr_row news = rows \<and>
     (\<forall>r \<in> set news. lr_state_id r = st \<and> lr_create r = s \<and> lr_delete r = None) \<and>
     map lr_id news = [ld_next_id L ..< ld_next_id L + length rows] \<and>
     ld_next_id L' = ld_next_id L + length rows"
proof (induction rows arbitrary: L)
  case (Cons row rows)
  let ?L = "L\<lparr>ld_rows := ld_rows L @ [new_row st s (ld_next_id L) row], ld_next_id := Suc (ld_next_id L)\<rparr>"
  have "insert_rows st s rows ?L = Inr L'" using Cons.prems by (auto split: if_splits)
  from Cons.IH[OF this] obtain news where n: "ld_rows L' = ld_rows ?L @ news" "map lr_row news = rows"
    "\<forall>r \<in> set news. lr_state_id r = st \<and> lr_create r = s \<and> lr_delete r = None"
    "map lr_id news = [ld_next_id ?L ..< ld_next_id ?L + length rows]"
    "ld_next_id L' = ld_next_id ?L + length rows" by blast
  show ?case
    using n by (intro exI[of _ "new_row st s (ld_next_id L) row # news"]) (auto simp: new_row_def upt_rec)
qed simp

lemma insert_rows_total:
  "\<forall>r \<in> set (ld_rows L). lr_state_id r = st \<longrightarrow> lr_address r \<in> rr_address ` set rows \<longrightarrow> lr_create r \<noteq> s \<Longrightarrow>
   distinct (map rr_address rows) \<Longrightarrow> \<exists>L'. insert_rows st s rows L = Inr L'"
proof (induction rows arbitrary: L)
  case (Cons row rows)
  let ?L = "L\<lparr>ld_rows := ld_rows L @ [new_row st s (ld_next_id L) row], ld_next_id := Suc (ld_next_id L)\<rparr>"
  have "\<not> list_ex (\<lambda>r. lr_state_id r = st \<and> lr_address r = rr_address row \<and> lr_create r = s) (ld_rows L)"
    using Cons.prems(1) by (auto simp: list_ex_iff)
  moreover have "\<exists>L'. insert_rows st s rows ?L = Inr L'"
    using Cons.prems by (intro Cons.IH) (auto simp: new_row_def)
  ultimately show ?case by auto
qed simp

text \<open>What one sweep decides, for the addresses in \<open>scope\<close>.\<close>

definition open_row :: "string \<Rightarrow> ledger \<Rightarrow> string \<Rightarrow> ledger_row \<Rightarrow> bool" where
  "open_row st L a r \<longleftrightarrow> r \<in> set (ld_rows L) \<and> is_open st r \<and> lr_address r = a"

definition keeps :: "(string \<rightharpoonup> resource_row) \<Rightarrow> ledger_row \<Rightarrow> bool" where
  "keeps parsed r \<longleftrightarrow> (\<exists>row. parsed (lr_address r) = Some row \<and> rr_hash row = rr_hash (lr_row r))"

definition sweep_spec ::
    "string \<Rightarrow> ledger \<Rightarrow> (string \<Rightarrow> bool) \<Rightarrow> (string \<rightharpoonup> resource_row) \<Rightarrow> nat list \<Rightarrow> resource_row list \<Rightarrow> bool" where
  "sweep_spec st L scope parsed ids ins \<longleftrightarrow>
     set ids = {lr_id r | r. \<exists>a. open_row st L a r \<and> scope a \<and> \<not> keeps parsed r} \<and>
     set ins = {row. \<exists>a. scope a \<and> parsed a = Some row \<and> \<not> (\<exists>r. open_row st L a r \<and> keeps parsed r)} \<and>
     distinct (map rr_address ins)"

lemma close_row_simps [simp]:
  "lr_id (close_row ids s r) = lr_id r" "lr_state_id (close_row ids s r) = lr_state_id r"
  "lr_row (close_row ids s r) = lr_row r" "lr_create (close_row ids s r) = lr_create r"
  by (simp_all add: close_row_def)

lemma commit_rows_Inr:
  assumes "commit_rows st s ids ins L = Inr L'"
  obtains news where "ld_rows L' = map (close_row ids s) (ld_rows L) @ news" "map lr_row news = ins"
    "\<forall>r \<in> set news. lr_state_id r = st \<and> lr_create r = s \<and> lr_delete r = None"
    "map lr_id news = [ld_next_id L ..< ld_next_id L + length ins]" "ld_next_id L' = ld_next_id L + length ins"
proof -
  have "insert_rows st s ins (L\<lparr>ld_rows := map (close_row ids s) (ld_rows L)\<rparr>) = Inr L'"
    using assms by (auto simp: commit_rows_def close_resources_def split: if_splits)
  from insert_rows_Inr[OF this] show thesis using that by auto
qed

section \<open>One commit\<close>

lemma is_open_live: "ledger_ok st s0 L \<Longrightarrow> s0 \<le> q \<Longrightarrow> r \<in> set (ld_rows L) \<Longrightarrow> live st q r \<longleftrightarrow> is_open st r"
  by (force simp: ledger_ok_def live_def is_open_def within_serial_def split: option.splits)

text \<open>What one commit at serial \<open>s\<close> did to the ledger \<open>L\<close>, whose serials were up to \<open>s0\<close>.\<close>

definition commit_step ::
    "string \<Rightarrow> int \<Rightarrow> int \<Rightarrow> ledger \<Rightarrow> ledger \<Rightarrow> (string \<Rightarrow> bool) \<Rightarrow> (string \<rightharpoonup> resource_row) \<Rightarrow>
     nat list \<Rightarrow> ledger_row list \<Rightarrow> bool" where
  "commit_step st s0 s L L' scope parsed ids news \<longleftrightarrow>
     ledger_ok st s0 L \<and> s0 < s \<and> sweep_spec st L scope parsed ids (map lr_row news) \<and>
     (\<forall>a row. parsed a = Some row \<longrightarrow> rr_address row = a) \<and>
     ld_rows L' = map (close_row ids s) (ld_rows L) @ news \<and>
     (\<forall>r \<in> set news. lr_state_id r = st \<and> lr_create r = s \<and> lr_delete r = None) \<and>
     map lr_id news = [ld_next_id L ..< ld_next_id L + length news] \<and>
     ld_next_id L' = ld_next_id L + length news"

lemma commit_stepD:
  assumes "commit_step st s0 s L L' scope parsed ids news"
  shows "ledger_ok st s0 L" "s0 < s" "sweep_spec st L scope parsed ids (map lr_row news)"
    "\<And>a row. parsed a = Some row \<Longrightarrow> rr_address row = a"
    "ld_rows L' = map (close_row ids s) (ld_rows L) @ news"
    "\<And>r. r \<in> set news \<Longrightarrow> lr_state_id r = st \<and> lr_create r = s \<and> lr_delete r = None"
    "map lr_id news = [ld_next_id L ..< ld_next_id L + length news]" "ld_next_id L' = ld_next_id L + length news"
    "distinct (map lr_id (ld_rows L))"
  using assms by (simp_all add: commit_step_def ledger_ok_def)

lemma close_row_eq:
  assumes c: "commit_step st s0 s L L' scope parsed ids news" and r: "r \<in> set (ld_rows L)"
  shows "close_row ids s r =
     (if is_open st r \<and> scope (lr_address r) \<and> \<not> keeps parsed r then r\<lparr>lr_delete := Some s\<rparr> else r)"
proof -
  have "lr_id r \<in> set ids \<longleftrightarrow> is_open st r \<and> scope (lr_address r) \<and> \<not> keeps parsed r"
    using commit_stepD(3)[OF c] r distinct_ids_eq[OF commit_stepD(9)[OF c]]
    unfolding sweep_spec_def open_row_def by blast
  then show ?thesis by (auto simp: close_row_def is_open_def)
qed

lemma old_or_new:
  "commit_step st s0 s L L' scope parsed ids news \<Longrightarrow>
   r' \<in> set (ld_rows L') \<longleftrightarrow> (\<exists>r \<in> set (ld_rows L). r' = close_row ids s r) \<or> r' \<in> set news"
  by (auto simp: commit_stepD(5))

lemma news_ids:
  assumes c: "commit_step st s0 s L L' scope parsed ids news" and "r \<in> set news"
  shows "ld_next_id L \<le> lr_id r \<and> lr_id r < ld_next_id L + length news"
proof -
  have "lr_id r \<in> set (map lr_id news)" using assms(2) by simp
  then show ?thesis by (simp add: commit_stepD(7)[OF c])
qed

lemma inserted_iff:
  assumes c: "commit_step st s0 s L L' scope parsed ids news"
  shows "row \<in> lr_row ` set news \<longleftrightarrow> scope (rr_address row) \<and> parsed (rr_address row) = Some row \<and>
     \<not> (\<exists>r. open_row st L (rr_address row) r \<and> keeps parsed r)"
  using commit_stepD(3)[OF c] commit_stepD(4)[OF c] unfolding sweep_spec_def set_map by blast

lemma old_ends_before_new:
  assumes c: "commit_step st s0 s L L' scope parsed ids news"
    and r: "r \<in> set (ld_rows L)" "t \<in> set news" "lr_state_id r = st" "lr_address r = lr_address t"
  shows "ends_before (close_row ids s r) t"
proof (cases "is_open st r")
  case True
  have "lr_row t \<in> lr_row ` set news" using r(2) by blast
  then have "\<not> keeps parsed r" "scope (lr_address r)"
    using inserted_iff[OF c] True r(1,4) by (auto simp: open_row_def)
  then show ?thesis using close_row_eq[OF c r(1)] True commit_stepD(6)[OF c r(2)] by (simp add: ends_before_def)
next
  case False
  then obtain d where d: "lr_delete r = Some d" using r(3) by (auto simp: is_open_def)
  then have "d \<le> s0" using commit_stepD(1)[OF c] r(1,3) by (force simp: ledger_ok_def within_serial_def)
  then show ?thesis
    using close_row_eq[OF c r(1)] False d commit_stepD(2,6)[OF c] r(2) by (simp add: ends_before_def)
qed

lemma old_pairs:
  assumes c: "commit_step st s0 s L L' scope parsed ids news"
    and "r \<in> set (ld_rows L)" "t \<in> set (ld_rows L)" "lr_id r \<noteq> lr_id t"
    "lr_state_id r = lr_state_id t" "lr_address r = lr_address t"
  shows "ends_before (close_row ids s r) (close_row ids s t) \<or> ends_before (close_row ids s t) (close_row ids s r)"
proof -
  have "ends_before r t \<or> ends_before t r"
    using commit_stepD(1)[OF c] assms(2-) unfolding ledger_ok_def no_overlap_def by blast
  moreover have "ends_before a b \<Longrightarrow> ends_before (close_row ids s a) (close_row ids s b)" for a b
    by (auto simp: ends_before_def close_row_def split: option.splits)
  ultimately show ?thesis by blast
qed

lemma new_pairs:
  assumes c: "commit_step st s0 s L L' scope parsed ids news"
    and "r \<in> set news" "t \<in> set news" "lr_address r = lr_address t"
  shows "lr_id r = lr_id t"
proof -
  have "distinct (map rr_address (map lr_row news))" using commit_stepD(3)[OF c] by (simp add: sweep_spec_def)
  then have "distinct (map (\<lambda>r. lr_address r) news)" by (simp add: comp_def)
  then have "r = t" using assms(2-) by (metis distinct_map inj_onD)
  then show ?thesis by simp
qed

lemma commit_no_overlap:
  assumes c: "commit_step st s0 s L L' scope parsed ids news"
  shows "no_overlap L'"
  unfolding no_overlap_def
proof (intro ballI impI)
  fix r' t'
  assume r': "r' \<in> set (ld_rows L')" and t': "t' \<in> set (ld_rows L')" and ne: "lr_id r' \<noteq> lr_id t'"
    and eq: "lr_state_id r' = lr_state_id t'" "lr_address r' = lr_address t'"
  consider r t where "r \<in> set (ld_rows L)" "t \<in> set (ld_rows L)" "r' = close_row ids s r" "t' = close_row ids s t"
    | r where "r \<in> set (ld_rows L)" "r' = close_row ids s r" "t' \<in> set news"
    | t where "t \<in> set (ld_rows L)" "t' = close_row ids s t" "r' \<in> set news"
    | "r' \<in> set news" "t' \<in> set news"
    using r' t' old_or_new[OF c] by blast
  then show "ends_before r' t' \<or> ends_before t' r'"
  proof cases
    case 1
    then show ?thesis using old_pairs[OF c] ne eq by simp
  next
    case 2
    then show ?thesis using old_ends_before_new[OF c] eq commit_stepD(6)[OF c] by simp
  next
    case 3
    then show ?thesis using old_ends_before_new[OF c, of t r'] eq commit_stepD(6)[OF c] by simp
  next
    case 4
    then show ?thesis using new_pairs[OF c] eq ne by blast
  qed
qed

lemma commit_ledger_ok:
  assumes c: "commit_step st s0 s L L' scope parsed ids news"
  shows "ledger_ok st s L'"
proof -
  note d = commit_stepD[OF c]
  have "set (map lr_id (map (close_row ids s) (ld_rows L))) \<inter> set (map lr_id news) = {}"
    using d(1) news_ids[OF c] by (fastforce simp: ledger_ok_def)
  moreover have "distinct (map lr_id (map (close_row ids s) (ld_rows L)))"
    using d(9) by (simp add: comp_def)
  moreover have "distinct (map lr_id news)" unfolding d(7) by simp
  ultimately have "distinct (map lr_id (ld_rows L'))" unfolding d(5) map_append distinct_append by simp
  moreover have "lr_id r < ld_next_id L'" if "r \<in> set (ld_rows L)" for r
    using d(1,8) that by (simp add: ledger_ok_def trans_less_add1)
  then have "\<forall>r \<in> set (ld_rows L'). lr_id r < ld_next_id L'"
    unfolding d(5) set_append set_map ball_Un using news_ids[OF c] by (simp add: d(8))
  moreover have "within_serial s (close_row ids s r)" if "r \<in> set (ld_rows L)" "lr_state_id r = st" for r
  proof -
    have "within_serial s0 r" using d(1) that by (simp add: ledger_ok_def)
    then show ?thesis using d(2) by (auto simp: within_serial_def close_row_def split: option.splits)
  qed
  then have "\<forall>r \<in> set (ld_rows L'). lr_state_id r = st \<longrightarrow> within_serial s r"
    unfolding d(5) set_append set_map ball_Un using d(6) by (simp add: within_serial_def)
  ultimately show ?thesis using commit_no_overlap[OF c] by (simp add: ledger_ok_def)
qed

section \<open>What a commit shows at each serial\<close>

lemma commit_content_past:
  assumes c: "commit_step st s0 s L L' scope parsed ids news" and q: "q < s"
  shows "content_at st L' q a = content_at st L q a"
proof (rule map_option_ext)
  fix x
  note d = commit_stepD[OF c] and ok = commit_ledger_ok[OF c]
  have live: "live st q (close_row ids s r) \<longleftrightarrow> live st q r" for r
    using q by (auto simp: live_def close_row_def split: option.splits)
  have new: "\<not> live st q r" if "r \<in> set news" for r using d(6)[OF that] q by (simp add: live_def)
  have "content_at st L' q a = Some x \<longleftrightarrow>
      (\<exists>r \<in> set (ld_rows L'). live st q r \<and> lr_address r = a \<and> lr_row r = x)"
    using content_at_iff ok by (simp add: ledger_ok_def)
  also have "\<dots> \<longleftrightarrow> (\<exists>r \<in> set (ld_rows L). live st q r \<and> lr_address r = a \<and> lr_row r = x)"
    using live new by (simp add: d(5) bex_Un)
  also have "\<dots> \<longleftrightarrow> content_at st L q a = Some x"
    using content_at_iff d(1,9) by (simp add: ledger_ok_def)
  finally show "content_at st L' q a = Some x \<longleftrightarrow> content_at st L q a = Some x" .
qed

lemma commit_live_now:
  assumes c: "commit_step st s0 s L L' scope parsed ids news" and r: "r \<in> set (ld_rows L)"
  shows "live st s (close_row ids s r) \<longleftrightarrow> is_open st r \<and> \<not> (scope (lr_address r) \<and> \<not> keeps parsed r)"
proof -
  have "live st s r \<longleftrightarrow> is_open st r" using is_open_live[OF commit_stepD(1)[OF c] _ r] commit_stepD(2)[OF c] by simp
  then show ?thesis by (auto simp: close_row_eq[OF c r] live_def is_open_def)
qed

lemma commit_content_now:
  assumes c: "commit_step st s0 s L L' scope parsed ids news"
  shows "content_at st L' s a = Some x \<longleftrightarrow>
     (\<exists>r. open_row st L a r \<and> (scope a \<longrightarrow> keeps parsed r) \<and> lr_row r = x) \<or>
     (scope a \<and> parsed a = Some x \<and> \<not> (\<exists>r. open_row st L a r \<and> keeps parsed r))"
proof -
  note d = commit_stepD[OF c] and ok = commit_ledger_ok[OF c]
  have new: "live st s r" if "r \<in> set news" for r using d(6)[OF that] by (simp add: live_def)
  have "content_at st L' s a = Some x \<longleftrightarrow>
      (\<exists>r \<in> set (ld_rows L'). live st s r \<and> lr_address r = a \<and> lr_row r = x)"
    using content_at_iff ok by (simp add: ledger_ok_def)
  also have "\<dots> \<longleftrightarrow> (\<exists>r \<in> set (ld_rows L). live st s (close_row ids s r) \<and> lr_address r = a \<and> lr_row r = x)
      \<or> (\<exists>r \<in> set news. lr_address r = a \<and> lr_row r = x)"
    using new by (simp add: d(5) bex_Un)
  also have "(\<exists>r \<in> set news. lr_address r = a \<and> lr_row r = x) \<longleftrightarrow> x \<in> lr_row ` set news \<and> rr_address x = a"
    by auto
  also have "\<dots> \<longleftrightarrow> scope a \<and> parsed a = Some x \<and> \<not> (\<exists>r. open_row st L a r \<and> keeps parsed r)"
    using inserted_iff[OF c, of x] d(4) by auto
  also have "(\<exists>r \<in> set (ld_rows L). live st s (close_row ids s r) \<and> lr_address r = a \<and> lr_row r = x) \<longleftrightarrow>
      (\<exists>r. open_row st L a r \<and> (scope a \<longrightarrow> keeps parsed r) \<and> lr_row r = x)"
    using commit_live_now[OF c] by (auto simp: open_row_def)
  finally show ?thesis .
qed

lemma open_content:
  assumes "ledger_ok st s0 L" and "s0 \<le> q"
  shows "content_at st L q a = Some x \<longleftrightarrow> (\<exists>r. open_row st L a r \<and> lr_row r = x)"
  using content_at_iff[of L st q a x] is_open_live[OF assms] assms(1)
  by (auto simp: ledger_ok_def open_row_def)

text \<open>Inside the scope the hashes are those of the parsed rows; outside nothing changes.\<close>

lemma commit_hash_in_scope:
  assumes c: "commit_step st s0 s L L' scope parsed ids news" and sc: "scope a"
  shows "hash_at st L' s a = map_option rr_hash (parsed a)"
proof (cases "content_at st L' s a")
  case None
  then have n: "\<not> (content_at st L' s a = Some x)" for x by simp
  have "parsed a = None"
  proof (rule ccontr)
    assume "parsed a \<noteq> None"
    then obtain x where "parsed a = Some x" by blast
    then show False
      using n[of x] n[of "lr_row r" for r] commit_content_now[OF c, of a] sc by metis
  qed
  then show ?thesis using None by (simp add: hash_at_def)
next
  case (Some x)
  then show ?thesis using commit_content_now[OF c, of a x] sc
    by (auto simp: hash_at_def keeps_def open_row_def)
qed

lemma commit_content_out_of_scope:
  assumes c: "commit_step st s0 s L L' scope parsed ids news" and sc: "\<not> scope a"
  shows "content_at st L' s a = content_at st L s0 a"
  by (rule map_option_ext)
    (use commit_content_now[OF c] open_content[OF commit_stepD(1)[OF c] order_refl] sc in simp)

section \<open>The sweeps decide as specified\<close>

lemma parsed_map_address: "parsed_map rows a = Some row \<Longrightarrow> row \<in> set rows \<and> rr_address row = a"
  by (auto simp: parsed_map_def dest: index_by_SomeD)

lemma parsed_map_dom: "parsed_map rows a \<noteq> None \<longleftrightarrow> a \<in> rr_address ` set rows"
  using index_by_None[of rr_address rows a] by (auto simp: parsed_map_def)

lemma load_open_iff:
  assumes "ledger_ok st s0 L"
  shows "load_open L st a = Some r \<longleftrightarrow> open_row st L a r"
    and "load_open_by_address L st as a = Some r \<longleftrightarrow> open_row st L a r \<and> a \<in> set as"
proof -
  have ok: "distinct (map lr_id (ld_rows L))" "no_overlap L" using assms by (simp_all add: ledger_ok_def)
  have nd: "distinct (map (\<lambda>r. lr_address r) (filter (\<lambda>r. is_open st r \<and> P r) (ld_rows L)))" for P
  proof -
    have "inj_on (\<lambda>r. lr_address r) (set (filter (\<lambda>r. is_open st r \<and> P r) (ld_rows L)))"
    proof (rule inj_onI)
      fix r t
      assume rt: "r \<in> set (filter (\<lambda>r. is_open st r \<and> P r) (ld_rows L))"
        "t \<in> set (filter (\<lambda>r. is_open st r \<and> P r) (ld_rows L))" "lr_address r = lr_address t"
      then have "live st s0 r" "live st s0 t" using is_open_live[OF assms order_refl] by auto
      then have "lr_id r = lr_id t" using live_unique[OF ok(2), of r t st s0] rt by simp
      then show "r = t" using distinct_ids_eq[OF ok(1), of r t] rt by simp
    qed
    moreover have "distinct (filter (\<lambda>r. is_open st r \<and> P r) (ld_rows L))"
      using assms by (simp add: ledger_ok_def distinct_map)
    ultimately show ?thesis by (simp add: distinct_map)
  qed
  show "load_open L st a = Some r \<longleftrightarrow> open_row st L a r"
    using index_by_distinct[OF nd[of "\<lambda>_. True"]] by (auto simp: load_open_def open_row_def)
  show "load_open_by_address L st as a = Some r \<longleftrightarrow> open_row st L a r \<and> a \<in> set as"
    using index_by_distinct[OF nd[of "\<lambda>r. lr_address r \<in> set as"]]
    by (auto simp: load_open_by_address_def open_row_def)
qed

lemma closes_iff: "closes parsed open_by a \<longleftrightarrow>
    (\<exists>r. open_by a = Some r \<and> \<not> (\<exists>row. parsed a = Some row \<and> rr_hash row = rr_hash (lr_row r)))"
  by (auto simp: closes_def split: option.splits)

lemma inserts_iff: "inserts parsed open_by a \<longleftrightarrow> (\<exists>row. parsed a = Some row \<and>
    \<not> (\<exists>r. open_by a = Some r \<and> rr_hash row = rr_hash (lr_row r)))"
  by (auto simp: inserts_def split: option.splits)

lemma sweep_from_lists:
  assumes op: "\<And>a r. scope a \<Longrightarrow> open_by a = Some r \<longleftrightarrow> open_row st L a r"
    and addr: "\<And>a row. parsed a = Some row \<Longrightarrow> rr_address row = a"
    and cl: "\<And>a. a \<in> set cl \<longleftrightarrow> scope a \<and> closes parsed open_by a"
    and il: "distinct il" "\<And>a. a \<in> set il \<longleftrightarrow> scope a \<and> inserts parsed open_by a"
  shows "sweep_spec st L scope parsed (map (\<lambda>a. lr_id (the (open_by a))) cl) (map (\<lambda>a. the (parsed a)) il)"
  unfolding sweep_spec_def
proof (intro conjI)
  have keep: "keeps parsed r \<longleftrightarrow> (\<exists>row. parsed a = Some row \<and> rr_hash row = rr_hash (lr_row r))"
    if "open_row st L a r" for a r using that by (simp add: keeps_def open_row_def)
  show "set (map (\<lambda>a. lr_id (the (open_by a))) cl) =
      {lr_id r |r. \<exists>a. open_row st L a r \<and> scope a \<and> \<not> keeps parsed r}"
  proof (intro set_eqI iffI)
    fix i assume "i \<in> set (map (\<lambda>a. lr_id (the (open_by a))) cl)"
    then obtain a r where a: "scope a" "open_by a = Some r" "i = lr_id r"
      "\<not> (\<exists>row. parsed a = Some row \<and> rr_hash row = rr_hash (lr_row r))"
      by (auto simp: cl closes_iff)
    then show "i \<in> {lr_id r |r. \<exists>a. open_row st L a r \<and> scope a \<and> \<not> keeps parsed r}"
      using op keep by blast
  next
    fix i assume "i \<in> {lr_id r |r. \<exists>a. open_row st L a r \<and> scope a \<and> \<not> keeps parsed r}"
    then obtain a r where a: "open_row st L a r" "scope a" "\<not> keeps parsed r" "i = lr_id r" by blast
    then have "open_by a = Some r" "a \<in> set cl" using op keep by (auto simp: cl closes_iff)
    then show "i \<in> set (map (\<lambda>a. lr_id (the (open_by a))) cl)" using a(4) by force
  qed
  show "set (map (\<lambda>a. the (parsed a)) il) =
      {row. \<exists>a. scope a \<and> parsed a = Some row \<and> \<not> (\<exists>r. open_row st L a r \<and> keeps parsed r)}"
  proof (intro set_eqI iffI)
    fix row assume "row \<in> set (map (\<lambda>a. the (parsed a)) il)"
    then obtain a where a: "scope a" "parsed a = Some row"
      "\<not> (\<exists>r. open_by a = Some r \<and> rr_hash row = rr_hash (lr_row r))"
      by (auto simp: il(2) inserts_iff)
    then show "row \<in> {row. \<exists>a. scope a \<and> parsed a = Some row \<and> \<not> (\<exists>r. open_row st L a r \<and> keeps parsed r)}"
      using op keep by (intro CollectI exI[of _ a]) auto
  next
    fix row assume "row \<in> {row. \<exists>a. scope a \<and> parsed a = Some row \<and> \<not> (\<exists>r. open_row st L a r \<and> keeps parsed r)}"
    then obtain a where a: "scope a" "parsed a = Some row" "\<not> (\<exists>r. open_row st L a r \<and> keeps parsed r)" by blast
    then have "a \<in> set il" using op keep by (auto simp: il(2) inserts_iff)
    then show "row \<in> set (map (\<lambda>a. the (parsed a)) il)" using a(2) by force
  qed
  have "rr_address (the (parsed a)) = a" if "a \<in> set il" for a
    using that addr by (auto simp: il(2) inserts_iff)
  then have "map rr_address (map (\<lambda>a. the (parsed a)) il) = il" by (simp add: map_idI)
  then show "distinct (map rr_address (map (\<lambda>a. the (parsed a)) il))" using il(1) by simp
qed

lemma set_parsed_addrs: "a \<in> set (map rr_address rows) \<longleftrightarrow> parsed_map rows a \<noteq> None"
  by (metis parsed_map_dom set_map)

lemma commit_rows_step:
  assumes "commit_rows st s ids ins L = Inr L'" and "ledger_ok st s0 L" and "s0 < s"
    and "sweep_spec st L scope parsed ids ins" and "\<And>a row. parsed a = Some row \<Longrightarrow> rr_address row = a"
  shows "\<exists>news. commit_step st s0 s L L' scope parsed ids news"
proof -
  from commit_rows_Inr[OF assms(1)] obtain news where
    "ld_rows L' = map (close_row ids s) (ld_rows L) @ news" "map lr_row news = ins"
    "\<forall>r \<in> set news. lr_state_id r = st \<and> lr_create r = s \<and> lr_delete r = None"
    "map lr_id news = [ld_next_id L ..< ld_next_id L + length ins]" "ld_next_id L' = ld_next_id L + length ins" .
  moreover have "length news = length ins" using calculation(2) by (metis length_map)
  ultimately show ?thesis using assms(2-) by (intro exI[of _ news]) (simp add: commit_step_def)
qed

lemma full_sweep:
  assumes "ledger_ok st s0 L"
  shows "\<exists>ids ins. apply_resource_delta st s rows L = commit_rows st s ids ins L \<and>
    sweep_spec st L (\<lambda>_. True) (parsed_map rows) ids ins"
proof -
  let ?p = "parsed_map rows" and ?o = "load_open L st"
  let ?pa = "remdups (map rr_address rows)"
  let ?oa = "remdups (map (\<lambda>r. lr_address r) (filter (is_open st) (ld_rows L)))"
  let ?cl = "filter (closes ?p ?o) ?pa @ filter (\<lambda>a. ?p a = None) ?oa"
  have oa: "a \<in> set ?oa \<longleftrightarrow> ?o a \<noteq> None" for a
    using load_open_iff(1)[OF assms, of a] by (auto simp: open_row_def)
  have "a \<in> set ?cl \<longleftrightarrow> closes ?p ?o a" for a
    using oa[of a] set_parsed_addrs[of a rows] by (auto simp: closes_iff simp del: set_map)
  moreover have "a \<in> set (filter (inserts ?p ?o) ?pa) \<longleftrightarrow> inserts ?p ?o a" for a
    using set_parsed_addrs[of a rows] by (auto simp: inserts_iff simp del: set_map)
  ultimately have "sweep_spec st L (\<lambda>_. True) ?p (map (\<lambda>a. lr_id (the (?o a))) ?cl)
      (map (\<lambda>a. the (?p a)) (filter (inserts ?p ?o) ?pa))"
    using parsed_map_address load_open_iff(1)[OF assms] by (intro sweep_from_lists) auto
  then show ?thesis by (auto simp: apply_resource_delta_def Let_def)
qed

lemma selected_sweep:
  assumes "ledger_ok st s0 L" and "dedupe_sorted sel \<noteq> []"
  shows "\<exists>ids ins. apply_resource_delta_selected st s rows sel L = commit_rows st s ids ins L \<and>
    sweep_spec st L (\<lambda>a. a \<in> trimmed sel) (parsed_map rows) ids ins"
proof -
  let ?p = "parsed_map rows" and ?o = "load_open_by_address L st (dedupe_sorted sel)"
  have "sweep_spec st L (\<lambda>a. a \<in> trimmed sel) ?p
      (map (\<lambda>a. lr_id (the (?o a))) (filter (closes ?p ?o) (dedupe_sorted sel)))
      (map (\<lambda>a. the (?p a)) (filter (inserts ?p ?o) (dedupe_sorted sel)))"
    using parsed_map_address load_open_iff(2)[OF assms(1)] by (intro sweep_from_lists) auto
  then show ?thesis using assms(2) by (auto simp: apply_resource_delta_selected_def Let_def)
qed

text \<open>The constraints of the table are never violated by a write at a higher serial.\<close>

lemma commit_rows_total:
  assumes ok: "ledger_ok st s0 L" and lt: "s0 < s" and sp: "sweep_spec st L scope parsed ids ins"
  shows "\<exists>L'. commit_rows st s ids ins L = Inr L'"
proof -
  have c: "lr_create r \<le> s0" if "r \<in> set (ld_rows L)" "lr_state_id r = st" for r
    using ok that by (simp add: ledger_ok_def within_serial_def)
  have "lr_create r < s" if r: "r \<in> set (ld_rows L)" and i: "lr_id r \<in> set ids" for r
  proof -
    obtain t where t: "t \<in> set (ld_rows L)" "is_open st t" "lr_id t = lr_id r"
      using sp i unfolding sweep_spec_def open_row_def by auto
    then have "t = r" using distinct_ids_eq[of "ld_rows L" t r] ok r by (simp add: ledger_ok_def)
    then show ?thesis using c[of t] t lt by (simp add: is_open_def)
  qed
  then have "close_resources ids s L = Inr (L\<lparr>ld_rows := map (close_row ids s) (ld_rows L)\<rparr>)"
    by (auto simp: close_resources_def list_ex_iff)
  moreover have "\<exists>L'. insert_rows st s ins (L\<lparr>ld_rows := map (close_row ids s) (ld_rows L)\<rparr>) = Inr L'"
  proof (rule insert_rows_total)
    show "distinct (map rr_address ins)" using sp by (simp add: sweep_spec_def)
    show "\<forall>r \<in> set (ld_rows (L\<lparr>ld_rows := map (close_row ids s) (ld_rows L)\<rparr>)).
        lr_state_id r = st \<longrightarrow> lr_address r \<in> rr_address ` set ins \<longrightarrow> lr_create r \<noteq> s"
      using c lt by auto (metis less_irrefl order.strict_trans1)
  qed
  ultimately show ?thesis by (simp add: commit_rows_def)
qed

lemma full_commit_step:
  assumes "ledger_ok st s0 L" and "s0 < s" and "apply_resource_delta st s rows L = Inr L'"
  obtains ids news where "commit_step st s0 s L L' (\<lambda>_. True) (parsed_map rows) ids news"
proof -
  obtain ids ins where "apply_resource_delta st s rows L = commit_rows st s ids ins L"
    "sweep_spec st L (\<lambda>_. True) (parsed_map rows) ids ins" using full_sweep[OF assms(1)] by blast
  then show thesis
    using that commit_rows_step[of st s ids ins L L' s0] assms parsed_map_address by fastforce
qed

section \<open>The other states of the table\<close>

definition rows_of :: "string \<Rightarrow> ledger \<Rightarrow> ledger_row list" where
  "rows_of st L = filter (\<lambda>r. lr_state_id r = st) (ld_rows L)"

lemma content_at_rows_of: "content_at st L q = map_of (map (\<lambda>r. (lr_address r, lr_row r)) (filter (live st q) (rows_of st L)))"
proof -
  have "filter (live st q) (ld_rows L) = filter (live st q) (rows_of st L)"
    by (auto simp: rows_of_def live_def intro!: filter_cong)
  then show ?thesis by (simp add: content_at_def)
qed

lemma hash_at_rows_cong: "rows_of st L' = rows_of st L \<Longrightarrow> hash_at st L' q a = hash_at st L q a"
  by (simp add: hash_at_def content_at_rows_of)

lemma commit_other_states:
  assumes c: "commit_step st s0 s L L' scope parsed ids news" and ne: "st' \<noteq> st"
  shows "rows_of st' L' = rows_of st' L"
proof -
  have "filter (\<lambda>r. lr_state_id r = st') (map (close_row ids s) rs) = filter (\<lambda>r. lr_state_id r = st') rs"
    if "set rs \<subseteq> set (ld_rows L)" for rs
    using that close_row_eq[OF c] ne by (induction rs) (auto simp: is_open_def)
  moreover have "filter (\<lambda>r. lr_state_id r = st') news = []"
    using commit_stepD(6)[OF c] ne by (auto simp: filter_empty_conv)
  ultimately show ?thesis by (simp add: rows_of_def commit_stepD(5)[OF c])
qed

lemma ledger_ok_rows_of:
  "ledger_ok st s L \<longleftrightarrow> distinct (map lr_id (ld_rows L)) \<and> (\<forall>r \<in> set (ld_rows L). lr_id r < ld_next_id L) \<and>
     no_overlap L \<and> (\<forall>r \<in> set (rows_of st L). within_serial s r)"
  by (auto simp: ledger_ok_def rows_of_def)

lemma ledger_ok_mono: "ledger_ok st s L \<Longrightarrow> s \<le> s' \<Longrightarrow> ledger_ok st s' L"
  by (force simp: ledger_ok_def within_serial_def split: option.splits)

lemma commit_other_ok:
  assumes c: "commit_step st s0 s L L' scope parsed ids news" and "st' \<noteq> st" and "ledger_ok st' s' L"
  shows "ledger_ok st' s' L'"
  using commit_ledger_ok[OF c] commit_other_states[OF c assms(2)] assms(3) by (simp add: ledger_ok_rows_of)

lemma commit_row_states:
  assumes c: "commit_step st s0 s L L' scope parsed ids news"
  shows "lr_state_id ` set (ld_rows L') \<subseteq> insert st (lr_state_id ` set (ld_rows L))"
  using commit_stepD(6)[OF c] by (auto simp: commit_stepD(5)[OF c] close_row_def)

lemma selected_commit_step:
  assumes "ledger_ok st s0 L" and "s0 < s" and "apply_resource_delta_selected st s rows sel L = Inr L'"
    and "dedupe_sorted sel \<noteq> []"
  obtains ids news where "commit_step st s0 s L L' (\<lambda>a. a \<in> trimmed sel) (parsed_map rows) ids news"
proof -
  obtain ids ins where "apply_resource_delta_selected st s rows sel L = commit_rows st s ids ins L"
    "sweep_spec st L (\<lambda>a. a \<in> trimmed sel) (parsed_map rows) ids ins" using selected_sweep[OF assms(1,4)] by blast
  then show thesis
    using that commit_rows_step[of st s ids ins L L' s0] assms parsed_map_address by fastforce
qed

interpretation ledgers: history_table "hash_at st" "apply_resource_delta st"
  "\<lambda>rows a. map_option rr_hash (parsed_map rows a)" "ledger_ok st" for st
proof
  fix s t s' m t' k q
  assume a: "ledger_ok st s t" "s < s'" "apply_resource_delta st s' m t = Inr t'"
  then obtain ids news where c: "commit_step st s s' t t' (\<lambda>_. True) (parsed_map m) ids news"
    by (rule full_commit_step)
  show "ledger_ok st s' t'" by (rule commit_ledger_ok[OF c])
  show "hash_at st t' s' k = map_option rr_hash (parsed_map m k)" by (rule commit_hash_in_scope[OF c]) simp
  show "hash_at st t' q k = hash_at st t q k" if "q < s'"
    using commit_content_past[OF c that] by (simp add: hash_at_def)
qed

section \<open>Reading the past\<close>

text \<open>A history of full writes, oldest first.\<close>

fun commit_all :: "string \<Rightarrow> (int \<times> resource_row list) list \<Rightarrow> ledger \<Rightarrow> (ledger_error, ledger) result" where
  "commit_all st [] L = Inr L"
| "commit_all st ((s, rows) # ws) L = bind_result (apply_resource_delta st s rows L) (commit_all st ws)"

lemma commit_all_writes: "commit_all st ws L = ledgers.writes_all st ws L"
  by (induction st ws L rule: commit_all.induct) (auto intro!: arg_cong2[where f = bind_result])

text \<open>C24: Every past version stays readable. After any history of full writes at increasing serials, the
  resources live at the serial of any of those writes are exactly the resources that write parsed, by
  address and content hash: a later write never alters what an earlier serial shows.\<close>

theorem ledger_time_travel:
  assumes "ledger_ok st s L" and "sorted_wrt (<) (s # map fst ws)" and "commit_all st ws L = Inr L'"
    and "(q, rows) \<in> set ws"
  shows "hash_at st L' q a = map_option rr_hash (parsed_map rows a)"
  using ledgers.writes_all_view[OF assms(1,2)] assms(3,4) by (simp add: commit_all_writes)

definition empty_ledger :: ledger where
  "empty_ledger = \<lparr>ld_rows = [], ld_next_id = 0\<rparr>"

lemma empty_ledger_ok: "ledger_ok st 0 empty_ledger"
  by (simp add: ledger_ok_def empty_ledger_def no_overlap_def)

definition ex_rrow :: "string \<Rightarrow> string \<Rightarrow> resource_row" where
  "ex_rrow a h = \<lparr>rr_address = a, rr_mode = ''managed'', rr_type = ''t'', rr_name = a, rr_provider = ''p'',
     rr_module = [], rr_index_kind = ''none'', rr_index_value = None, rr_schema_version = 0,
     rr_attributes = JObj [], rr_sensitive = JArr [], rr_dependencies = JArr [], rr_hash = h\<rparr>"

definition ex_writes :: "(int \<times> resource_row list) list" where
  "ex_writes = [(1, [ex_rrow ''a'' ''h1'', ex_rrow ''b'' ''h2'']), (2, [ex_rrow ''a'' ''h3''])]"

theorem ledger_time_travel_witness:
  "hash_at ''s'' (projr (commit_all ''s'' ex_writes empty_ledger)) 1 ''b''
     = map_option rr_hash (parsed_map [ex_rrow ''a'' ''h1'', ex_rrow ''b'' ''h2''] ''b'')"
proof (rule ledger_time_travel[where s = 0 and ws = ex_writes])
  have "\<not> isl (commit_all ''s'' ex_writes empty_ledger)" by code_simp
  then show "commit_all ''s'' ex_writes empty_ledger = Inr (projr (commit_all ''s'' ex_writes empty_ledger))"
    by (cases "commit_all ''s'' ex_writes empty_ledger") auto
qed (simp_all add: empty_ledger_ok ex_writes_def)

text \<open>A full write at a higher serial always succeeds, whatever the parsed rows: no table constraint is
  violated, and the lifecycle invariant holds again: the life ranges of one address never overlap, every
  closed row ends after it began, and no serial exceeds the new one.\<close>

theorem apply_resource_delta_invariant:
  assumes "ledger_ok st s0 L" and "s0 < s"
  shows "\<exists>L'. apply_resource_delta st s rows L = Inr L' \<and> ledger_ok st s L' \<and> no_overlap L'"
proof -
  obtain ids ins where e: "apply_resource_delta st s rows L = commit_rows st s ids ins L"
    "sweep_spec st L (\<lambda>_. True) (parsed_map rows) ids ins" using full_sweep[OF assms(1)] by blast
  obtain L' where L': "apply_resource_delta st s rows L = Inr L'"
    using commit_rows_total[OF assms e(2)] e(1) by auto
  obtain i n where "commit_step st s0 s L L' (\<lambda>_. True) (parsed_map rows) i n"
    using full_commit_step[OF assms L'] .
  from commit_ledger_ok[OF this] show ?thesis using L' by (simp add: ledger_ok_def)
qed

theorem apply_resource_delta_invariant_witness:
  "\<exists>L'. apply_resource_delta ''s'' 1 [ex_rrow ''a'' ''h1''] empty_ledger = Inr L' \<and> ledger_ok ''s'' 1 L' \<and> no_overlap L'"
  by (rule apply_resource_delta_invariant[OF empty_ledger_ok]) simp

text \<open>A selected write touches only what it selects: at the new serial every selected address shows the
  parsed row's hash (or nothing when it was not parsed), every other address shows what it showed
  before, and all older serials are as they were.\<close>

theorem apply_resource_delta_selected_frame:
  assumes "ledger_ok st s0 L" and "s0 < s"
  shows "\<exists>L'. apply_resource_delta_selected st s rows sel L = Inr L' \<and> ledger_ok st s L' \<and>
    hash_at st L' s a = (if a \<in> trimmed sel then map_option rr_hash (parsed_map rows a) else hash_at st L s0 a) \<and>
    (q < s \<longrightarrow> hash_at st L' q a = hash_at st L q a)"
proof (cases "dedupe_sorted sel = []")
  case True
  then have t: "trimmed sel = {}" by (metis set_dedupe_sorted set_empty)
  have "within_serial s r" if "within_serial s0 r" for r
    using that assms(2) by (auto simp: within_serial_def split: option.splits)
  then have "ledger_ok st s L" using assms(1) by (auto simp: ledger_ok_def)
  moreover have "content_at st L s a = content_at st L s0 a"
    using open_content[OF assms(1) order_refl, of a] open_content[OF assms(1), of s a] assms(2)
    by (intro map_option_ext) simp
  ultimately show ?thesis using True t by (simp add: apply_resource_delta_selected_def hash_at_def)
next
  case False
  obtain ids ins where e: "apply_resource_delta_selected st s rows sel L = commit_rows st s ids ins L"
    "sweep_spec st L (\<lambda>a. a \<in> trimmed sel) (parsed_map rows) ids ins" using selected_sweep[OF assms(1) False] by blast
  obtain L' where L': "commit_rows st s ids ins L = Inr L'" using commit_rows_total[OF assms e(2)] by blast
  obtain news where c: "commit_step st s0 s L L' (\<lambda>a. a \<in> trimmed sel) (parsed_map rows) ids news"
    using commit_rows_step[OF L' assms e(2)] parsed_map_address by blast
  show ?thesis
    using e(1) L' commit_ledger_ok[OF c] commit_hash_in_scope[OF c, of a] commit_content_out_of_scope[OF c, of a]
      commit_content_past[OF c, of q a] by (auto simp: hash_at_def)
qed

theorem apply_resource_delta_selected_frame_witness:
  "\<exists>L'. apply_resource_delta_selected ''s'' 1 [ex_rrow ''a'' ''h1'', ex_rrow ''b'' ''h2''] [''a''] empty_ledger = Inr L' \<and>
     hash_at ''s'' L' 1 ''b'' = None"
proof -
  have "trimmed [''a''] = {''a''}" by (simp add: trim_space_def trim_left_def is_space_def)
  then show ?thesis
    using apply_resource_delta_selected_frame[OF empty_ledger_ok, of 1 "''s''" "[ex_rrow ''a'' ''h1'', ex_rrow ''b'' ''h2'']" "[''a'']" "''b''" 0]
    by (auto simp: hash_at_def content_at_def empty_ledger_def)
qed

section \<open>What the ledger remembers of an instance\<close>

lemma decode_marshal_dependencies: "decode_dependencies (marshal_dependencies deps) = Some deps"
proof -
  have "those (map Some ds) = Some ds" for ds :: "string list" by (induction ds) auto
  then show ?thesis by (simp add: decode_dependencies_def marshal_dependencies_def comp_def)
qed

lemma index_kind_text_trim [simp]: "trim_space (index_kind_text k) = index_kind_text k"
  by (cases k) (simp_all add: index_kind_text_def trim_space_def trim_left_def is_space_def)

lemma index_kind_words [simp]:
  "trim_space ''none'' = ''none''" "trim_space ''int'' = ''int''" "trim_space ''string'' = ''string''"
  by (simp_all add: trim_space_def trim_left_def is_space_def)

text \<open>The part of an instance that the columns hold; the rest is reset to its zero value.\<close>

definition remembered :: "resource_instance \<Rightarrow> resource_instance" where
  "remembered inst = zero_instance\<lparr>i_schema_version := i_schema_version inst,
     i_attributes := Some (json_or_default (i_attributes inst) (JObj [])),
     i_sensitive_attributes := Some (json_or_default (i_sensitive_attributes inst) (JArr [])),
     i_index_key := i_index_key inst, i_dependencies := i_dependencies inst\<rparr>"

text \<open>The indices that the columns can hold.\<close>

definition index_plain :: "raw \<Rightarrow> bool" where
  "index_plain k = (case k of
     None \<Rightarrow> True
   | Some (JNum n) \<Rightarrow> int64_range n
   | Some (JStr s) \<Rightarrow> \<not> json_int_literal s
   | _ \<Rightarrow> False)"

lemma row_instance:
  assumes "build_resource_row txt sha r inst = Inr row" and "index_plain (i_index_key inst)"
  shows "resource_instance_from_row row = Inr (remembered inst)"
proof -
  obtain kind val where d: "decode_index inst = Inr (kind, val)"
    using assms(1) by (auto simp: build_resource_row_def split: sum.splits)
  have row: "rr_index_kind row = index_kind_text kind"
    "rr_index_value row = (if kind \<noteq> IndexNone then Some val else None)"
    "rr_schema_version row = i_schema_version inst"
    "rr_attributes row = json_or_default (i_attributes inst) (JObj [])"
    "rr_sensitive row = json_or_default (i_sensitive_attributes inst) (JArr [])"
    "rr_dependencies row = marshal_dependencies (i_dependencies inst)"
    using assms(1) d by (auto simp: build_resource_row_def Let_def split: sum.splits)
  consider "i_index_key inst = None" "kind = IndexNone"
    | n where "i_index_key inst = Some (JNum n)" "kind = IndexInt" "val = show_int n" "int64_range n"
    | v where "i_index_key inst = Some (JStr v)" "kind = IndexString" "val = v"
    using assms(2) d by (auto simp: index_plain_def decode_index_def split: option.splits json.splits if_splits)
  then show ?thesis
    by cases (simp_all add: resource_instance_from_row_def row decode_marshal_dependencies remembered_def
        index_kind_text_def trim_space_show_int atoi_show_int Let_def)
qed

text \<open>An instance survives the ledger: for every index that the address round trip covers, the instance
  rebuilt from the row of an instance has the same index, schema version, attributes, sensitive paths
  and dependencies (an absent attribute tree becoming the empty object); nothing else of it is kept.\<close>

theorem ledger_instance_roundtrip:
  assumes "build_resource_row txt sha r inst = Inr row" and "index_plain (i_index_key inst)"
  shows "resource_instance_from_row row = Inr (remembered inst)"
  using assms by (rule row_instance)

theorem ledger_instance_roundtrip_witness:
  "resource_instance_from_row (projr (build_resource_row (\<lambda>_. []) id ex_group ex_instance)) = Inr (remembered ex_instance)"
proof (rule ledger_instance_roundtrip)
  have "\<not> isl (build_resource_row (\<lambda>_. []) id ex_group ex_instance)" by code_simp
  then show "build_resource_row (\<lambda>_. []) id ex_group ex_instance
      = Inr (projr (build_resource_row (\<lambda>_. []) id ex_group ex_instance))"
    by (cases "build_resource_row (\<lambda>_. []) id ex_group ex_instance") auto
  show "index_plain (i_index_key ex_instance)"
    by (simp add: index_plain_def ex_instance_def json_int_literal_def is_digit_def)
qed

text \<open>Two instances that differ only in their taint, provider-private data, lifecycle flag or status have one row.\<close>

lemma ledger_forgets_taint:
  "build_resource_row txt sha r (inst\<lparr>i_tainted := t, i_private := p, i_create_before_destroy := b, i_status := u\<rparr>)
     = build_resource_row txt sha r inst"
proof -
  have d: "decode_index (inst\<lparr>i_tainted := t, i_private := p, i_create_before_destroy := b, i_status := u\<rparr>) = decode_index inst"
    by (cases "i_index_key inst") (auto simp: decode_index_def split: json.splits)
  show ?thesis unfolding build_resource_row_def instance_address_base d
    by (cases "decode_index inst") (auto simp: bind_result_def split: prod.splits)
qed

text \<open>Two instances of one state with one address leave a single row.\<close>

lemma parsed_map_collision:
  "rr_address x = rr_address y \<Longrightarrow> parsed_map [x, y] (rr_address x) = Some y \<and> dom (parsed_map [x, y]) = {rr_address y}"
  by (simp add: parsed_map_def index_by_def)

section \<open>The rebuilt state describes the open rows\<close>

text \<open>A row that was built from an instance whose index the columns can hold.\<close>

definition regular :: "(json \<Rightarrow> string) \<Rightarrow> (string \<Rightarrow> string) \<Rightarrow> resource_row \<Rightarrow> bool" where
  "regular js sha row \<longleftrightarrow> (\<exists>r inst. build_resource_row js sha r inst = Inr row \<and> index_plain (i_index_key inst))"

definition group_of :: "tf_resource \<Rightarrow> string \<times> string \<times> string \<times> string \<times> string" where
  "group_of r = (r_mode r, r_type r, r_name r, r_provider r, r_module r)"

lemma build_resource_row_group:
  "group_of r = group_of r' \<Longrightarrow> build_resource_row js sha r i = build_resource_row js sha r' i"
proof -
  assume "group_of r = group_of r'"
  then have f: "r_mode r = r_mode r'" "r_type r = r_type r'" "r_name r = r_name r'" "r_provider r = r_provider r'"
    "r_module r = r_module r'" by (simp_all add: group_of_def)
  then have "group_base r = group_base r'" by (simp add: group_base_def)
  then show ?thesis unfolding build_resource_row_def instance_address_base f by simp
qed

lemma decode_index_remembered: "decode_index (remembered inst) = decode_index inst"
proof -
  have k: "i_index_key (remembered inst) = i_index_key inst" by (simp add: remembered_def)
  show ?thesis unfolding decode_index_def k by simp
qed

lemma build_resource_row_fields:
  assumes "build_resource_row js sha r inst = Inr row"
  shows "row_group row = group_of r"
  using assms by (auto simp: build_resource_row_def row_group_def group_of_def Let_def split: sum.splits)

lemma rebuild_row:
  assumes "build_resource_row js sha r inst = Inr row"
  shows "build_resource_row js sha r (remembered inst) = Inr row"
proof -
  have f: "i_schema_version (remembered inst) = i_schema_version inst"
    "i_dependencies (remembered inst) = i_dependencies inst"
    "json_or_default (i_attributes (remembered inst)) (JObj []) = json_or_default (i_attributes inst) (JObj [])"
    "json_or_default (i_sensitive_attributes (remembered inst)) (JArr []) = json_or_default (i_sensitive_attributes inst) (JArr [])"
    by (simp_all add: remembered_def json_or_default_def)
  show ?thesis using assms unfolding build_resource_row_def instance_address_base decode_index_remembered f .
qed

text \<open>The instances of a list of groups, each with the identity of its group.\<close>

definition grouped :: "tf_resource list \<Rightarrow> ((string \<times> string \<times> string \<times> string \<times> string) \<times> resource_instance) list" where
  "grouped rs = concat (map (\<lambda>r. map (\<lambda>i. (group_of r, i)) (r_instances r)) rs)"

lemma grouped_simps [simp]:
  "grouped [] = []" "grouped (r # rs) = map (\<lambda>i. (group_of r, i)) (r_instances r) @ grouped rs"
  "grouped (rs @ rs') = grouped rs @ grouped rs'"
  by (simp_all add: grouped_def)

lemma add_to_group:
  "distinct (map group_of rs) \<Longrightarrow> g \<in> group_of ` set rs \<Longrightarrow>
   mset (grouped (map (\<lambda>r. if group_of r = g then r\<lparr>r_instances := r_instances r @ [i]\<rparr> else r) rs))
     = add_mset (g, i) (mset (grouped rs))"
proof (induction rs)
  case (Cons r rs)
  let ?f = "\<lambda>r. if group_of r = g then r\<lparr>r_instances := r_instances r @ [i]\<rparr> else r"
  show ?case
  proof (cases "group_of r = g")
    case True
    then have "map ?f rs = rs" using Cons.prems(1) by (intro map_idI) (auto, metis imageI)
    then show ?thesis using True by (simp add: group_of_def)
  next
    case False
    then show ?thesis using Cons by auto
  qed
qed simp

lemma group_loop_grouped:
  "group_loop rows out = Inr rs \<Longrightarrow> distinct (map group_of out) \<Longrightarrow>
   mset (grouped rs) = mset (grouped out) +
     mset (map (\<lambda>row. (row_group row, projr (resource_instance_from_row row))) rows)"
proof (induction rows arbitrary: out)
  case (Cons row rows)
  let ?g = "row_group row"
  let ?out = "if list_ex (\<lambda>r. group_of r = ?g) out then out
     else out @ [\<lparr>r_mode = rr_mode row, r_type = rr_type row, r_name = rr_name row,
       r_provider = rr_provider row, r_module = rr_module row, r_instances = []\<rparr>]"
  obtain i where i: "resource_instance_from_row row = Inr i"
    using Cons.prems(1) by (auto simp: Let_def)
  let ?new = "map (\<lambda>r. if group_of r = ?g then r\<lparr>r_instances := r_instances r @ [i]\<rparr> else r) ?out"
  have loop: "group_loop rows ?new = Inr rs"
    using Cons.prems(1) i unfolding group_loop.simps(2) Let_def group_of_def[symmetric] by simp
  have "group_of \<lparr>r_mode = rr_mode row, r_type = rr_type row, r_name = rr_name row,
      r_provider = rr_provider row, r_module = rr_module row, r_instances = []\<rparr> = ?g"
    by (simp add: group_of_def row_group_def)
  then have d: "distinct (map group_of ?out)" and mem: "?g \<in> group_of ` set ?out"
    and same: "mset (grouped ?out) = mset (grouped out)"
    using Cons.prems(2) by (auto simp: list_ex_iff image_iff) metis+
  have eq: "map group_of ?new = map group_of ?out" by (simp add: group_of_def)
  have "distinct (map group_of ?new)" unfolding eq by (rule d)
  then have "mset (grouped rs) = mset (grouped ?new) +
      mset (map (\<lambda>row. (row_group row, projr (resource_instance_from_row row))) rows)"
    by (rule Cons.IH[OF loop])
  also have "mset (grouped ?new) = add_mset (?g, i) (mset (grouped out))"
    using add_to_group[OF d mem, of i] same by simp
  finally show ?case using i by simp
qed simp

lemma group_loop_total:
  "\<forall>row \<in> set rows. \<exists>i. resource_instance_from_row row = Inr i \<Longrightarrow> \<exists>rs. group_loop rows out = Inr rs"
proof (induction rows arbitrary: out)
  case (Cons row rows)
  then obtain i where "resource_instance_from_row row = Inr i" by auto
  then show ?case using Cons by (simp add: Let_def)
qed simp

lemma build_resource_rows_grouped:
  "build_resource_rows js sha s = map_result (\<lambda>(g, i). build_resource_row js sha
      \<lparr>r_mode = fst g, r_type = fst (snd g), r_name = fst (snd (snd g)), r_provider = fst (snd (snd (snd g))),
       r_module = snd (snd (snd (snd g))), r_instances = []\<rparr> i) (grouped (st_resources s))"
proof -
  have map_result_map: "map_result f (map h xs) = map_result (f \<circ> h) xs" for f :: "'b \<Rightarrow> ('e, 'c) result" and h :: "'a \<Rightarrow> 'b" and xs
    by (induction xs) auto
  have "grouped (st_resources s) = map (\<lambda>(r, i). (group_of r, i))
      (concat (map (\<lambda>r. map (\<lambda>i. (r, i)) (r_instances r)) (st_resources s)))"
    by (simp add: grouped_def map_concat comp_def)
  moreover have "(\<lambda>(r, i). build_resource_row js sha r i) = (\<lambda>(g, i). build_resource_row js sha
      \<lparr>r_mode = fst g, r_type = fst (snd g), r_name = fst (snd (snd g)), r_provider = fst (snd (snd (snd g))),
       r_module = snd (snd (snd (snd g))), r_instances = []\<rparr> i) \<circ> (\<lambda>(r, i). (group_of r, i))"
    by (intro ext) (auto intro: build_resource_row_group simp: group_of_def)
  ultimately show ?thesis unfolding build_resource_rows_def by (simp add: map_result_map)
qed

lemma rebuild_regular:
  assumes "regular js sha row"
  shows "\<exists>i. resource_instance_from_row row = Inr i \<and> index_plain (i_index_key i) \<and>
     (\<forall>r. group_of r = row_group row \<longrightarrow> build_resource_row js sha r i = Inr row)"
proof -
  obtain r inst where b: "build_resource_row js sha r inst = Inr row" "index_plain (i_index_key inst)"
    using assms by (auto simp: regular_def)
  have "build_resource_row js sha r' (remembered inst) = Inr row" if "group_of r' = row_group row" for r'
    using rebuild_row[OF b(1)] build_resource_row_group[of r' r] build_resource_row_fields[OF b(1)] that by simp
  moreover have "index_plain (i_index_key (remembered inst))" using b(2) by (simp add: remembered_def)
  ultimately show ?thesis using row_instance[OF b] by blast
qed

lemma map_result_mset:
  assumes "mset ps = mset (map h rows)" and "\<And>row. row \<in> set rows \<Longrightarrow> f (h row) = Inr row"
  shows "\<exists>rows'. map_result f ps = Inr rows' \<and> mset rows' = mset rows"
proof -
  let ?g = "\<lambda>p. projr (f p)"
  have "\<exists>row. f p = Inr row" if "p \<in> set ps" for p
    using that mset_eq_setD[OF assms(1)] assms(2) by auto
  then have "map_result f ps = Inr (map ?g ps)" by (intro map_result_total) force
  moreover have "mset (map ?g ps) = mset rows"
  proof -
    have "mset (map ?g ps) = mset (map (?g \<circ> h) rows)"
      using arg_cong[OF assms(1), of "image_mset ?g"] by (simp add: multiset.map_comp)
    also have "map (?g \<circ> h) rows = rows" using assms(2) by (intro map_idI) simp
    finally show ?thesis .
  qed
  ultimately show ?thesis by blast
qed

lemma rebuilt_rows:
  assumes reg: "\<forall>r \<in> set (ld_rows L). is_open st r \<longrightarrow> regular js sha (lr_row r)"
  shows "\<exists>resources. build_current_resources L st = Inr resources \<and>
     (\<forall>r \<in> set resources. \<forall>i \<in> set (r_instances r). index_plain (i_index_key i)) \<and>
     (\<forall>s. st_resources s = resources \<longrightarrow> (\<exists>rows. build_resource_rows js sha s = Inr rows \<and>
        mset rows = mset (map lr_row (filter (is_open st) (ld_rows L)))))"
proof -
  let ?rows = "load_open_state_rows L st"
  have m: "mset ?rows = mset (map lr_row (filter (is_open st) (ld_rows L)))"
    by (simp add: load_open_state_rows_def)
  have reg': "regular js sha row" if "row \<in> set ?rows" for row
    using that reg by (auto simp: load_open_state_rows_def)
  then obtain resources where rs: "group_loop ?rows [] = Inr resources"
    using group_loop_total[of ?rows "[]"] rebuild_regular by meson
  let ?h = "\<lambda>row. (row_group row, projr (resource_instance_from_row row))"
  have g: "mset (grouped resources) = mset (map ?h ?rows)" using group_loop_grouped[OF rs] by simp
  have "\<exists>rows. build_resource_rows js sha s = Inr rows \<and> mset rows = mset ?rows" if "st_resources s = resources" for s
    unfolding build_resource_rows_grouped that
  proof (rule map_result_mset[OF g])
    fix row assume "row \<in> set ?rows"
    then obtain i where "resource_instance_from_row row = Inr i"
      "\<forall>r. group_of r = row_group row \<longrightarrow> build_resource_row js sha r i = Inr row"
      using rebuild_regular[OF reg'] by blast
    then show "(case ?h row of (g, i) \<Rightarrow> build_resource_row js sha \<lparr>r_mode = fst g, r_type = fst (snd g),
        r_name = fst (snd (snd g)), r_provider = fst (snd (snd (snd g))), r_module = snd (snd (snd (snd g))),
        r_instances = []\<rparr> i) = Inr row"
      by (simp add: group_of_def row_group_def)
  qed
  moreover have "index_plain (i_index_key i)" if "r \<in> set resources" "i \<in> set (r_instances r)" for r i
  proof -
    have "(group_of r, i) \<in> set (grouped resources)" using that by (auto simp: grouped_def)
    then obtain row where "row \<in> set ?rows" "i = projr (resource_instance_from_row row)"
      using mset_eq_setD[OF g] by auto
    then show ?thesis using rebuild_regular[OF reg'] by force
  qed
  ultimately show ?thesis using rs m unfolding build_current_resources_def by metis
qed

text \<open>So a version that stores the rebuilt state is shown by the ledger as written.\<close>

lemma open_rows_shown:
  assumes ok: "ledger_ok st s0 L" and "s0 \<le> q" and m: "mset rows = mset (map lr_row (filter (is_open st) (ld_rows L)))"
  shows "hash_at st L q a = map_option rr_hash (parsed_map rows a)"
proof -
  have "distinct (map (\<lambda>r. lr_address r) (filter (is_open st) (ld_rows L)))"
  proof -
    have d: "distinct (filter (is_open st) (ld_rows L))" using ok by (simp add: ledger_ok_def distinct_map)
    have "inj_on (\<lambda>r. lr_address r) (set (filter (is_open st) (ld_rows L)))"
    proof (rule inj_onI)
      fix r t assume "r \<in> set (filter (is_open st) (ld_rows L))" "t \<in> set (filter (is_open st) (ld_rows L))" "lr_address r = lr_address t"
      then have "open_row st L (lr_address r) r" "open_row st L (lr_address r) t" by (auto simp: open_row_def)
      then show "r = t" using load_open_iff(1)[OF ok] by (metis option.inject)
    qed
    then show ?thesis using d by (simp add: distinct_map)
  qed
  then have "distinct (map rr_address (map lr_row (filter (is_open st) (ld_rows L))))" by (simp add: comp_def)
  moreover have "mset (map rr_address rows) = mset (map rr_address (map lr_row (filter (is_open st) (ld_rows L))))"
    by (simp only: mset_map m)
  ultimately have d: "distinct (map rr_address rows)" by (metis mset_eq_imp_distinct_iff)
  have "content_at st L q a = parsed_map rows a"
  proof (rule map_option_ext)
    fix x
    show "content_at st L q a = Some x \<longleftrightarrow> parsed_map rows a = Some x"
      using open_content[OF ok assms(2), of a x] index_by_distinct[OF d, of a x] mset_eq_setD[OF m]
      by (auto simp: parsed_map_def open_row_def)
  qed
  then show ?thesis by (simp add: hash_at_def)
qed

text \<open>Rows stay regular.\<close>

lemma commit_regular:
  assumes c: "commit_step st s0 s L L' scope parsed ids news"
    and "\<forall>r \<in> set (ld_rows L). regular js sha (lr_row r)" and "\<And>a row. parsed a = Some row \<Longrightarrow> regular js sha row"
  shows "\<forall>r \<in> set (ld_rows L'). regular js sha (lr_row r)"
proof
  fix r' assume "r' \<in> set (ld_rows L')"
  then have "r' \<in> close_row ids s ` set (ld_rows L) \<or> r' \<in> set news" by (simp add: commit_stepD(5)[OF c])
  then show "regular js sha (lr_row r')"
  proof
    assume "r' \<in> close_row ids s ` set (ld_rows L)"
    then show ?thesis using assms(2) by auto
  next
    assume "r' \<in> set news"
    then have "lr_row r' \<in> lr_row ` set news" by (rule imageI)
    then show ?thesis using assms(3)[of "lr_address r'" "lr_row r'"] inserted_iff[OF c, of "lr_row r'"] by simp
  qed
qed

lemma built_regular:
  assumes "build_resource_rows js sha s = Inr rows"
    and "\<forall>r \<in> set (st_resources s). \<forall>i \<in> set (r_instances r). index_plain (i_index_key i)" and "row \<in> set rows"
  shows "regular js sha row"
proof -
  let ?ps = "concat (map (\<lambda>r. map (\<lambda>i. (r, i)) (r_instances r)) (st_resources s))"
  let ?f = "\<lambda>p. case p of (r, inst) \<Rightarrow> build_resource_row js sha r inst"
  have all: "list_all2 (\<lambda>p row. ?f p = Inr row) ?ps rows"
    using assms(1) by (simp add: build_resource_rows_def map_result_Inr_iff)
  obtain j where j: "j < length rows" "rows ! j = row" using assms(3) by (auto simp: in_set_conv_nth)
  have "?f (?ps ! j) = Inr row" using list_all2_nthD2[OF all j(1)] j(2) by simp
  moreover have "?ps ! j \<in> set ?ps" by (rule nth_mem) (use j(1) list_all2_lengthD[OF all] in simp)
  ultimately have "?f (?ps ! j) = Inr row" "?ps ! j \<in> set ?ps" by blast+
  then obtain r inst where "(r, inst) \<in> set ?ps" "build_resource_row js sha r inst = Inr row"
    by (cases "?ps ! j") simp
  then show ?thesis using assms(2) by (auto simp: regular_def)
qed

end
