(* ===== verification/Tables.thy ===== *)
theory Tables
  imports Ledger StateMerge
begin

text \<open>
  The tables of \<^verbatim>\<open>pkg/store\<close> that hold states, their versions, locks, outputs and events, the caller's
  principal, and the lookups and the upsert of a state row that every write starts with (state.go,
  scope.go, lifecycle.go, tenant_lifecycle_enforcement.go, environment_lock_defaults.go).

  One store operation is one database transaction: it returns the new tables, or an error, and then the
  tables stay as they were. The transactions of one state run one after the other, since each starts by
  writing the row of the state; the operations on one exact address do not, and have an argument for what runs
  between (\<open>ResourceMutations\<close>). A stored state document is the state it decodes to (\<^verbatim>\<open>raw_state\<close> holds
  what \<^verbatim>\<open>json.Marshal\<close> wrote). Identifiers are the texts of a counter; lineages are canonical UUID texts.
  The unified database is modelled (\<^verbatim>\<open>isolated\<close> false) and its tenants table exists.
\<close>

section \<open>Rows\<close>

record tenant_row =
  tn_status :: string
  tn_max_state_resources :: int
  tn_max_environment_resources :: int

record state_row =
  sr_id :: string
  sr_tenant :: string
  sr_name :: string
  sr_lineage :: "string option"
  sr_status :: string
  sr_exclusive :: bool
  sr_coexistence :: string
  sr_current :: "string option"

record version_row =
  vr_id :: string
  vr_state_id :: string
  vr_tenant :: string
  vr_serial :: int
  vr_terraform_version :: string
  vr_raw :: tf_state
  vr_source :: string
  vr_created_by :: string

record lock_info =
  li_id :: string
  li_operation :: string
  li_info :: string
  li_who :: string
  li_version :: string
  li_created :: string
  li_path :: string

record lock_row =
  lk_tenant :: string
  lk_state_id :: string
  lk_info :: lock_info
  lk_source_serial :: "int option"
  lk_acquired_at :: nat

record output_row =
  or_tenant :: string
  or_version_id :: string
  or_name :: string
  or_value :: json
  or_type :: json
  or_sensitive :: bool

record event_row =
  ev_kind :: string
  ev_tenant :: string
  ev_state_id :: string
  ev_version_id :: "string option"
  ev_actor :: string
  ev_payload :: "(string \<times> json) list"

record db =
  db_tenants :: "string \<rightharpoonup> tenant_row"
  db_states :: "state_row list"
  db_versions :: "version_row list"
  db_locks :: "lock_row list"
  db_ledger :: ledger
  db_outputs :: "output_row list"
  db_events :: "event_row list"
  db_next :: nat

datatype store_error =
    InvalidState
  | InvalidLifecycle string
  | TenantNotActive string
  | StateNotActive string
  | StateNotFound
  | StateLocked
  | LockMismatch
  | AlreadyLocked lock_info
  | SerialConflict
  | EntitlementExceeded int int
  | MergeFailed merge_error
  | LedgerFailed ledger_error
  | OutputsFailed
  | ReadBaseFailed
  | InvalidArgument

text \<open>A failing step of another component keeps its own error inside the store's.\<close>

definition lift_error :: "('e \<Rightarrow> 'f) \<Rightarrow> ('e, 'a) result \<Rightarrow> ('f, 'a) result" where
  "lift_error f r = (case r of Inl e \<Rightarrow> Inl (f e) | Inr a \<Rightarrow> Inr a)"

lemma lift_error_Inr [simp]: "lift_error f r = Inr a \<longleftrightarrow> r = Inr a"
  by (cases r) (auto simp: lift_error_def)

lemma lift_error_simps [simp]: "lift_error f (Inl e) = Inl (f e)" "lift_error f (Inr a) = Inr a"
  by (simp_all add: lift_error_def)

definition fresh_id :: "db \<Rightarrow> string" where
  "fresh_id d = show_nat (db_next d)"

definition log_event ::
    "string \<Rightarrow> string \<Rightarrow> string \<Rightarrow> string option \<Rightarrow> string \<Rightarrow> (string \<times> json) list \<Rightarrow> db \<Rightarrow> db" where
  "log_event kind tenant sid vid actor payload d =
     d\<lparr>db_events := db_events d @ [\<lparr>ev_kind = kind, ev_tenant = tenant, ev_state_id = sid,
       ev_version_id = vid, ev_actor = actor, ev_payload = payload\<rparr>]\<rparr>"

section \<open>The caller\<close>

record principal =
  pr_tenant :: string
  pr_workspace :: string
  pr_environment :: string
  pr_lock_default :: string

datatype state_creator = CreatorUnknown | CreatorBackend | CreatorKL

definition lower_char :: "char \<Rightarrow> char" where
  "lower_char c = (let n = (of_char c :: nat) in if 65 \<le> n \<and> n \<le> 90 then char_of (n + 32) else c)"

definition to_lower :: "string \<Rightarrow> string" where
  "to_lower s = map lower_char s"

text \<open>\<^verbatim>\<open>strings.EqualFold\<close> on ASCII texts.\<close>

definition equal_fold :: "string \<Rightarrow> string \<Rightarrow> bool" where
  "equal_fold s t \<longleftrightarrow> to_lower s = to_lower t"

definition normalize_lock_default :: "string \<Rightarrow> string" where
  "normalize_lock_default raw =
     (let mode = to_lower (trim_space raw)
      in if mode = [] \<or> mode = ''auto'' then ''auto''
         else if mode = ''vanilla'' then ''vanilla''
         else if mode = ''kilolock'' then ''kilolock''
         else [])"

definition initial_state_policy :: "principal \<Rightarrow> state_creator \<Rightarrow> bool \<times> string" where
  "initial_state_policy p creator =
     (let mode = normalize_lock_default (pr_lock_default p)
      in if mode = ''vanilla'' then (True, ''strict'')
         else if mode = ''kilolock'' then (False, ''warn'')
         else if mode = ''auto'' then
           (case creator of CreatorBackend \<Rightarrow> (True, ''strict'') | CreatorKL \<Rightarrow> (False, ''warn'')
              | CreatorUnknown \<Rightarrow> (False, ''warn''))
         else (False, ''warn''))"

section \<open>Lifecycle\<close>

definition parse_lifecycle_status :: "string \<Rightarrow> (store_error, string) result" where
  "parse_lifecycle_status raw =
     (let s = to_lower (trim_space raw)
      in if s = ''active'' \<or> s = ''suspended'' \<or> s = ''archived'' then Inr s else Inl (InvalidLifecycle raw))"

definition enforce_tenant_active :: "db \<Rightarrow> string \<Rightarrow> (store_error, unit) result" where
  "enforce_tenant_active d tenant =
     (case db_tenants d tenant of
        None \<Rightarrow> Inr ()
      | Some t \<Rightarrow> if tn_status t = ''active'' then Inr () else Inl (TenantNotActive (tn_status t)))"

text \<open>SQL's \<open>LIKE\<close>: \<open>%\<close> is any text, \<open>_\<close> any one character and a backslash quotes the next one.\<close>

fun like :: "string \<Rightarrow> string \<Rightarrow> bool" where
  "like [] s \<longleftrightarrow> s = []"
| "like (c # p) [] \<longleftrightarrow> c = CHR ''%'' \<and> like p []"
| "like (c # p) (x # s) \<longleftrightarrow>
     (if c = CHR ''%'' then like p (x # s) \<or> like (c # p) s
      else if c = CHR ''_'' then like p s
      else if c = backslash then (case p of [] \<Rightarrow> False | e # q \<Rightarrow> e = x \<and> like q s)
      else c = x \<and> like p s)"

text \<open>The row that \<open>ORDER BY (name = $1 first) LIMIT 1\<close> picks among the rows that match.\<close>

definition pick_named :: "string \<Rightarrow> state_row list \<Rightarrow> state_row option" where
  "pick_named name rows = (case find (\<lambda>r. sr_name r = name) rows of
     Some r \<Rightarrow> Some r | None \<Rightarrow> find (\<lambda>r. True) rows)"

definition archived_pattern :: "string \<Rightarrow> string" where
  "archived_pattern name = name @ ''--archived-%''"

definition match_any_lifecycle :: "db \<Rightarrow> string \<Rightarrow> string \<Rightarrow> state_row option" where
  "match_any_lifecycle d tenant name =
     pick_named name (filter (\<lambda>r. sr_tenant r = tenant \<and>
       (sr_name r = name \<or> sr_status r = ''archived'' \<and> like (archived_pattern name) (sr_name r))) (db_states d))"

text \<open>The active state of a tenant by its name.\<close>

definition find_state :: "db \<Rightarrow> string \<Rightarrow> string \<Rightarrow> state_row option" where
  "find_state d tenant name =
     find (\<lambda>r. sr_name r = name \<and> sr_tenant r = tenant \<and> sr_status r = ''active'') (db_states d)"

definition state_by_id :: "db \<Rightarrow> string \<Rightarrow> state_row option" where
  "state_by_id d sid = find (\<lambda>r. sr_id r = sid) (db_states d)"

definition update_state :: "string \<Rightarrow> (state_row \<Rightarrow> state_row) \<Rightarrow> db \<Rightarrow> db" where
  "update_state sid f d = d\<lparr>db_states := map (\<lambda>r. if sr_id r = sid then f r else r) (db_states d)\<rparr>"

section \<open>Creating the row of a state\<close>

definition check_upsert :: "state_row option \<Rightarrow> string \<Rightarrow> string \<Rightarrow> (store_error, unit) result" where
  "check_upsert existing name lineage =
     (case existing of
        None \<Rightarrow> Inr ()
      | Some e \<Rightarrow>
          bind_result (parse_lifecycle_status (sr_status e)) (\<lambda>status.
            (let old = trim_space (case sr_lineage e of None \<Rightarrow> [] | Some l \<Rightarrow> l);
                 new = trim_space lineage
             in if sr_name e = name \<and> status \<noteq> ''active'' then Inl (StateNotActive status)
                else if sr_name e \<noteq> name \<and> status \<noteq> ''active'' \<and> (new = [] \<or> old = [] \<or> old = new)
                  then Inl (StateNotActive status)
                else Inr ())))"

definition upsert_state ::
    "principal \<Rightarrow> string \<Rightarrow> string \<Rightarrow> state_creator \<Rightarrow> db \<Rightarrow> (store_error, string \<times> db) result" where
  "upsert_state p name lineage creator d =
     (let tenant = pr_tenant p;
          lineage_arg = (if lineage \<noteq> [] then Some lineage else None);
          (exclusive, mode) = initial_state_policy p creator
      in bind_result (check_upsert (match_any_lifecycle d tenant name) name lineage) (\<lambda>_.
           case find (\<lambda>r. sr_tenant r = tenant \<and> sr_name r = name) (db_states d) of
             Some r \<Rightarrow> Inr (sr_id r, update_state (sr_id r)
               (\<lambda>r. r\<lparr>sr_lineage := (case sr_lineage r of None \<Rightarrow> lineage_arg | Some l \<Rightarrow> Some l)\<rparr>) d)
           | None \<Rightarrow> Inr (fresh_id d, d\<lparr>db_states := db_states d @
               [\<lparr>sr_id = fresh_id d, sr_tenant = tenant, sr_name = name, sr_lineage = lineage_arg,
                 sr_status = ''active'', sr_exclusive = exclusive, sr_coexistence = mode, sr_current = None\<rparr>],
               db_next := Suc (db_next d)\<rparr>)))"

section \<open>Reading versions\<close>

definition version_by_id :: "db \<Rightarrow> string \<Rightarrow> version_row option" where
  "version_by_id d vid = find (\<lambda>v. vr_id v = vid) (db_versions d)"

text \<open>The join of a state with its current version.\<close>

definition current_version :: "db \<Rightarrow> state_row \<Rightarrow> version_row option" where
  "current_version d r = (case sr_current r of None \<Rightarrow> None | Some vid \<Rightarrow> version_by_id d vid)"

definition read_current_version_raw :: "db \<Rightarrow> string \<Rightarrow> (int \<times> tf_state) option" where
  "read_current_version_raw d sid =
     (case state_by_id d sid of None \<Rightarrow> None | Some r \<Rightarrow>
        map_option (\<lambda>v. (vr_serial v, vr_raw v)) (current_version d r))"

definition read_version_raw_at_serial :: "db \<Rightarrow> string \<Rightarrow> int \<Rightarrow> (string \<times> tf_state) option" where
  "read_version_raw_at_serial d sid serial =
     map_option (\<lambda>v. (vr_id v, vr_raw v))
       (find (\<lambda>v. vr_state_id v = sid \<and> vr_serial v = serial) (db_versions d))"

definition state_serials :: "db \<Rightarrow> string \<Rightarrow> int list" where
  "state_serials d sid = map vr_serial (filter (\<lambda>v. vr_state_id v = sid) (db_versions d))"

text \<open>\<^verbatim>\<open>SELECT COALESCE(MAX(serial), 0) + 1\<close>.\<close>

definition max_serial :: "db \<Rightarrow> string \<Rightarrow> int" where
  "max_serial d sid = (case state_serials d sid of [] \<Rightarrow> 0 | s # ss \<Rightarrow> foldl max s ss)"

definition next_serial :: "db \<Rightarrow> string \<Rightarrow> int" where
  "next_serial d sid = max_serial d sid + 1"

text \<open>\<^verbatim>\<open>GetCurrentStateInfo\<close>: state id, version id, serial and document.\<close>

definition get_current_state_info :: "db \<Rightarrow> string \<Rightarrow> string \<Rightarrow> (store_error, string \<times> string \<times> int \<times> tf_state) result" where
  "get_current_state_info d tenant name =
     (case find_state d tenant name of None \<Rightarrow> Inl StateNotFound | Some r \<Rightarrow>
       (case current_version d r of None \<Rightarrow> Inl StateNotFound
        | Some v \<Rightarrow> Inr (sr_id r, vr_id v, vr_serial v, vr_raw v)))"

definition get_current_state :: "db \<Rightarrow> string \<Rightarrow> string \<Rightarrow> (store_error, tf_state) result" where
  "get_current_state d tenant name =
     (case find_state d tenant name of None \<Rightarrow> Inl StateNotFound | Some r \<Rightarrow>
       (case current_version d r of None \<Rightarrow> Inl StateNotFound | Some v \<Rightarrow> Inr (vr_raw v)))"

definition get_state_raw_at_serial :: "db \<Rightarrow> string \<Rightarrow> string \<Rightarrow> int \<Rightarrow> (store_error, tf_state) result" where
  "get_state_raw_at_serial d tenant name serial =
     (if trim_space name = [] then Inl StateNotFound
      else if serial \<le> 0 then Inl StateNotFound
      else case find_state d tenant name of None \<Rightarrow> Inl StateNotFound | Some r \<Rightarrow>
        (case read_version_raw_at_serial d (sr_id r) serial of
           None \<Rightarrow> Inl StateNotFound | Some (vid, raw) \<Rightarrow> Inr raw))"

definition lookup_state_version_id :: "db \<Rightarrow> string \<Rightarrow> int \<Rightarrow> (store_error, string) result" where
  "lookup_state_version_id d sid serial =
     (if sid = [] then Inl InvalidArgument
      else case read_version_raw_at_serial d sid serial of
        None \<Rightarrow> Inl StateNotFound | Some (vid, raw) \<Rightarrow> Inr vid)"

lemma current_version_cong: "db_versions d' = db_versions d \<Longrightarrow> current_version d' r = current_version d r"
  by (simp add: current_version_def version_by_id_def split: option.splits)

section \<open>The constraints of the schema\<close>

definition state_ids :: "db \<Rightarrow> string set" where
  "state_ids d = sr_id ` set (db_states d)"

definition issued :: "db \<Rightarrow> string set" where
  "issued d = show_nat ` {..<db_next d}"

definition states_ok :: "db \<Rightarrow> bool" where
  "states_ok d \<longleftrightarrow> distinct (map sr_id (db_states d)) \<and>
     distinct (map (\<lambda>r. (sr_tenant r, sr_name r)) (db_states d)) \<and> state_ids d \<subseteq> issued d \<and>
     sr_status ` set (db_states d) \<subseteq> {''active'', ''suspended'', ''archived''}"

definition versions_ok :: "db \<Rightarrow> bool" where
  "versions_ok d \<longleftrightarrow> distinct (map vr_id (db_versions d)) \<and>
     distinct (map (\<lambda>v. (vr_state_id v, vr_serial v)) (db_versions d)) \<and>
     vr_id ` set (db_versions d) \<subseteq> issued d \<and> vr_state_id ` set (db_versions d) \<subseteq> state_ids d \<and>
     or_version_id ` set (db_outputs d) \<subseteq> vr_id ` set (db_versions d)"

definition locks_ok :: "db \<Rightarrow> bool" where
  "locks_ok d \<longleftrightarrow> distinct (map (\<lambda>l. (lk_state_id l, li_id (lk_info l))) (db_locks d)) \<and>
     lk_state_id ` set (db_locks d) \<subseteq> state_ids d"

definition current_ok :: "db \<Rightarrow> bool" where
  "current_ok d \<longleftrightarrow> (\<forall>r \<in> set (db_states d). \<forall>vid. sr_current r = Some vid \<longrightarrow>
     (sr_id r, vid) \<in> (\<lambda>v. (vr_state_id v, vr_id v)) ` set (db_versions d))"

definition rows_ok :: "db \<Rightarrow> bool" where
  "rows_ok d \<longleftrightarrow> lr_state_id ` set (ld_rows (db_ledger d)) \<subseteq> state_ids d"

definition db_ok :: "db \<Rightarrow> bool" where
  "db_ok d \<longleftrightarrow> states_ok d \<and> versions_ok d \<and> locks_ok d \<and> current_ok d \<and> rows_ok d"

lemmas db_ok_defs = db_ok_def states_ok_def versions_ok_def locks_ok_def current_ok_def rows_ok_def

lemma fresh_not_issued: "fresh_id d \<notin> issued d"
  unfolding fresh_id_def issued_def
proof
  assume "show_nat (db_next d) \<in> show_nat ` {..<db_next d}"
  then obtain n where n: "n < db_next d" "show_nat (db_next d) = show_nat n" by auto
  then have "digits_val (show_nat (db_next d)) = digits_val (show_nat n)" by simp
  then show False using n(1) by simp
qed

lemma fresh_not_state: "db_ok d \<Longrightarrow> fresh_id d \<notin> state_ids d"
  using fresh_not_issued by (auto simp: db_ok_defs)

lemma issued_next: "issued (d\<lparr>db_next := Suc (db_next d)\<rparr>) = insert (fresh_id d) (issued d)"
  by (simp add: issued_def fresh_id_def lessThan_Suc)

text \<open>Changes of one column of a state, of the events and of the locks keep the constraints.\<close>

definition same_keys :: "(state_row \<Rightarrow> state_row) \<Rightarrow> bool" where
  "same_keys f \<longleftrightarrow> (\<forall>r. sr_id (f r) = sr_id r \<and> sr_tenant (f r) = sr_tenant r \<and> sr_name (f r) = sr_name r \<and>
     sr_status (f r) = sr_status r)"

lemma update_state_simps [simp]:
  "db_versions (update_state sid f d) = db_versions d" "db_locks (update_state sid f d) = db_locks d"
  "db_ledger (update_state sid f d) = db_ledger d" "db_outputs (update_state sid f d) = db_outputs d"
  "db_tenants (update_state sid f d) = db_tenants d" "db_next (update_state sid f d) = db_next d"
  "db_events (update_state sid f d) = db_events d"
  by (simp_all add: update_state_def)

lemma log_event_simps [simp]:
  "db_versions (log_event k t sid v a p d) = db_versions d" "db_locks (log_event k t sid v a p d) = db_locks d"
  "db_ledger (log_event k t sid v a p d) = db_ledger d" "db_outputs (log_event k t sid v a p d) = db_outputs d"
  "db_tenants (log_event k t sid v a p d) = db_tenants d" "db_next (log_event k t sid v a p d) = db_next d"
  "db_states (log_event k t sid v a p d) = db_states d"
  "state_ids (log_event k t sid v a p d) = state_ids d" "issued (log_event k t sid v a p d) = issued d"
  by (simp_all add: log_event_def state_ids_def issued_def)

lemma map_same_keys:
  "same_keys f \<Longrightarrow> map sr_id (map (\<lambda>r. if sr_id r = sid then f r else r) rs) = map sr_id rs \<and>
     map (\<lambda>r. (sr_tenant r, sr_name r)) (map (\<lambda>r. if sr_id r = sid then f r else r) rs)
       = map (\<lambda>r. (sr_tenant r, sr_name r)) rs"
  by (auto simp: same_keys_def)

lemma update_state_keys [simp]:
  assumes "same_keys f"
  shows "map sr_id (db_states (update_state sid f d)) = map sr_id (db_states d)"
    and "map (\<lambda>r. (sr_tenant r, sr_name r)) (db_states (update_state sid f d))
       = map (\<lambda>r. (sr_tenant r, sr_name r)) (db_states d)"
    and "state_ids (update_state sid f d) = state_ids d"
    and "sr_status ` set (db_states (update_state sid f d)) = sr_status ` set (db_states d)"
proof -
  show eqs: "map sr_id (db_states (update_state sid f d)) = map sr_id (db_states d)"
    "map (\<lambda>r. (sr_tenant r, sr_name r)) (db_states (update_state sid f d))
       = map (\<lambda>r. (sr_tenant r, sr_name r)) (db_states d)"
    using map_same_keys[OF assms, of sid "db_states d"] by (auto simp: update_state_def)
  show "state_ids (update_state sid f d) = state_ids d"
    using arg_cong[OF eqs(1), of set] by (simp add: state_ids_def)
  have "map sr_status (db_states (update_state sid f d)) = map sr_status (db_states d)"
    using assms by (auto simp: update_state_def same_keys_def)
  from arg_cong[OF this, of set]
  show "sr_status ` set (db_states (update_state sid f d)) = sr_status ` set (db_states d)" by simp
qed

lemma issued_update [simp]: "issued (update_state sid f d) = issued d"
  by (simp add: issued_def)

lemma find_map_keys:
  "same_keys f \<Longrightarrow> find (\<lambda>r. sr_id r = i) (map (\<lambda>r. if sr_id r = sid then f r else r) rs) =
     map_option (\<lambda>r. if i = sid then f r else r) (find (\<lambda>r. sr_id r = i) rs)"
  by (induction rs) (auto simp: same_keys_def)

lemma state_by_id_update:
  "same_keys f \<Longrightarrow> state_by_id (update_state sid f d) i =
     map_option (\<lambda>r. if i = sid then f r else r) (state_by_id d i)"
  using find_map_keys[of f i sid "db_states d"] by (simp add: state_by_id_def update_state_def)

lemma state_by_id_SomeD: "state_by_id d i = Some r \<Longrightarrow> r \<in> set (db_states d) \<and> sr_id r = i"
  by (auto simp: state_by_id_def find_Some_iff)

lemma state_by_id_None: "state_by_id d i = None \<longleftrightarrow> i \<notin> state_ids d"
  by (auto simp: state_by_id_def state_ids_def find_None_iff)

lemma find_distinct_key:
  "distinct (map key xs) \<Longrightarrow> x \<in> set xs \<Longrightarrow> find (\<lambda>y. key y = key x) xs = Some x"
  by (induction xs) (auto simp: image_iff)

lemma state_by_id_mem:
  "states_ok d \<Longrightarrow> r \<in> set (db_states d) \<Longrightarrow> state_by_id d (sr_id r) = Some r"
  unfolding state_by_id_def by (rule find_distinct_key) (simp_all add: states_ok_def)

lemma update_state_ok:
  assumes "db_ok d" and "same_keys f" and "\<And>r. sr_current (f r) = sr_current r"
  shows "db_ok (update_state sid f d)"
proof -
  have "current_ok (update_state sid f d)"
    using assms by (auto simp: db_ok_def current_ok_def update_state_def same_keys_def)
  then show ?thesis using assms(1,2) by (simp add: db_ok_def states_ok_def versions_ok_def locks_ok_def rows_ok_def)
qed

lemma log_event_ok [simp]: "db_ok (log_event k t sid v a p d) \<longleftrightarrow> db_ok d"
  unfolding db_ok_defs by simp

section \<open>The upserted state\<close>

definition add_state :: "state_row \<Rightarrow> db \<Rightarrow> db" where
  "add_state r d = d\<lparr>db_states := db_states d @ [r], db_next := Suc (db_next d)\<rparr>"

lemma find_snoc: "find P (xs @ [x]) = (case find P xs of Some y \<Rightarrow> Some y | None \<Rightarrow> if P x then Some x else None)"
  by (induction xs) auto

lemma state_by_id_add:
  "state_by_id (add_state r d) i = (case state_by_id d i of Some y \<Rightarrow> Some y
     | None \<Rightarrow> if sr_id r = i then Some r else None)"
  by (simp add: state_by_id_def add_state_def find_snoc)

lemma add_state_ok:
  assumes "db_ok d" and "sr_id r = fresh_id d" and "sr_current r = None"
    and "(sr_tenant r, sr_name r) \<notin> (\<lambda>r. (sr_tenant r, sr_name r)) ` set (db_states d)"
    and "sr_status r = ''active''"
  shows "db_ok (add_state r d)"
proof -
  have ids: "state_ids (add_state r d) = insert (fresh_id d) (state_ids d)"
    using assms(2) by (simp add: add_state_def state_ids_def)
  have iss: "issued (add_state r d) = insert (fresh_id d) (issued d)"
    by (simp add: add_state_def issued_def fresh_id_def lessThan_Suc)
  have "states_ok (add_state r d)"
    using assms fresh_not_state[OF assms(1)] ids iss
    by (auto simp: db_ok_def states_ok_def add_state_def state_ids_def)
  moreover have "current_ok (add_state r d)" using assms by (simp add: db_ok_def current_ok_def add_state_def)
  moreover have "versions_ok (add_state r d)" "locks_ok (add_state r d)" "rows_ok (add_state r d)"
    using assms(1) ids iss by (auto simp: db_ok_def versions_ok_def locks_ok_def rows_ok_def add_state_def)
  ultimately show ?thesis by (simp add: db_ok_def)
qed

lemma same_keys_lineage [simp]: "same_keys (\<lambda>r. r\<lparr>sr_lineage := g r\<rparr>)"
  and same_keys_exclusive [simp]: "same_keys (\<lambda>r. r\<lparr>sr_exclusive := b\<rparr>)"
  and same_keys_coexistence [simp]: "same_keys (\<lambda>r. r\<lparr>sr_coexistence := m\<rparr>)"
  and same_keys_current [simp]: "same_keys (\<lambda>r. r\<lparr>sr_current := v\<rparr>)"
  by (simp_all add: same_keys_def)

text \<open>The upsert returns an active-or-new row and touches nothing but that row's lineage.\<close>

lemma upsert_state_cases:
  assumes "upsert_state p name lineage creator d = Inr (sid, d')"
  obtains (old) r where "r \<in> set (db_states d)" "sr_tenant r = pr_tenant p" "sr_name r = name" "sr_id r = sid"
      "d' = update_state sid (\<lambda>r. r\<lparr>sr_lineage := (case sr_lineage r of
          None \<Rightarrow> (if lineage \<noteq> [] then Some lineage else None) | Some l \<Rightarrow> Some l)\<rparr>) d"
    | (new) r where "sid = fresh_id d" "sr_id r = sid" "sr_tenant r = pr_tenant p" "sr_name r = name"
      "sr_current r = None" "sr_status r = ''active''"
      "(pr_tenant p, name) \<notin> (\<lambda>r. (sr_tenant r, sr_name r)) ` set (db_states d)" "d' = add_state r d"
proof (cases "find (\<lambda>r. sr_tenant r = pr_tenant p \<and> sr_name r = name) (db_states d)")
  case None
  let ?r = "\<lparr>sr_id = fresh_id d, sr_tenant = pr_tenant p, sr_name = name,
      sr_lineage = (if lineage \<noteq> [] then Some lineage else None), sr_status = ''active'',
      sr_exclusive = fst (initial_state_policy p creator), sr_coexistence = snd (initial_state_policy p creator),
      sr_current = None\<rparr>"
  have "sid = fresh_id d" "d' = add_state ?r d"
    using assms None by (auto simp: upsert_state_def add_state_def Let_def split: prod.splits)
  moreover have "(pr_tenant p, name) \<notin> (\<lambda>r. (sr_tenant r, sr_name r)) ` set (db_states d)"
    using None by (auto simp: find_None_iff)
  ultimately show ?thesis using new[of ?r] by simp
next
  case (Some r)
  then have r: "r \<in> set (db_states d)" "sr_tenant r = pr_tenant p" "sr_name r = name"
    by (auto simp: find_Some_iff)
  show ?thesis
    by (rule old[OF r]) (use assms Some in \<open>auto simp: upsert_state_def Let_def split: prod.splits\<close>)
qed

lemma upsert_state_ok:
  assumes "db_ok d" and "upsert_state p name lineage creator d = Inr (sid, d')"
  shows "db_ok d' \<and> sid \<in> state_ids d'"
  using assms(2)
proof (cases rule: upsert_state_cases)
  case (old r)
  then have "sid \<in> state_ids d" by (auto simp: state_ids_def)
  then show ?thesis using assms(1) old(5) by (simp add: update_state_ok)
next
  case (new r)
  then show ?thesis using add_state_ok[OF assms(1), of r] by (simp add: add_state_def state_ids_def)
qed

lemma upsert_state_frame:
  assumes "upsert_state p name lineage creator d = Inr (sid, d')"
  shows "db_versions d' = db_versions d" "db_locks d' = db_locks d" "db_ledger d' = db_ledger d"
    "db_outputs d' = db_outputs d" "db_tenants d' = db_tenants d" "state_ids d \<subseteq> state_ids d'"
proof -
  have "db_versions d' = db_versions d \<and> db_locks d' = db_locks d \<and> db_ledger d' = db_ledger d \<and>
    db_outputs d' = db_outputs d \<and> db_tenants d' = db_tenants d \<and> state_ids d \<subseteq> state_ids d'"
    using assms
  proof (cases rule: upsert_state_cases)
    case (new r)
    then show ?thesis by (auto simp: add_state_def state_ids_def)
  qed simp
  then show "db_versions d' = db_versions d" "db_locks d' = db_locks d" "db_ledger d' = db_ledger d"
    "db_outputs d' = db_outputs d" "db_tenants d' = db_tenants d" "state_ids d \<subseteq> state_ids d'" by blast+
qed

text \<open>The upserted state is the one that a lookup of the active state then finds.\<close>

lemma status_words [simp]:
  "to_lower (trim_space ''active'') = ''active''" "to_lower (trim_space ''suspended'') = ''suspended''"
  "to_lower (trim_space ''archived'') = ''archived''"
  by code_simp+

lemma check_upsert_named:
  assumes "check_upsert (match_any_lifecycle d tenant name) name lineage = Inr ()"
    and "r \<in> set (db_states d)" "sr_tenant r = tenant" "sr_name r = name" and "states_ok d"
  shows "sr_status r = ''active''"
proof -
  let ?rows = "filter (\<lambda>r. sr_tenant r = tenant \<and> (sr_name r = name \<or>
      sr_status r = ''archived'' \<and> like (archived_pattern name) (sr_name r))) (db_states d)"
  have "find (\<lambda>r. sr_name r = name) ?rows \<noteq> None" using assms(2-4) by (auto simp: find_None_iff)
  then obtain e where e: "find (\<lambda>r. sr_name r = name) ?rows = Some e" by blast
  then have e': "e \<in> set (db_states d)" "sr_tenant e = tenant" "sr_name e = name"
    by (auto simp: find_Some_iff dest!: nth_mem)
  have "r = e" using assms(2-5) e' by (auto simp: states_ok_def distinct_map inj_on_def)
  moreover have "match_any_lifecycle d tenant name = Some e"
    using e by (simp add: match_any_lifecycle_def pick_named_def)
  moreover have "sr_status r \<in> {''active'', ''suspended'', ''archived''}"
    using assms(2,5) by (auto simp: states_ok_def)
  ultimately show ?thesis
    using assms(1) e'(3) by (auto simp: check_upsert_def parse_lifecycle_status_def Let_def split: if_splits)
qed

lemma find_state_mem:
  assumes "states_ok d" and "r \<in> set (db_states d)" and "sr_status r = ''active''"
  shows "find_state d (sr_tenant r) (sr_name r) = Some r"
proof -
  have "find_state d (sr_tenant r) (sr_name r) \<noteq> None"
    using assms by (auto simp: find_state_def find_None_iff)
  then obtain e where e: "find_state d (sr_tenant r) (sr_name r) = Some e" by blast
  then have "e \<in> set (db_states d)" "sr_tenant e = sr_tenant r" "sr_name e = sr_name r"
    by (auto simp: find_state_def find_Some_iff)
  then have "e = r" using assms(1,2) by (auto simp: states_ok_def distinct_map inj_on_def)
  then show ?thesis using e by simp
qed

lemma find_state_SomeD:
  "find_state d tenant name = Some r \<Longrightarrow>
   r \<in> set (db_states d) \<and> sr_tenant r = tenant \<and> sr_name r = name \<and> sr_status r = ''active''"
  by (auto simp: find_state_def find_Some_iff)

lemma upsert_find_state:
  assumes "db_ok d" and "upsert_state p name lineage creator d = Inr (sid, d')"
  shows "\<exists>r. find_state d' (pr_tenant p) name = Some r \<and> sr_id r = sid"
proof -
  have ok': "states_ok d'" using upsert_state_ok[OF assms] by (simp add: db_ok_def)
  have chk: "check_upsert (match_any_lifecycle d (pr_tenant p) name) name lineage = Inr ()"
    using assms(2) by (auto simp: upsert_state_def Let_def split: prod.splits)
  show ?thesis using assms(2)
  proof (cases rule: upsert_state_cases)
    case (old r)
    let ?f = "\<lambda>r. r\<lparr>sr_lineage := (case sr_lineage r of
        None \<Rightarrow> (if lineage \<noteq> [] then Some lineage else None) | Some l \<Rightarrow> Some l)\<rparr>"
    have "sr_status r = ''active''"
      using check_upsert_named[OF chk] old assms(1) by (simp add: db_ok_def)
    moreover have "?f r \<in> set (db_states d')" using old(1,4,5) by (auto simp: update_state_def)
    ultimately show ?thesis using find_state_mem[OF ok', of "?f r"] old(2,3,4) by auto
  next
    case (new r)
    then show ?thesis using find_state_mem[OF ok', of r] by (auto simp: add_state_def)
  qed
qed

end
