(* ===== verification/Locks.thy ===== *)
theory Locks
  imports Tables Claims
begin

text \<open>
  The lock table of \<^verbatim>\<open>pkg/store\<close>: the whole-state locks of Terraform's HTTP backend (lock.go), the
  coarse lock that a state-engine write takes beside them (state_engine_lock.go), the checks a write
  makes (state.go) and the per-state modes (state_lock_mode.go).

  \<open>now\<close> is the clock of the transaction.
\<close>

section \<open>Reading locks\<close>

definition engine_path_prefix :: string where
  "engine_path_prefix = ''state-engine://''"

definition is_engine_path :: "string \<Rightarrow> bool" where
  "is_engine_path path \<longleftrightarrow> has_prefix (trim_space path) engine_path_prefix"

text \<open>SQL's \<^verbatim>\<open>path LIKE 'state-engine://%'\<close>.\<close>

definition like_engine_path :: "string \<Rightarrow> bool" where
  "like_engine_path path \<longleftrightarrow> like (engine_path_prefix @ ''%'') path"

definition engine_lock_id :: "string \<Rightarrow> string" where
  "engine_lock_id apply_id = ''state-engine-'' @ trim_space apply_id"

definition locks_of :: "db \<Rightarrow> string \<Rightarrow> lock_row list" where
  "locks_of d sid = filter (\<lambda>l. lk_state_id l = sid) (db_locks d)"

definition scan_existing_lock :: "db \<Rightarrow> string \<Rightarrow> lock_info option" where
  "scan_existing_lock d sid =
     (case sort_key (\<lambda>l. (lk_acquired_at l, li_id (lk_info l))) (locks_of d sid) of
        [] \<Rightarrow> None | l # ls \<Rightarrow> Some (lk_info l))"

text \<open>A read with \<^verbatim>\<open>LIMIT 1\<close> and no order: the first row.\<close>

definition probe_lock :: "db \<Rightarrow> string \<Rightarrow> lock_info option" where
  "probe_lock d sid = (case locks_of d sid of [] \<Rightarrow> None | l # ls \<Rightarrow> Some (lk_info l))"

definition find_lock :: "db \<Rightarrow> string \<Rightarrow> string \<Rightarrow> lock_row option" where
  "find_lock d sid lock_id = find (\<lambda>l. lk_state_id l = sid \<and> li_id (lk_info l) = lock_id) (db_locks d)"

definition exclusive_flag :: "db \<Rightarrow> string \<Rightarrow> bool" where
  "exclusive_flag d sid = (case state_by_id d sid of None \<Rightarrow> False | Some r \<Rightarrow> sr_exclusive r)"

text \<open>\<^verbatim>\<open>readLockSourceSerial\<close>: the baseline of the caller's lock, \<open>None\<close> when it holds none.\<close>

definition read_lock_source_serial :: "db \<Rightarrow> string \<Rightarrow> string \<Rightarrow> int option" where
  "read_lock_source_serial d sid lock_id =
     (if lock_id = [] then None
      else map_option (\<lambda>l. case lk_source_serial l of None \<Rightarrow> 0 | Some s \<Rightarrow> s) (find_lock d sid lock_id))"

section \<open>What a write checks\<close>

definition check_lock_for_write :: "db \<Rightarrow> string \<Rightarrow> string \<Rightarrow> (store_error, unit) result" where
  "check_lock_for_write d sid lock_id =
     (case probe_lock d sid of
        None \<Rightarrow> if lock_id = [] then Inr () else Inl LockMismatch
      | Some held \<Rightarrow> if lock_id = [] then Inl StateLocked
          else if li_id held \<noteq> lock_id then Inl LockMismatch else Inr ())"

definition check_any_lock_blocks :: "db \<Rightarrow> string \<Rightarrow> string \<Rightarrow> (store_error, unit) result" where
  "check_any_lock_blocks d sid lock_id =
     (let count = length (locks_of d sid)
      in if count = 0 \<and> lock_id = [] then Inr ()
         else if count = 0 \<and> lock_id \<noteq> [] then Inl LockMismatch
         else if count > 0 \<and> lock_id = [] then Inl StateLocked
         else Inl LockMismatch)"

section \<open>Terraform's lock\<close>

definition insert_lock :: "string \<Rightarrow> string \<Rightarrow> lock_info \<Rightarrow> int \<Rightarrow> nat \<Rightarrow> db \<Rightarrow> db" where
  "insert_lock tenant sid info source now d =
     d\<lparr>db_locks := db_locks d @ [\<lparr>lk_tenant = tenant, lk_state_id = sid, lk_info = info\<lparr>li_operation := []\<rparr>,
       lk_source_serial = Some source, lk_acquired_at = now\<rparr>]\<rparr>"

definition acquire_lock ::
    "principal \<Rightarrow> string \<Rightarrow> lock_info \<Rightarrow> nat \<Rightarrow> db \<Rightarrow> (store_error, db) result" where
  "acquire_lock p name info now d0 =
     bind_result (enforce_tenant_active d0 (pr_tenant p)) (\<lambda>_.
     bind_result (upsert_state p name [] CreatorBackend d0) (\<lambda>(sid, d).
       let existing = scan_existing_lock d sid;
           exclusive = exclusive_flag d sid;
           source = (case read_current_version_raw d sid of None \<Rightarrow> 0 | Some (serial, raw) \<Rightarrow> serial)
       in if (case existing of None \<Rightarrow> False | Some e \<Rightarrow> is_engine_path (li_path e))
            then Inl (AlreadyLocked (the existing))
          else if exclusive \<and> probe_lock d sid \<noteq> None then Inl (AlreadyLocked (the (probe_lock d sid)))
          else case find_lock d sid (li_id info) of
              Some l \<Rightarrow> Inl (AlreadyLocked (lk_info l))
            | None \<Rightarrow> Inr (log_event ''lock_acquire'' (pr_tenant p) sid None (li_who info)
                [(''lock_id'', JStr (li_id info)), (''operation'', JStr (li_operation info)),
                 (''source_serial'', JNum source)] (insert_lock (pr_tenant p) sid info source now d))))"

definition delete_locks :: "(lock_row \<Rightarrow> bool) \<Rightarrow> db \<Rightarrow> db" where
  "delete_locks P d = d\<lparr>db_locks := filter (\<lambda>l. \<not> P l) (db_locks d)\<rparr>"

definition release_lock ::
    "principal \<Rightarrow> string \<Rightarrow> string \<Rightarrow> string \<Rightarrow> db \<Rightarrow> (store_error, db) result" where
  "release_lock p name lock_id actor d =
     bind_result (enforce_tenant_active d (pr_tenant p)) (\<lambda>_.
       case find_state d (pr_tenant p) name of
         None \<Rightarrow> Inl LockMismatch
       | Some r \<Rightarrow>
           (let hit = (\<lambda>l. lk_state_id l = sr_id r \<and> li_id (lk_info l) = lock_id \<and>
                  \<not> like_engine_path (li_path (lk_info l)))
            in if \<not> list_ex hit (db_locks d) then Inl LockMismatch
               else Inr (log_event ''lock_release'' (pr_tenant p) (sr_id r) None actor
                 [(''lock_id'', JStr lock_id)] (delete_locks hit d))))"

definition force_release_lock ::
    "principal \<Rightarrow> string \<Rightarrow> string \<Rightarrow> db \<Rightarrow> (store_error, db) result" where
  "force_release_lock p name actor d =
     bind_result (enforce_tenant_active d (pr_tenant p)) (\<lambda>_.
       case find_state d (pr_tenant p) name of
         None \<Rightarrow> Inr d
       | Some r \<Rightarrow>
           (let hit = (\<lambda>l. lk_state_id l = sr_id r \<and> \<not> like_engine_path (li_path (lk_info l)));
                d' = delete_locks hit d
            in case find hit (db_locks d) of
                 None \<Rightarrow> Inr d'
               | Some l \<Rightarrow>
                   (let lock_id = li_id (lk_info l)
                    in if trim_space lock_id = [] then Inr d'
                       else Inr (log_event ''lock_force_release'' (pr_tenant p) (sr_id r) None actor
                         [(''lock_id'', JStr lock_id)] d'))))"

section \<open>The coarse lock of a state-engine write\<close>

definition engine_lock_summary :: "string \<Rightarrow> string list \<Rightarrow> json" where
  "engine_lock_summary apply_id scope =
     JObj [(''apply_id'', JStr (trim_space apply_id)), (''kind'', JStr ''state_engine_write''),
       (''scope_summary'', JArr (map JStr scope))]"

definition engine_lock_info ::
    "(json \<Rightarrow> string) \<Rightarrow> string \<Rightarrow> string \<Rightarrow> string \<Rightarrow> string \<Rightarrow> string list \<Rightarrow> lock_info" where
  "engine_lock_info txt created name apply_id holder scope =
     \<lparr>li_id = engine_lock_id apply_id, li_operation = ''StateEngineWrite'',
      li_info = txt (engine_lock_summary apply_id scope),
      li_who = (if trim_space holder = [] then ''state-engine'' else trim_space holder),
      li_version = ''state-engine/v1'', li_created = created,
      li_path = engine_path_prefix @ trim_space name\<rparr>"

definition acquire_engine_lock ::
    "(json \<Rightarrow> string) \<Rightarrow> principal \<Rightarrow> string \<Rightarrow> string \<Rightarrow> string \<Rightarrow> string list \<Rightarrow> string \<Rightarrow> nat \<Rightarrow> db \<Rightarrow>
     (store_error, db) result" where
  "acquire_engine_lock txt p name apply_id holder scope created now d0 =
     bind_result (enforce_tenant_active d0 (pr_tenant p)) (\<lambda>_.
     bind_result (upsert_state p name [] CreatorKL d0) (\<lambda>(sid, d).
       case scan_existing_lock d sid of
         Some e \<Rightarrow> if li_id e = engine_lock_id apply_id \<and> is_engine_path (li_path e) then Inr d
                   else Inl (AlreadyLocked e)
       | None \<Rightarrow>
           (let info = engine_lock_info txt created name apply_id holder scope
            in Inr (log_event ''lock_acquire'' (pr_tenant p) sid None (li_who info)
                 [(''lock_id'', JStr (li_id info)), (''operation'', JStr (li_operation info))]
                 (insert_lock (pr_tenant p) sid info 0 now d)))))"

definition release_engine_lock ::
    "principal \<Rightarrow> string \<Rightarrow> string \<Rightarrow> string \<Rightarrow> db \<Rightarrow> (store_error, db) result" where
  "release_engine_lock p name apply_id actor d =
     bind_result (enforce_tenant_active d (pr_tenant p)) (\<lambda>_.
       case find_state d (pr_tenant p) name of
         None \<Rightarrow> Inr d
       | Some r \<Rightarrow>
           (let lock_id = engine_lock_id apply_id;
                hit = (\<lambda>l. lk_state_id l = sr_id r \<and> li_id (lk_info l) = lock_id \<and>
                  like_engine_path (li_path (lk_info l)))
            in if \<not> list_ex hit (db_locks d) then Inr d
               else Inr (log_event ''lock_release'' (pr_tenant p) (sr_id r) None
                 (if trim_space actor = [] then ''state-engine'' else actor)
                 [(''lock_id'', JStr lock_id)] (delete_locks hit d))))"

section \<open>The modes of a state\<close>

definition coexistence_valid :: "string \<Rightarrow> bool" where
  "coexistence_valid m \<longleftrightarrow> m = ''warn'' \<or> m = ''strict''"

definition set_exclusive_locks :: "principal \<Rightarrow> string \<Rightarrow> bool \<Rightarrow> db \<Rightarrow> (store_error, db) result" where
  "set_exclusive_locks p name0 on d =
     (let name = trim_space name0
      in if name = [] then Inl InvalidArgument
         else case find_state d (pr_tenant p) name of
           None \<Rightarrow> Inl StateNotFound
         | Some r \<Rightarrow> Inr (update_state (sr_id r) (\<lambda>r. r\<lparr>sr_exclusive := on\<rparr>) d))"

definition get_exclusive_locks :: "principal \<Rightarrow> string \<Rightarrow> db \<Rightarrow> (store_error, bool) result" where
  "get_exclusive_locks p name0 d =
     (let name = trim_space name0
      in if name = [] then Inl InvalidArgument
         else case find_state d (pr_tenant p) name of
           None \<Rightarrow> Inl StateNotFound | Some r \<Rightarrow> Inr (sr_exclusive r))"

definition set_coexistence_mode :: "principal \<Rightarrow> string \<Rightarrow> string \<Rightarrow> db \<Rightarrow> (store_error, db) result" where
  "set_coexistence_mode p name0 mode d =
     (let name = trim_space name0
      in if name = [] then Inl InvalidArgument
         else if \<not> coexistence_valid mode then Inl InvalidArgument
         else case find_state d (pr_tenant p) name of
           None \<Rightarrow> Inl StateNotFound
         | Some r \<Rightarrow> Inr (update_state (sr_id r) (\<lambda>r. r\<lparr>sr_coexistence := mode\<rparr>) d))"

definition get_coexistence_mode :: "principal \<Rightarrow> string \<Rightarrow> db \<Rightarrow> (store_error, string) result" where
  "get_coexistence_mode p name0 d =
     (let name = trim_space name0
      in if name = [] then Inl InvalidArgument
         else case find_state d (pr_tenant p) name of
           None \<Rightarrow> Inl StateNotFound | Some r \<Rightarrow> Inr (sr_coexistence r))"

section \<open>Every lock operation keeps the constraints\<close>

lemma insert_lock_simps [simp]:
  "db_states (insert_lock t sid i src now d) = db_states d" "db_versions (insert_lock t sid i src now d) = db_versions d"
  "db_ledger (insert_lock t sid i src now d) = db_ledger d" "db_outputs (insert_lock t sid i src now d) = db_outputs d"
  "state_ids (insert_lock t sid i src now d) = state_ids d" "issued (insert_lock t sid i src now d) = issued d"
  "db_tenants (insert_lock t sid i src now d) = db_tenants d"
  by (simp_all add: insert_lock_def state_ids_def issued_def)

lemma delete_locks_simps [simp]:
  "db_states (delete_locks P d) = db_states d" "db_versions (delete_locks P d) = db_versions d"
  "db_ledger (delete_locks P d) = db_ledger d" "db_outputs (delete_locks P d) = db_outputs d"
  "state_ids (delete_locks P d) = state_ids d" "issued (delete_locks P d) = issued d"
  "db_locks (delete_locks P d) = filter (\<lambda>l. \<not> P l) (db_locks d)" "db_tenants (delete_locks P d) = db_tenants d"
  by (simp_all add: delete_locks_def state_ids_def issued_def)

lemma delete_locks_ok: "db_ok d \<Longrightarrow> db_ok (delete_locks P d)"
  unfolding db_ok_defs by (auto simp: distinct_map_filter)

lemma insert_lock_ok:
  assumes "db_ok d" and "sid \<in> state_ids d" and "find_lock d sid (li_id info) = None"
  shows "db_ok (insert_lock t sid info src now d)"
proof -
  have "(sid, li_id info) \<notin> (\<lambda>l. (lk_state_id l, li_id (lk_info l))) ` set (db_locks d)"
    using assms(3) by (auto simp: find_lock_def find_None_iff)
  then have "locks_ok (insert_lock t sid info src now d)"
    using assms by (auto simp: db_ok_def locks_ok_def insert_lock_def state_ids_def)
  then show ?thesis
    using assms(1) by (simp add: db_ok_def states_ok_def versions_ok_def current_ok_def rows_ok_def)
qed

lemma scan_existing_lock_None: "scan_existing_lock d sid = None \<longleftrightarrow> locks_of d sid = []"
proof -
  have "sort_key f xs = [] \<longleftrightarrow> xs = []" for f :: "lock_row \<Rightarrow> nat \<times> string" and xs
    by (metis set_empty set_sort)
  from this[of _ "locks_of d sid"] show ?thesis
    by (auto simp: scan_existing_lock_def simp del: sort_key_simps split: list.splits)
qed

lemma scan_existing_lock_SomeD:
  assumes "scan_existing_lock d sid = Some e"
  shows "\<exists>l \<in> set (locks_of d sid). lk_info l = e"
proof -
  obtain l ls where "sort_key (\<lambda>l. (lk_acquired_at l, li_id (lk_info l))) (locks_of d sid) = l # ls" "e = lk_info l"
    using assms by (auto simp: scan_existing_lock_def split: list.splits)
  then show ?thesis by (metis list.set_intros(1) set_sort)
qed

lemma probe_lock_None: "probe_lock d sid = None \<longleftrightarrow> locks_of d sid = []"
  by (simp add: probe_lock_def split: list.splits)

lemma find_lock_no_locks: "locks_of d sid = [] \<Longrightarrow> find_lock d sid i = None"
  by (auto simp: locks_of_def find_lock_def find_None_iff filter_empty_conv)

text \<open>A successful acquisition in one step: the lock is new, and what was there lets it in.\<close>

lemma acquire_lockE:
  assumes "acquire_lock p name info now d0 = Inr d'"
  obtains sid d src where "upsert_state p name [] CreatorBackend d0 = Inr (sid, d)"
    "\<And>e. scan_existing_lock d sid = Some e \<Longrightarrow> \<not> is_engine_path (li_path e)"
    "exclusive_flag d sid \<Longrightarrow> locks_of d sid = []" "find_lock d sid (li_id info) = None"
    "src = (case read_current_version_raw d sid of None \<Rightarrow> 0 | Some (serial, raw) \<Rightarrow> serial)"
    "d' = log_event ''lock_acquire'' (pr_tenant p) sid None (li_who info)
       [(''lock_id'', JStr (li_id info)), (''operation'', JStr (li_operation info)), (''source_serial'', JNum src)]
       (insert_lock (pr_tenant p) sid info src now d)"
proof -
  obtain sid d where u: "upsert_state p name [] CreatorBackend d0 = Inr (sid, d)"
    using assms by (auto simp: acquire_lock_def)
  show ?thesis
    by (rule that[OF u, of "case read_current_version_raw d sid of None \<Rightarrow> 0 | Some (serial, raw) \<Rightarrow> serial"])
      (use assms u in \<open>auto simp: acquire_lock_def Let_def probe_lock_None split: if_splits option.splits\<close>)
qed

lemma acquire_engine_lockE:
  assumes "acquire_engine_lock txt p name a h sc cr now d0 = Inr d'"
  obtains (held) sid e where "upsert_state p name [] CreatorKL d0 = Inr (sid, d')"
      "scan_existing_lock d' sid = Some e" "li_id e = engine_lock_id a" "is_engine_path (li_path e)"
    | (taken) sid d info where "upsert_state p name [] CreatorKL d0 = Inr (sid, d)" "locks_of d sid = []"
      "info = engine_lock_info txt cr name a h sc"
      "d' = log_event ''lock_acquire'' (pr_tenant p) sid None (li_who info)
        [(''lock_id'', JStr (li_id info)), (''operation'', JStr (li_operation info))]
        (insert_lock (pr_tenant p) sid info 0 now d)"
proof -
  obtain sid d where u: "upsert_state p name [] CreatorKL d0 = Inr (sid, d)"
    using assms by (auto simp: acquire_engine_lock_def)
  show ?thesis
  proof (cases "scan_existing_lock d sid")
    case None
    show ?thesis
      by (rule taken[OF u]) (use assms u None in \<open>auto simp: acquire_engine_lock_def Let_def scan_existing_lock_None\<close>)
  next
    case (Some e)
    then have "d' = d" "li_id e = engine_lock_id a \<and> is_engine_path (li_path e)"
      using assms u by (auto simp: acquire_engine_lock_def split: if_splits)
    then show ?thesis using held u Some by blast
  qed
qed

datatype lock_op =
    LockOp principal string lock_info nat
  | UnlockOp principal string string string
  | ForceUnlockOp principal string string
  | EngineLockOp principal string string string "string list" string nat
  | EngineUnlockOp principal string string string

fun run_lock_op :: "(json \<Rightarrow> string) \<Rightarrow> lock_op \<Rightarrow> db \<Rightarrow> (store_error, db) result" where
  "run_lock_op txt (LockOp p name info now) d = acquire_lock p name info now d"
| "run_lock_op txt (UnlockOp p name lock_id actor) d = release_lock p name lock_id actor d"
| "run_lock_op txt (ForceUnlockOp p name actor) d = force_release_lock p name actor d"
| "run_lock_op txt (EngineLockOp p name a h scope created now) d =
     acquire_engine_lock txt p name a h scope created now d"
| "run_lock_op txt (EngineUnlockOp p name a actor) d = release_engine_lock p name a actor d"

lemma run_lock_op_ok:
  assumes "db_ok d" and "run_lock_op txt op d = Inr d'"
  shows "db_ok d'"
proof (cases op)
  case (LockOp p name info now)
  then have "acquire_lock p name info now d = Inr d'" using assms(2) by simp
  then show ?thesis
  proof (cases rule: acquire_lockE)
    case (1 sid d1 src)
    then show ?thesis using upsert_state_ok[OF assms(1) 1(1)] by (simp add: insert_lock_ok)
  qed
next
  case (EngineLockOp p name a h sc cr now)
  then have "acquire_engine_lock txt p name a h sc cr now d = Inr d'" using assms(2) by simp
  then show ?thesis
  proof (cases rule: acquire_engine_lockE)
    case (held sid e)
    then show ?thesis using upsert_state_ok[OF assms(1)] by blast
  next
    case (taken sid d1 info)
    then show ?thesis
      using upsert_state_ok[OF assms(1) taken(1)] by (simp add: insert_lock_ok find_lock_no_locks)
  qed
qed (use assms delete_locks_ok in \<open>auto simp: release_lock_def force_release_lock_def release_engine_lock_def Let_def
  split: option.splits if_splits\<close>)

section \<open>Exclusion\<close>

type_synonym lock_claim = "string \<times> string \<times> bool \<times> bool"

definition lock_claim :: "db \<Rightarrow> lock_row \<Rightarrow> lock_claim" where
  "lock_claim d l = (lk_state_id l, li_id (lk_info l), is_engine_path (li_path (lk_info l)),
     exclusive_flag d (lk_state_id l))"

definition lock_claims :: "db \<Rightarrow> lock_claim set" where
  "lock_claims d = lock_claim d ` set (db_locks d)"

text \<open>Two locks of one state exclude each other when the state is exclusive or one is the coarse lock.\<close>

fun lock_clash :: "lock_claim \<Rightarrow> lock_claim \<Rightarrow> bool" where
  "lock_clash (s, i, e, x) (s', i', e', x') \<longleftrightarrow> s = s' \<and> i \<noteq> i' \<and> (e \<or> e' \<or> x \<or> x')"

text \<open>A Terraform client sends no path of the coarse lock's namespace.\<close>

fun terraform_client :: "lock_op \<Rightarrow> bool" where
  "terraform_client (LockOp p name info now) \<longleftrightarrow> \<not> is_engine_path (li_path info)"
| "terraform_client _ \<longleftrightarrow> True"

definition lock_step :: "(json \<Rightarrow> string) \<Rightarrow> lock_op \<Rightarrow> db \<Rightarrow> db" where
  "lock_step txt op d = (case run_lock_op txt op d of Inl e \<Rightarrow> d | Inr d' \<Rightarrow> d')"

definition client_step :: "(json \<Rightarrow> string) \<Rightarrow> lock_op \<Rightarrow> db \<Rightarrow> db" where
  "client_step txt op d = (if terraform_client op then lock_step txt op d else d)"

lemma exclusive_flag_log [simp]: "exclusive_flag (log_event k t sid v a p d) = exclusive_flag d"
  and exclusive_flag_insert [simp]: "exclusive_flag (insert_lock t sid i src now d) = exclusive_flag d"
  and exclusive_flag_delete [simp]: "exclusive_flag (delete_locks P d) = exclusive_flag d"
  by (simp_all add: exclusive_flag_def state_by_id_def fun_eq_iff)

lemma lock_claims_log [simp]: "lock_claims (log_event k t sid v a p d) = lock_claims d"
  by (simp add: lock_claims_def lock_claim_def)

lemma lock_claims_insert:
  "lock_claims (insert_lock t sid info src now d) =
     insert (sid, li_id info, is_engine_path (li_path info), exclusive_flag d sid) (lock_claims d)"
proof -
  have "lock_claim (insert_lock t sid info src now d) l = lock_claim d l" for l by (simp add: lock_claim_def)
  then show ?thesis by (auto simp: lock_claims_def insert_lock_def lock_claim_def)
qed

lemma lock_claims_delete: "lock_claims (delete_locks P d) \<subseteq> lock_claims d"
  by (auto simp: lock_claims_def lock_claim_def)

text \<open>The upsert changes no claim: the row it adds has no lock yet.\<close>

lemma upsert_exclusive_flag:
  assumes "db_ok d" and "upsert_state p name lineage creator d = Inr (sid, d')" and "i \<in> state_ids d"
  shows "exclusive_flag d' i = exclusive_flag d i"
  using assms(2)
proof (cases rule: upsert_state_cases)
  case (old r)
  then show ?thesis by (simp add: exclusive_flag_def state_by_id_update split: option.splits)
next
  case (new r)
  have "i \<noteq> fresh_id d" using assms fresh_not_state by blast
  then show ?thesis using new by (simp add: exclusive_flag_def state_by_id_add split: option.splits)
qed

lemma lock_claims_upsert:
  assumes "db_ok d" and "upsert_state p name lineage creator d = Inr (sid, d')"
  shows "lock_claims d' = lock_claims d"
proof -
  have "lk_state_id l \<in> state_ids d" if "l \<in> set (db_locks d)" for l
    using assms(1) that by (auto simp: db_ok_def locks_ok_def)
  then show ?thesis
    using upsert_exclusive_flag[OF assms] upsert_state_frame(2)[OF assms(2)]
    by (auto simp: lock_claims_def lock_claim_def intro!: image_cong)
qed

text \<open>What is first in the queue of a state speaks for all its locks when the table is exclusive.\<close>

lemma no_engine_lock:
  assumes safe: "\<And>a b. a \<in> lock_claims d \<Longrightarrow> b \<in> lock_claims d \<Longrightarrow> \<not> lock_clash a b"
    and first: "\<And>e. scan_existing_lock d sid = Some e \<Longrightarrow> \<not> is_engine_path (li_path e)"
    and l: "l \<in> set (db_locks d)" "lk_state_id l = sid" and ok: "db_ok d"
  shows "\<not> is_engine_path (li_path (lk_info l))"
proof
  assume e: "is_engine_path (li_path (lk_info l))"
  have "locks_of d sid \<noteq> []" using l by (auto simp: locks_of_def filter_empty_conv)
  then obtain i where i: "scan_existing_lock d sid = Some i" using scan_existing_lock_None by fastforce
  then obtain m where m: "m \<in> set (db_locks d)" "lk_state_id m = sid" "lk_info m = i"
    using scan_existing_lock_SomeD by (fastforce simp: locks_of_def)
  have "\<not> lock_clash (lock_claim d l) (lock_claim d m)" using safe l(1) m(1) by (simp add: lock_claims_def)
  then have "li_id (lk_info l) = li_id (lk_info m)" using e l(2) m(2) by (simp add: lock_claim_def)
  then have "l = m" using l m ok by (auto simp: db_ok_def locks_ok_def distinct_map inj_on_def)
  then show False using first[OF i] m(3) e by simp
qed

lemma client_step_ok: "db_ok d \<Longrightarrow> db_ok (client_step txt op d)"
  using run_lock_op_ok[of d _ op] by (auto simp: client_step_def lock_step_def split: sum.splits)

lemma acquire_step_clash:
  assumes ok: "db_ok d" and safe: "\<And>a b. a \<in> lock_claims d \<Longrightarrow> b \<in> lock_claims d \<Longrightarrow> \<not> lock_clash a b"
    and acq: "acquire_lock p name info now d = Inr d'" and client: "\<not> is_engine_path (li_path info)"
    and c: "c \<in> lock_claims d'" "c \<notin> lock_claims d" and b: "b \<in> lock_claims d'"
  shows "\<not> lock_clash c b"
  using acq
proof (cases rule: acquire_lockE)
  case (1 sid d1 src)
  note ok1 = upsert_state_ok[OF ok 1(1), THEN conjunct1]
  have eq: "lock_claims d1 = lock_claims d" using lock_claims_upsert[OF ok 1(1)] .
  let ?new = "(sid, li_id info, False, exclusive_flag d1 sid)"
  have claims: "lock_claims d' = insert ?new (lock_claims d1)"
    unfolding 1(6) using client by (simp add: lock_claims_insert)
  then have "c = ?new" using c eq by simp
  moreover have "\<not> lock_clash ?new b" if "b \<in> lock_claims d1"
  proof -
    from that obtain l where l: "l \<in> set (db_locks d1)" "b = lock_claim d1 l" by (auto simp: lock_claims_def)
    show ?thesis
    proof (cases "lk_state_id l = sid")
      case True
      then have "locks_of d1 sid \<noteq> []" using l by (auto simp: locks_of_def filter_empty_conv)
      moreover have "\<not> is_engine_path (li_path (lk_info l))"
        by (rule no_engine_lock[OF _ 1(2) l(1) True ok1]) (use safe eq in auto)
      ultimately show ?thesis using l(2) True 1(3) by (auto simp: lock_claim_def)
    qed (simp add: l(2) lock_claim_def)
  qed
  ultimately show ?thesis using b claims by auto
qed

lemma engine_step_clash:
  assumes ok: "db_ok d" and acq: "acquire_engine_lock txt p name a h sc cr now d = Inr d'"
    and c: "c \<in> lock_claims d'" "c \<notin> lock_claims d" and b: "b \<in> lock_claims d'"
  shows "\<not> lock_clash c b"
  using acq
proof (cases rule: acquire_engine_lockE)
  case (held sid e)
  then show ?thesis using lock_claims_upsert[OF ok held(1)] c by simp
next
  case (taken sid d1 info)
  have eq: "lock_claims d1 = lock_claims d" using lock_claims_upsert[OF ok taken(1)] .
  let ?new = "(sid, li_id info, is_engine_path (li_path info), exclusive_flag d1 sid)"
  have claims: "lock_claims d' = insert ?new (lock_claims d1)" unfolding taken(4) by (simp add: lock_claims_insert)
  then have "c = ?new" using c eq by simp
  moreover have "fst b \<noteq> sid" if "b \<in> lock_claims d1"
    using that taken(2) by (auto simp: lock_claims_def lock_claim_def locks_of_def filter_empty_conv)
  ultimately show ?thesis using b claims by (cases b) auto
qed

lemma release_step_claims:
  assumes "run_lock_op txt op d = Inr d'"
    and "case op of LockOp p n i t \<Rightarrow> False | EngineLockOp p n a h sc cr t \<Rightarrow> False | _ \<Rightarrow> True"
  shows "lock_claims d' \<subseteq> lock_claims d"
  using assms
  by (cases op) (auto simp: release_lock_def force_release_lock_def release_engine_lock_def Let_def
      split: option.splits if_splits dest: lock_claims_delete[THEN subsetD])

interpretation locks: guarded_claims lock_claims lock_clash "client_step js" db_ok for js
proof
  fix t p assume "db_ok t"
  then show "db_ok (client_step js p t)" by (rule client_step_ok)
next
  fix c d :: lock_claim
  assume "lock_clash c d"
  then show "lock_clash d c" by (cases c; cases d) auto
next
  fix t c p d
  assume ok: "db_ok t" and safe: "\<And>a b. a \<in> lock_claims t \<Longrightarrow> b \<in> lock_claims t \<Longrightarrow> \<not> lock_clash a b"
    and c: "c \<in> lock_claims (client_step js p t)" "c \<notin> lock_claims t" "d \<in> lock_claims (client_step js p t)"
  then obtain t' where t': "terraform_client p" "run_lock_op js p t = Inr t'" "client_step js p t = t'"
    by (auto simp: client_step_def lock_step_def split: sum.splits if_splits)
  show "\<not> lock_clash c d"
  proof (cases p)
    case (LockOp q name info now)
    then show ?thesis using acquire_step_clash[OF ok safe] t' c by auto
  next
    case (EngineLockOp q name a h sc cr now)
    then show ?thesis using engine_step_clash[OF ok] t' c by auto
  qed (use release_step_claims[OF t'(2)] t'(3) c in auto)
qed

definition run_locks :: "(json \<Rightarrow> string) \<Rightarrow> lock_op list \<Rightarrow> db \<Rightarrow> db" where
  "run_locks txt ops d = foldl (\<lambda>d op. lock_step txt op d) d ops"

lemma run_locks_client:
  "\<forall>op \<in> set ops. terraform_client op \<Longrightarrow> run_locks txt ops d = locks.run txt ops d"
  unfolding run_locks_def locks.run_def
  by (induction ops arbitrary: d) (auto simp: client_step_def)

text \<open>C25: Lock exclusion. From tables with no locks, after any sequence of lock, unlock, force-unlock and
  engine-lock operations of Terraform clients and state-engine writers: a state in exclusive mode has at
  most one lock, and while a state-engine write holds its coarse lock that lock is the only one of its state.\<close>

theorem locks_exclusive:
  assumes "db_ok d0" and "db_locks d0 = []" and "\<forall>op \<in> set ops. terraform_client op"
    and "d = run_locks txt ops d0" and "l \<in> set (db_locks d)" and "m \<in> set (db_locks d)"
    and "lk_state_id l = lk_state_id m"
    and "exclusive_flag d (lk_state_id l) \<or> is_engine_path (li_path (lk_info l))"
  shows "l = m"
proof -
  have run: "d = locks.run txt ops d0" using run_locks_client[OF assms(3)] assms(4) by simp
  have "locks.safe d" unfolding run
    by (rule locks.safe_run) (use assms in \<open>auto simp: locks.safe_def lock_claims_def\<close>)
  moreover have "db_ok d" unfolding run by (rule locks.good_run) (rule assms(1))
  ultimately have "\<not> lock_clash (lock_claim d l) (lock_claim d m)"
    using locks.safe_clash[of d "lock_claim d l" "lock_claim d m"] assms(5,6) by (simp add: lock_claims_def)
  then have "li_id (lk_info l) = li_id (lk_info m)" using assms(7,8) by (auto simp: lock_claim_def)
  then show ?thesis using \<open>db_ok d\<close> assms(5-7)
    by (auto simp: db_ok_def locks_ok_def distinct_map inj_on_def)
qed

definition ex_principal :: principal where
  "ex_principal = \<lparr>pr_tenant = ''t'', pr_workspace = [], pr_environment = [], pr_lock_default = ''vanilla''\<rparr>"

definition empty_db :: db where
  "empty_db = \<lparr>db_tenants = Map.empty, db_states = [], db_versions = [], db_locks = [],
     db_ledger = \<lparr>ld_rows = [], ld_next_id = 0\<rparr>, db_outputs = [], db_events = [], db_next = 0\<rparr>"

lemma empty_db_ok [simp]: "db_ok empty_db"
  unfolding db_ok_defs by (simp add: empty_db_def state_ids_def)

definition ex_lock :: "string \<Rightarrow> lock_info" where
  "ex_lock i = \<lparr>li_id = i, li_operation = ''apply'', li_info = [], li_who = i, li_version = [],
     li_created = [], li_path = []\<rparr>"

definition ex_lock_ops :: "lock_op list" where
  "ex_lock_ops = [LockOp ex_principal ''s'' (ex_lock ''ann'') 1, LockOp ex_principal ''s'' (ex_lock ''bob'') 2]"

lemma ex_locks: "db_locks (run_locks (\<lambda>j. []) ex_lock_ops empty_db)
    = [\<lparr>lk_tenant = ''t'', lk_state_id = ''0'', lk_info = (ex_lock ''ann'')\<lparr>li_operation := []\<rparr>,
        lk_source_serial = Some 0, lk_acquired_at = 1\<rparr>]"
  and ex_locks_exclusive: "exclusive_flag (run_locks (\<lambda>j. []) ex_lock_ops empty_db) ''0''"
  and ex_lock_clients: "list_all terraform_client ex_lock_ops"
  by code_simp+

theorem locks_exclusive_witness:
  "\<exists>l. set (db_locks (run_locks (\<lambda>j. []) ex_lock_ops empty_db)) = {l} \<and> li_who (lk_info l) = ''ann''"
proof -
  let ?d = "run_locks (\<lambda>j. []) ex_lock_ops empty_db"
  obtain l where l: "l \<in> set (db_locks ?d)" "li_who (lk_info l) = ''ann''" "lk_state_id l = ''0''"
    by (simp add: ex_locks ex_lock_def)
  have "m = l" if "m \<in> set (db_locks ?d)" for m
    using locks_exclusive[of empty_db ex_lock_ops ?d "\<lambda>j. []" m l] that l ex_locks_exclusive ex_lock_clients
    by (simp add: ex_locks list_all_iff empty_db_def[THEN arg_cong[where f = db_locks]])
  then show ?thesis using l by blast
qed

section \<open>A lock can be given back\<close>

lemma read_current_frame:
  assumes "db_ok d" and "upsert_state p name lineage creator d = Inr (sid, d')" and "i \<in> state_ids d"
  shows "read_current_version_raw d' i = read_current_version_raw d i"
  using assms(2)
proof (cases rule: upsert_state_cases)
  case (old r)
  then show ?thesis
    by (simp add: read_current_version_raw_def state_by_id_update current_version_def version_by_id_def
        split: option.splits)
next
  case (new r)
  obtain y where "state_by_id d i = Some y" using assms(3) state_by_id_None[of d i] by auto
  moreover have "db_versions d' = db_versions d" by (rule upsert_state_frame(1)[OF assms(2)])
  ultimately show ?thesis
    using current_version_cong[of d' d] by (simp add: read_current_version_raw_def new(8) state_by_id_add)
qed

text \<open>Lock, then unlock. A granted lock records the serial of the trunk it was granted at, and the
  unlock with its id (by the same tenant) always succeeds and leaves the lock table as it was before.\<close>

theorem lock_unlock_roundtrip:
  assumes "db_ok d" and "acquire_lock p name info now d = Inr d1" and "\<not> like_engine_path (li_path info)"
  shows "\<exists>d2 r. release_lock p name (li_id info) actor d1 = Inr d2 \<and> db_locks d2 = db_locks d \<and>
     find_state d1 (pr_tenant p) name = Some r \<and>
     read_lock_source_serial d1 (sr_id r) (li_id info) =
       (if li_id info = [] then None
        else Some (case current_version d1 r of None \<Rightarrow> 0 | Some v \<Rightarrow> vr_serial v))"
  using assms(2)
proof (cases rule: acquire_lockE)
  case (1 sid d' src)
  obtain r where r: "find_state d' (pr_tenant p) name = Some r" "sr_id r = sid"
    using upsert_find_state[OF assms(1) 1(1)] by blast
  have fresh: "\<not> (lk_state_id l = sid \<and> li_id (lk_info l) = li_id info)" if "l \<in> set (db_locks d')" for l
    using 1(4) that by (auto simp: find_lock_def find_None_iff)
  have r1: "find_state d1 (pr_tenant p) name = Some r" using r(1) 1(6) by (simp add: find_state_def)
  have ok': "states_ok d'" using upsert_state_ok[OF assms(1) 1(1)] by (simp add: db_ok_def)
  have act: "enforce_tenant_active d (pr_tenant p) = Inr ()" using assms(2) by (auto simp: acquire_lock_def)
  then have act1: "enforce_tenant_active d1 (pr_tenant p) = Inr ()"
    using 1(6) upsert_state_frame(5)[OF 1(1)] by (simp add: enforce_tenant_active_def)
  let ?hit = "\<lambda>l. lk_state_id l = sid \<and> li_id (lk_info l) = li_id info \<and> \<not> like_engine_path (li_path (lk_info l))"
  let ?row = "\<lparr>lk_tenant = pr_tenant p, lk_state_id = sid, lk_info = info\<lparr>li_operation := []\<rparr>,
      lk_source_serial = Some src, lk_acquired_at = now\<rparr>"
  have locks: "db_locks d1 = db_locks d' @ [?row]" unfolding 1(6) by (simp add: insert_lock_def)
  have keep: "filter (\<lambda>l. \<not> ?hit l) (db_locks d1) = db_locks d'"
    unfolding locks using fresh assms(3) by (auto simp: filter_id_conv)
  have "list_ex ?hit (db_locks d1)" unfolding locks using assms(3) by simp
  then obtain d2 where d2: "release_lock p name (li_id info) actor d1 = Inr d2" "db_locks d2 = db_locks d'"
    using act1 r1 r(2) keep by (auto simp: release_lock_def Let_def)
  have "find_lock d1 sid (li_id info) = Some ?row"
    using 1(4) unfolding find_lock_def locks by (simp add: find_snoc)
  moreover have "current_version d1 r = current_version d' r"
    unfolding 1(6) by (rule current_version_cong) simp
  moreover have "state_by_id d' sid = Some r"
    using state_by_id_mem[OF ok'] find_state_SomeD[OF r(1)] r(2) by blast
  ultimately have "read_lock_source_serial d1 sid (li_id info) =
      (if li_id info = [] then None else Some (case current_version d1 r of None \<Rightarrow> 0 | Some v \<Rightarrow> vr_serial v))"
    using 1(5) by (simp add: read_lock_source_serial_def read_current_version_raw_def split: option.splits)
  then show ?thesis using d2 r1 r(2) upsert_state_frame(2)[OF 1(1)] by auto
qed

definition ex_locked :: db where
  "ex_locked = projr (acquire_lock ex_principal ''s'' (ex_lock ''ann'') 1 empty_db)"

theorem lock_unlock_roundtrip_witness:
  "\<exists>d2. release_lock ex_principal ''s'' ''ann'' ''ann'' ex_locked = Inr d2 \<and> db_locks d2 = []"
proof -
  have a: "\<not> isl (acquire_lock ex_principal ''s'' (ex_lock ''ann'') 1 empty_db)" by code_simp
  then have "acquire_lock ex_principal ''s'' (ex_lock ''ann'') 1 empty_db = Inr ex_locked"
    unfolding ex_locked_def by (cases "acquire_lock ex_principal ''s'' (ex_lock ''ann'') 1 empty_db") auto
  moreover have "\<not> like_engine_path (li_path (ex_lock ''ann''))" by code_simp
  ultimately show ?thesis
    using lock_unlock_roundtrip[of empty_db ex_principal "''s''" "ex_lock ''ann''" 1 ex_locked "''ann''"]
    by (auto simp: ex_lock_def empty_db_def[THEN arg_cong[where f = db_locks]])
qed

section \<open>Names with wildcards\<close>

text \<open>The search for archived rows puts the name into a \<open>LIKE\<close> pattern unquoted, so an underscore in it
  matches any character: an archived state of another name makes the state impossible to lock.\<close>

definition ex_archived :: db where
  "ex_archived = empty_db\<lparr>db_states := [\<lparr>sr_id = ''0'', sr_tenant = ''t'', sr_name = ''axb--archived-old'',
     sr_lineage = None, sr_status = ''archived'', sr_exclusive = False, sr_coexistence = ''warn'',
     sr_current = None\<rparr>], db_next := 1\<rparr>"

lemma wildcard_name_blocked:
  "isl (acquire_lock ex_principal ''a_b'' (ex_lock ''ann'') 1 ex_archived)"
  "projl (acquire_lock ex_principal ''a_b'' (ex_lock ''ann'') 1 ex_archived) = StateNotActive ''archived''"
  by code_simp+

end
