(* ===== verification/Store.thy ===== *)
theory Store
  imports Locks EngineDelta "HOL-Library.AList"
begin

text \<open>
  The write paths of \<^verbatim>\<open>pkg/store/state.go\<close>: quotas, the optimistic, exclusive and apply writes of a
  whole state, the delta write of the state engine, genesis and deletion, each as one transaction.

  \<open>js\<close> is the text of a JSON value and \<open>sha\<close> SHA-256, the two parameters of the row hash; \<open>iter\<close> is the
  order in which Go visits a map.
\<close>

section \<open>Quotas\<close>

definition hard_quota_from_soft :: "int \<Rightarrow> int" where
  "hard_quota_from_soft soft = (if soft \<le> 0 then 0 else soft + (soft + 1) div 2)"

definition environment_state_prefix :: "principal \<Rightarrow> string \<Rightarrow> string" where
  "environment_state_prefix p state_name =
     (let ws = trim_space (pr_workspace p); env = trim_space (pr_environment p)
      in if ws \<noteq> [] \<and> env \<noteq> [] then ws @ ''/'' @ env @ ''/''
         else (case split_on (CHR ''/'') (trim_slashes (trim_space state_name)) of
            a # b # rest \<Rightarrow> if trim_space a = [] \<or> trim_space b = [] then [] else a @ ''/'' @ b @ ''/''
          | _ \<Rightarrow> []))"

fun count_loop :: "string set \<Rightarrow> (tf_resource \<times> resource_instance) list \<Rightarrow> int" where
  "count_loop seen [] = 0"
| "count_loop seen ((r, inst) # rest) =
     (if i_index_key inst = None \<or> i_index_key inst = Some JNull then 1 + count_loop seen rest
      else (case instance_address r inst of
         Inl e \<Rightarrow> 1 + count_loop seen rest
       | Inr addr \<Rightarrow>
           if addr \<in> seen
           then (if equal_fold (trim_space (i_status inst)) ''deposed'' then count_loop seen rest
                 else 1 + count_loop seen rest)
           else 1 + count_loop (insert addr seen) rest))"

definition count_managed :: "tf_state \<Rightarrow> int" where
  "count_managed st = count_loop {}
     (concat (map (\<lambda>r. map (\<lambda>i. (r, i)) (r_instances r))
       (filter (\<lambda>r. trim_space (r_mode r) = ''managed'') (st_resources st))))"

definition other_resources :: "db \<Rightarrow> string \<Rightarrow> string \<Rightarrow> string \<Rightarrow> int" where
  "other_resources d tenant sid env_prefix = int (length (filter (\<lambda>r.
     (case state_by_id d (lr_state_id r) of None \<Rightarrow> False
      | Some s \<Rightarrow> sr_tenant s = tenant \<and> sr_status s = ''active'' \<and> like (env_prefix @ ''%'') (sr_name s)) \<and>
     rr_mode (lr_row r) = ''managed'' \<and> lr_delete r = None \<and>
     (trim_space sid = [] \<or> lr_state_id r \<noteq> trim_space sid)) (ld_rows (db_ledger d))))"

definition enforce_state_limits ::
    "principal \<Rightarrow> db \<Rightarrow> string \<Rightarrow> string \<Rightarrow> tf_state \<Rightarrow> (store_error, unit) result" where
  "enforce_state_limits p d sid name st =
     (if trim_space (pr_tenant p) = [] then Inr ()
      else (case db_tenants d (pr_tenant p) of
         None \<Rightarrow> Inr ()
       | Some t \<Rightarrow>
          (let count = count_managed st;
               hard_state = hard_quota_from_soft (tn_max_state_resources t);
               hard_env = hard_quota_from_soft (tn_max_environment_resources t);
               total = other_resources d (pr_tenant p) sid (environment_state_prefix p name) + count
           in if hard_state > 0 \<and> count > hard_state then Inl (EntitlementExceeded count hard_state)
              else if hard_env > 0 \<and> total > hard_env then Inl (EntitlementExceeded total hard_env)
              else Inr ())))"

section \<open>One version\<close>

definition parse_state :: "tf_state option \<Rightarrow> (store_error, tf_state) result" where
  "parse_state raw = (case raw of None \<Rightarrow> Inl InvalidState
     | Some s \<Rightarrow> if st_version s \<noteq> 4 then Inl InvalidState else Inr s)"

definition creator_of :: "string \<Rightarrow> state_creator" where
  "creator_of source = (if equal_fold (trim_space source) ''http_backend'' then CreatorBackend else CreatorKL)"

definition insert_version ::
    "principal \<Rightarrow> string \<Rightarrow> int \<Rightarrow> string \<Rightarrow> tf_state \<Rightarrow> string \<Rightarrow> string \<Rightarrow> db \<Rightarrow> (store_error, string \<times> db) result" where
  "insert_version p sid serial tfv raw source actor d =
     (if serial \<in> set (state_serials d sid) then Inl SerialConflict
      else Inr (fresh_id d, d\<lparr>db_versions := db_versions d @
        [\<lparr>vr_id = fresh_id d, vr_state_id = sid, vr_tenant = pr_tenant p, vr_serial = serial,
          vr_terraform_version = tfv, vr_raw = raw, vr_source = source, vr_created_by = actor\<rparr>],
        db_next := Suc (db_next d)\<rparr>))"

definition insert_outputs :: "string \<Rightarrow> string \<Rightarrow> tf_state \<Rightarrow> db \<Rightarrow> db" where
  "insert_outputs tenant vid st d =
     d\<lparr>db_outputs := db_outputs d @ map (\<lambda>(n, out). \<lparr>or_tenant = tenant, or_version_id = vid, or_name = n,
       or_value = json_or_default (o_value out) JNull,
       or_type = json_or_default (o_type out) (JStr ''dynamic''), or_sensitive = o_sensitive out\<rparr>) (st_outputs st)\<rparr>"

definition normalize_state ::
    "(json \<Rightarrow> string) \<Rightarrow> (string \<Rightarrow> string) \<Rightarrow> string \<Rightarrow> string \<Rightarrow> string \<Rightarrow> int \<Rightarrow> tf_state \<Rightarrow> db \<Rightarrow>
     (store_error, db) result" where
  "normalize_state js sha tenant sid vid serial st d =
     bind_result (lift_error LedgerFailed (build_resource_rows js sha st)) (\<lambda>rows.
     bind_result (lift_error LedgerFailed (apply_resource_delta sid serial rows (db_ledger d))) (\<lambda>L.
       Inr (insert_outputs tenant vid st (d\<lparr>db_ledger := L\<rparr>))))"

definition set_current :: "string \<Rightarrow> string \<Rightarrow> db \<Rightarrow> db" where
  "set_current sid vid d = update_state sid (\<lambda>r. r\<lparr>sr_current := Some vid\<rparr>) d"

definition log_state_write :: "principal \<Rightarrow> string \<Rightarrow> string \<Rightarrow> string \<Rightarrow> string \<Rightarrow> int \<Rightarrow> db \<Rightarrow> db" where
  "log_state_write p sid vid actor source serial d =
     log_event ''state_write'' (pr_tenant p) sid (Some vid) actor
       [(''source'', JStr source), (''serial'', JNum serial)] d"

definition advance_lock :: "string \<Rightarrow> string \<Rightarrow> int \<Rightarrow> db \<Rightarrow> db" where
  "advance_lock sid lock_id serial d =
     d\<lparr>db_locks := map (\<lambda>l. if lk_state_id l = sid \<and> li_id (lk_info l) = lock_id
       then l\<lparr>lk_source_serial := Some serial\<rparr> else l) (db_locks d)\<rparr>"

section \<open>Writing a whole state\<close>

text \<open>The optimistic path: what is stored for the proposal \<open>parsed\<close>.\<close>

definition optimistic_merge ::
    "(instance_map \<Rightarrow> instance_map) \<Rightarrow> db \<Rightarrow> string \<Rightarrow> string \<Rightarrow> tf_state \<Rightarrow> (store_error, tf_state) result" where
  "optimistic_merge iter d sid lock_id parsed =
     (case read_lock_source_serial d sid lock_id of
        None \<Rightarrow> bind_result (check_any_lock_blocks d sid lock_id) (\<lambda>_. Inr parsed)
      | Some source \<Rightarrow>
          if source > 0 then
            (case read_current_version_raw d sid of
               None \<Rightarrow> Inr parsed
             | Some (trunk_serial, trunk) \<Rightarrow>
                 if trunk_serial > source then
                   (case read_version_raw_at_serial d sid source of
                      None \<Rightarrow> Inl ReadBaseFailed
                    | Some (vid, base) \<Rightarrow>
                        bind_result (parse_state (Some base)) (\<lambda>base_parsed.
                        bind_result (parse_state (Some trunk)) (\<lambda>trunk_parsed.
                          lift_error MergeFailed (merge_states iter base_parsed trunk_parsed parsed))))
                 else Inr parsed)
          else Inr parsed)"

definition route_write ::
    "(instance_map \<Rightarrow> instance_map) \<Rightarrow> db \<Rightarrow> string \<Rightarrow> string \<Rightarrow> bool \<Rightarrow> tf_state \<Rightarrow> (store_error, tf_state) result" where
  "route_write iter d sid lock_id bypass parsed =
     (if bypass then Inr parsed
      else if exclusive_flag d sid
        then bind_result (check_lock_for_write d sid lock_id) (\<lambda>_. Inr parsed)
      else optimistic_merge iter d sid lock_id parsed)"

definition assign_serial :: "db \<Rightarrow> string \<Rightarrow> bool \<Rightarrow> tf_state \<Rightarrow> int" where
  "assign_serial d sid bypass st =
     (if bypass \<and> st_serial st > 0 then st_serial st else next_serial d sid)"

definition write_state_internal ::
    "(json \<Rightarrow> string) \<Rightarrow> (string \<Rightarrow> string) \<Rightarrow> (instance_map \<Rightarrow> instance_map) \<Rightarrow> principal \<Rightarrow> string \<Rightarrow> string \<Rightarrow>
     tf_state option \<Rightarrow> string \<Rightarrow> string \<Rightarrow> bool \<Rightarrow> db \<Rightarrow> (store_error, db) result" where
  "write_state_internal js sha iter p name lock_id raw source actor bypass d0 =
     bind_result (parse_state raw) (\<lambda>parsed.
     bind_result (enforce_tenant_active d0 (pr_tenant p)) (\<lambda>_.
     bind_result (upsert_state p name (st_lineage parsed) (creator_of source) d0) (\<lambda>(sid, d).
     bind_result (enforce_state_limits p d sid name parsed) (\<lambda>_.
     bind_result (route_write iter d sid lock_id bypass parsed) (\<lambda>stored0.
       let serial = assign_serial d sid bypass stored0;
           stored = stored0\<lparr>st_serial := serial\<rparr>
       in bind_result (insert_version p sid serial (st_terraform_version stored) stored source actor d) (\<lambda>(vid, d).
          bind_result (normalize_state js sha (pr_tenant p) sid vid serial stored d) (\<lambda>d.
            let d = log_state_write p sid vid actor source serial (set_current sid vid d)
            in Inr (if \<not> bypass \<and> trim_space lock_id \<noteq> [] then advance_lock sid (trim_space lock_id) serial d
                    else d))))))))"

definition write_state ::
    "(json \<Rightarrow> string) \<Rightarrow> (string \<Rightarrow> string) \<Rightarrow> (instance_map \<Rightarrow> instance_map) \<Rightarrow> principal \<Rightarrow> string \<Rightarrow> string \<Rightarrow>
     tf_state option \<Rightarrow> string \<Rightarrow> string \<Rightarrow> db \<Rightarrow> (store_error, db) result" where
  "write_state js sha iter p name lock_id raw source actor =
     write_state_internal js sha iter p name lock_id raw source actor False"

definition write_state_for_apply ::
    "(json \<Rightarrow> string) \<Rightarrow> (string \<Rightarrow> string) \<Rightarrow> (instance_map \<Rightarrow> instance_map) \<Rightarrow> principal \<Rightarrow> string \<Rightarrow> string \<Rightarrow>
     int \<Rightarrow> tf_state option \<Rightarrow> string \<Rightarrow> string \<Rightarrow> db \<Rightarrow> (store_error, db) result" where
  "write_state_for_apply js sha iter p name apply_id base_serial raw source actor =
     write_state_internal js sha iter p name [] raw source actor True"

section \<open>Writing a delta\<close>

definition merge_output_delta ::
    "(string \<times> tf_output) list \<Rightarrow> (string \<times> tf_output) list \<Rightarrow> string list \<Rightarrow> (string \<times> tf_output) list" where
  "merge_output_delta current written deletes =
     (let kept = filter (\<lambda>(n, v). n \<notin> trimmed deletes) current;
          named = filter (\<lambda>(n, v). n \<noteq> []) (map (\<lambda>(n, v). (trim_space n, v)) written)
      in foldl (\<lambda>m (n, v). AList.update n v m) kept named)"

definition load_current_outputs :: "db \<Rightarrow> string \<Rightarrow> (store_error, (string \<times> tf_output) list) result" where
  "load_current_outputs d sid =
     (case read_current_version_raw d sid of
        None \<Rightarrow> Inr []
      | Some (serial, raw) \<Rightarrow> bind_result (parse_state (Some raw)) (\<lambda>parsed. Inr (st_outputs parsed)))"

text \<open>The tail the two delta writes share: rows, canonical resources, quota, version, outputs, current.\<close>

definition commit_delta ::
    "(json \<Rightarrow> string) \<Rightarrow> (string \<Rightarrow> string) \<Rightarrow> principal \<Rightarrow> string \<Rightarrow> string \<Rightarrow> int \<Rightarrow> tf_state \<Rightarrow> string list \<Rightarrow>
     string \<Rightarrow> string \<Rightarrow> db \<Rightarrow> (store_error, db) result" where
  "commit_delta js sha p name sid serial parsed changed source actor d =
     bind_result (lift_error LedgerFailed (build_resource_rows js sha parsed)) (\<lambda>rows.
     bind_result (lift_error LedgerFailed (apply_resource_delta_selected sid serial rows changed (db_ledger d))) (\<lambda>L.
     bind_result (lift_error LedgerFailed (build_current_resources L sid)) (\<lambda>resources.
       let d = d\<lparr>db_ledger := L\<rparr>;
           stored = parsed\<lparr>st_serial := serial, st_resources := resources\<rparr>
       in bind_result (enforce_state_limits p d sid name stored) (\<lambda>_.
          bind_result (insert_version p sid serial (st_terraform_version stored) stored source actor d) (\<lambda>(vid, d).
            Inr (log_state_write p sid vid actor source serial
              (set_current sid vid (insert_outputs (pr_tenant p) vid stored d))))))))"

definition write_state_delta_for_apply ::
    "(json \<Rightarrow> string) \<Rightarrow> (string \<Rightarrow> string) \<Rightarrow> principal \<Rightarrow> string \<Rightarrow> string \<Rightarrow> int \<Rightarrow> tf_state option \<Rightarrow> string \<Rightarrow> string \<Rightarrow>
     string list \<Rightarrow> db \<Rightarrow> (store_error, db) result" where
  "write_state_delta_for_apply js sha p name apply_id base_serial raw source actor changed0 d0 =
     bind_result (parse_state raw) (\<lambda>parsed.
     bind_result (enforce_tenant_active d0 (pr_tenant p)) (\<lambda>_.
     bind_result (upsert_state p name (st_lineage parsed) (creator_of source) d0) (\<lambda>(sid, d).
       let serial = (if st_serial parsed > 0 then st_serial parsed else next_serial d sid)
       in commit_delta js sha p name sid serial parsed (dedupe_sorted changed0) source actor d)))"

definition delta_state :: "delta_commit \<Rightarrow> tf_state" where
  "delta_state delta = \<lparr>st_version = 4, st_terraform_version = trim_space (dc_terraform_version delta),
     st_serial = 0, st_lineage = trim_space (dc_lineage delta), st_outputs = [],
     st_resources = dc_resources delta, st_check_results = dc_check_results delta\<rparr>"

definition write_engine_delta_for_apply ::
    "(json \<Rightarrow> string) \<Rightarrow> (string \<Rightarrow> string) \<Rightarrow> principal \<Rightarrow> string \<Rightarrow> string \<Rightarrow> int \<Rightarrow> delta_commit \<Rightarrow> string \<Rightarrow> string \<Rightarrow>
     db \<Rightarrow> (store_error, db) result" where
  "write_engine_delta_for_apply js sha p name apply_id base_serial delta source actor d0 =
     (let changed = dedupe_sorted (dc_write_set delta @ dc_delete_set delta);
          parsed = delta_state delta
      in bind_result (enforce_tenant_active d0 (pr_tenant p)) (\<lambda>_.
         bind_result (upsert_state p name (st_lineage parsed) (creator_of source) d0) (\<lambda>(sid, d).
         bind_result (load_current_outputs d sid) (\<lambda>current.
           commit_delta js sha p name sid (next_serial d sid)
             (parsed\<lparr>st_outputs := merge_output_delta current (dc_output_writes delta) (dc_output_delete_set delta)\<rparr>)
             changed source actor d))))"

section \<open>Genesis and deletion\<close>

definition ensure_current_state_info ::
    "(json \<Rightarrow> string) \<Rightarrow> (string \<Rightarrow> string) \<Rightarrow> principal \<Rightarrow> string \<Rightarrow> db \<Rightarrow>
     (store_error, (string \<times> string \<times> int \<times> tf_state) \<times> db) result" where
  "ensure_current_state_info js sha p name d0 =
     (case get_current_state_info d0 (pr_tenant p) name of
        Inr info \<Rightarrow> Inr (info, d0)
      | Inl e \<Rightarrow>
          if e \<noteq> StateNotFound then Inl e
          else
            bind_result (enforce_tenant_active d0 (pr_tenant p)) (\<lambda>_.
            bind_result (upsert_state p name [] CreatorKL d0) (\<lambda>(sid, d).
              case state_by_id d sid of None \<Rightarrow> Inl StateNotFound | Some r \<Rightarrow>
                (case current_version d r of
                   Some v \<Rightarrow> Inr ((sid, vr_id v, vr_serial v, vr_raw v), d)
                 | None \<Rightarrow>
                     (let empty = empty_state []
                      in bind_result (insert_version p sid 0 (st_terraform_version empty) empty
                             ''genesis'' ''system'' d) (\<lambda>(vid, d).
                         bind_result (normalize_state js sha (pr_tenant p) sid vid 0 empty d) (\<lambda>d.
                           Inr ((sid, vid, 0, empty), set_current sid vid d))))))))"

text \<open>Deleting a state deletes by cascade its versions, their outputs, its rows and its locks.\<close>

definition drop_state :: "string \<Rightarrow> db \<Rightarrow> db" where
  "drop_state sid d =
     d\<lparr>db_states := filter (\<lambda>r. sr_id r \<noteq> sid) (db_states d),
       db_versions := filter (\<lambda>v. vr_state_id v \<noteq> sid) (db_versions d),
       db_locks := filter (\<lambda>l. lk_state_id l \<noteq> sid) (db_locks d),
       db_ledger := (db_ledger d)\<lparr>ld_rows := filter (\<lambda>r. lr_state_id r \<noteq> sid) (ld_rows (db_ledger d))\<rparr>,
       db_outputs := filter (\<lambda>out. \<forall>v \<in> set (db_versions d). vr_state_id v = sid \<longrightarrow> vr_id v \<noteq> or_version_id out)
         (db_outputs d)\<rparr>"

definition delete_state :: "principal \<Rightarrow> string \<Rightarrow> string \<Rightarrow> string \<Rightarrow> db \<Rightarrow> (store_error, db) result" where
  "delete_state p name lock_id actor d =
     bind_result (enforce_tenant_active d (pr_tenant p)) (\<lambda>_.
       case match_any_lifecycle d (pr_tenant p) name of
         None \<Rightarrow> Inl StateNotFound
       | Some r \<Rightarrow>
           bind_result (check_lock_for_write d (sr_id r) lock_id) (\<lambda>_.
             Inr (drop_state (sr_id r) (log_event ''state_delete'' (pr_tenant p) (sr_id r) None actor [] d))))"

end
