(* ===== verification/StoreInvariant.thy ===== *)
theory StoreInvariant
  imports Store
begin

text \<open>
  The invariant of the store: the schema's constraints hold, the ledger of every state stays within the
  serials of its versions, the current version is the latest one, and the ledger shows at the serial of
  every version the resources of the document stored for it. Every operation keeps it.
\<close>

section \<open>Serials\<close>

lemma foldl_max: "foldl max s ss = Max (set (s # ss))" for s :: int
proof -
  have "(\<lambda>x s. max s x) = (max :: int \<Rightarrow> int \<Rightarrow> int)" by (intro ext) (simp add: max.commute)
  then show ?thesis by (simp only: Max.set_eq_fold foldl_conv_fold)
qed

lemma max_serial_Max: "state_serials d sid \<noteq> [] \<Longrightarrow> max_serial d sid = Max (set (state_serials d sid))"
  by (simp add: max_serial_def foldl_max split: list.splits del: Max_insert)

lemma next_serial_fresh: "s \<in> set (state_serials d sid) \<Longrightarrow> s < next_serial d sid"
  using Max_ge[of "set (state_serials d sid)" s] max_serial_Max[of d sid]
  by (cases "state_serials d sid = []") (auto simp: next_serial_def)

lemma max_serial_snoc:
  assumes "state_serials d' sid = state_serials d sid @ [s]" and "\<forall>x \<in> set (state_serials d sid). x < s"
  shows "max_serial d' sid = s"
proof -
  have "max_serial d' sid = Max (set (state_serials d' sid))"
    by (rule max_serial_Max) (simp add: assms(1))
  also have "\<dots> = s" by (rule Max_eqI) (use assms in \<open>auto intro: less_imp_le\<close>)
  finally show ?thesis .
qed

section \<open>The invariant\<close>

definition ledger_tracks :: "db \<Rightarrow> string \<Rightarrow> bool" where
  "ledger_tracks d sid \<longleftrightarrow> ledger_ok sid (max_serial d sid) (db_ledger d) \<and>
     (state_serials d sid = [] \<longrightarrow> rows_of sid (db_ledger d) = [])"

definition current_latest :: "db \<Rightarrow> state_row \<Rightarrow> bool" where
  "current_latest d r \<longleftrightarrow> (if state_serials d (sr_id r) = [] then sr_current r = None
     else \<exists>v \<in> set (db_versions d). sr_current r = Some (vr_id v) \<and> vr_state_id v = sr_id r \<and>
       vr_serial v = max_serial d (sr_id r))"

definition store_ok :: "db \<Rightarrow> bool" where
  "store_ok d \<longleftrightarrow> db_ok d \<and> (\<forall>sid. ledger_tracks d sid) \<and> (\<forall>r \<in> set (db_states d). current_latest d r)"

text \<open>The ledger shows a version.\<close>

definition shows_version :: "(json \<Rightarrow> string) \<Rightarrow> (string \<Rightarrow> string) \<Rightarrow> ledger \<Rightarrow> version_row \<Rightarrow> bool" where
  "shows_version js sha L v \<longleftrightarrow> st_serial (vr_raw v) = vr_serial v \<and> st_version (vr_raw v) = 4 \<and>
     (\<exists>rows. build_resource_rows js sha (vr_raw v) = Inr rows \<and>
       (\<forall>a. hash_at (vr_state_id v) L (vr_serial v) a = map_option rr_hash (parsed_map rows a)))"

definition faithful :: "(json \<Rightarrow> string) \<Rightarrow> (string \<Rightarrow> string) \<Rightarrow> db \<Rightarrow> bool" where
  "faithful js sha d \<longleftrightarrow> (\<forall>v \<in> set (db_versions d). shows_version js sha (db_ledger d) v)"

text \<open>The ledger after a write of the state \<open>sid\<close> at \<open>serial\<close>: one commit step, or no change.\<close>

definition ledger_commit :: "db \<Rightarrow> string \<Rightarrow> int \<Rightarrow> ledger \<Rightarrow> bool" where
  "ledger_commit d sid serial L \<longleftrightarrow> L = db_ledger d \<or>
     (\<exists>s0 scope parsed ids news. commit_step sid s0 serial (db_ledger d) L scope parsed ids news)"

lemma ledger_base:
  assumes "ledger_tracks d sid" and "\<forall>s \<in> set (state_serials d sid). s < serial"
  obtains s0 where "s0 < serial" "ledger_ok sid s0 (db_ledger d)"
proof (cases "state_serials d sid = []")
  case True
  then have "ledger_ok sid (serial - 1) (db_ledger d)"
    using assms(1) by (simp add: ledger_tracks_def ledger_ok_rows_of)
  then show ?thesis using that[of "serial - 1"] by simp
next
  case False
  then have "max_serial d sid < serial" using assms(2) max_serial_Max[OF False] by simp
  then show ?thesis using that assms(1) by (simp add: ledger_tracks_def)
qed

text \<open>A new version on top of the others: what the database looks like after it.\<close>

definition version_added :: "db \<Rightarrow> string \<Rightarrow> version_row \<Rightarrow> db \<Rightarrow> bool" where
  "version_added d sid v d' \<longleftrightarrow>
     sid \<in> state_ids d \<and> vr_state_id v = sid \<and> vr_id v = fresh_id d \<and>
     (\<forall>s \<in> set (state_serials d sid). s < vr_serial v) \<and>
     db_versions d' = db_versions d @ [v] \<and> db_next d' = Suc (db_next d) \<and>
     db_states d' = db_states (set_current sid (vr_id v) d) \<and>
     map (\<lambda>l. (lk_state_id l, li_id (lk_info l))) (db_locks d') = map (\<lambda>l. (lk_state_id l, li_id (lk_info l))) (db_locks d) \<and>
     or_version_id ` set (db_outputs d') \<subseteq> insert (vr_id v) (or_version_id ` set (db_outputs d)) \<and>
     ledger_commit d sid (vr_serial v) (db_ledger d')"

lemma version_addedD:
  assumes "version_added d sid v d'"
  shows "sid \<in> state_ids d" "vr_state_id v = sid" "vr_id v = fresh_id d"
    "\<forall>s \<in> set (state_serials d sid). s < vr_serial v" "db_versions d' = db_versions d @ [v]"
    "db_states d' = db_states (set_current sid (vr_id v) d)"
    "or_version_id ` set (db_outputs d') \<subseteq> insert (vr_id v) (or_version_id ` set (db_outputs d))"
    "ledger_commit d sid (vr_serial v) (db_ledger d')"
  using assms unfolding version_added_def by blast+

lemma state_serials_added:
  "version_added d sid v d' \<Longrightarrow> state_serials d' i = state_serials d i @ (if i = sid then [vr_serial v] else [])"
  by (auto simp: version_added_def state_serials_def)

lemma fresh_version: "db_ok d \<Longrightarrow> fresh_id d \<notin> vr_id ` set (db_versions d)"
  using fresh_not_issued by (auto simp: db_ok_def versions_ok_def)

lemma ledger_added_rows:
  assumes "version_added d sid v d'" and "i \<noteq> sid"
  shows "rows_of i (db_ledger d') = rows_of i (db_ledger d)"
  using assms commit_other_states by (auto simp: version_added_def ledger_commit_def)

lemma version_added_db_ok:
  assumes ok: "db_ok d" and a: "version_added d sid v d'"
  shows "db_ok d'"
proof -
  note f = fresh_version[OF ok]
  have st: "db_states d' = db_states (set_current sid (vr_id v) d)" and sid: "sid \<in> state_ids d"
    using a by (simp_all add: version_added_def)
  have "state_ids d' = state_ids (set_current sid (vr_id v) d)" by (simp add: state_ids_def st)
  then have ids: "state_ids d' = state_ids d" by (simp add: set_current_def)
  have iss: "issued d' = insert (vr_id v) (issued d)"
    using a by (simp add: version_added_def issued_def fresh_id_def lessThan_Suc)
  have keys: "map sr_id (db_states d') = map sr_id (db_states d)"
    "map (\<lambda>r. (sr_tenant r, sr_name r)) (db_states d') = map (\<lambda>r. (sr_tenant r, sr_name r)) (db_states d)"
    "sr_status ` set (db_states d') = sr_status ` set (db_states d)"
    unfolding st set_current_def by simp_all
  have "states_ok d'" using ok keys ids iss by (auto simp: db_ok_def states_ok_def)
  moreover have "versions_ok d'"
  proof -
    have "(sid, vr_serial v) \<notin> (\<lambda>v. (vr_state_id v, vr_serial v)) ` set (db_versions d)"
      using version_addedD(4)[OF a] by (force simp: state_serials_def)
    moreover have "or_version_id ` set (db_outputs d') \<subseteq> insert (vr_id v) (vr_id ` set (db_versions d))"
    proof -
      have "or_version_id ` set (db_outputs d) \<subseteq> vr_id ` set (db_versions d)"
        using ok by (simp add: db_ok_def versions_ok_def)
      then show ?thesis using version_addedD(7)[OF a] by (meson insert_mono subset_trans)
    qed
    moreover have "versions_ok d" "vr_id v \<notin> vr_id ` set (db_versions d)"
      using ok f version_addedD(3)[OF a] by (simp_all add: db_ok_def)
    ultimately show ?thesis
      using sid by (simp add: versions_ok_def version_addedD(2,5)[OF a] ids iss subset_insertI2)
  qed
  moreover have "locks_ok d'"
  proof -
    have "map (\<lambda>l. (lk_state_id l, li_id (lk_info l))) (db_locks d') = map (\<lambda>l. (lk_state_id l, li_id (lk_info l))) (db_locks d)"
      using a by (simp add: version_added_def)
    moreover from arg_cong[OF this, of "map fst"] have "map lk_state_id (db_locks d') = map lk_state_id (db_locks d)"
      by (simp add: comp_def)
    moreover from arg_cong[OF this, of set] have "lk_state_id ` set (db_locks d') = lk_state_id ` set (db_locks d)" by simp
    ultimately show ?thesis using ok ids by (simp add: db_ok_def locks_ok_def)
  qed
  moreover have "current_ok d'"
    using ok a by (auto simp: db_ok_def current_ok_def version_added_def set_current_def update_state_def)
  moreover have "rows_ok d'"
  proof -
    have "lr_state_id ` set (ld_rows (db_ledger d')) \<subseteq> insert sid (lr_state_id ` set (ld_rows (db_ledger d)))"
      using version_addedD(8)[OF a] commit_row_states unfolding ledger_commit_def by (elim disjE exE) auto
    then show ?thesis using ok sid unfolding db_ok_def rows_ok_def ids by auto
  qed
  ultimately show ?thesis by (simp add: db_ok_def)
qed

lemma version_added_tracks:
  assumes ok: "store_ok d" and a: "version_added d sid v d'"
  shows "ledger_tracks d' i"
proof -
  have tr: "ledger_tracks d i" for i using ok by (simp add: store_ok_def)
  have fresh: "\<forall>s \<in> set (state_serials d sid). s < vr_serial v" using a by (simp add: version_added_def)
  have max: "max_serial d' i = (if i = sid then vr_serial v else max_serial d i)"
    using max_serial_snoc[of d' sid d] state_serials_added[OF a] fresh by (auto simp: max_serial_def)
  obtain s0 where s0: "s0 < vr_serial v" "ledger_ok sid s0 (db_ledger d)" using ledger_base[OF tr fresh] .
  have lc: "ledger_commit d sid (vr_serial v) (db_ledger d')" using a by (simp add: version_added_def)
  have ok': "ledger_ok i (max_serial d' i) (db_ledger d')"
  proof (cases "i = sid")
    case True
    then show ?thesis
      using lc max s0 commit_ledger_ok ledger_ok_mono[OF s0(2)] by (auto simp: ledger_commit_def)
  next
    case False
    have "ledger_ok i (max_serial d i) (db_ledger d)" using tr[of i] by (simp add: ledger_tracks_def)
    then show ?thesis using lc max False commit_other_ok[OF _ False] by (auto simp: ledger_commit_def)
  qed
  moreover have "state_serials d' i = [] \<longrightarrow> rows_of i (db_ledger d') = []"
    using state_serials_added[OF a, of i] ledger_added_rows[OF a, of i] tr[of i]
    by (auto simp: ledger_tracks_def)
  ultimately show ?thesis by (simp add: ledger_tracks_def)
qed

lemma version_added_latest:
  assumes ok: "store_ok d" and a: "version_added d sid v d'" and r: "r \<in> set (db_states d')"
  shows "current_latest d' r"
proof -
  have st: "db_states d' = db_states (set_current sid (vr_id v) d)" using a by (simp add: version_added_def)
  obtain r0 where r0: "r0 \<in> set (db_states d)" "r = (if sr_id r0 = sid then r0\<lparr>sr_current := Some (vr_id v)\<rparr> else r0)"
    using r unfolding st set_current_def update_state_def by auto
  have fresh: "\<forall>s \<in> set (state_serials d sid). s < vr_serial v" using a by (simp add: version_added_def)
  show ?thesis
  proof (cases "sr_id r0 = sid")
    case True
    then have r: "sr_id r = sid" "sr_current r = Some (vr_id v)" using r0(2) by simp_all
    have "max_serial d' sid = vr_serial v"
      using max_serial_snoc[of d' sid d, OF _ fresh] state_serials_added[OF a, of sid] by simp
    moreover have "v \<in> set (db_versions d')" "vr_state_id v = sid" using version_addedD(2,5)[OF a] by simp_all
    moreover have "state_serials d' sid \<noteq> []" using state_serials_added[OF a, of sid] by simp
    ultimately show ?thesis unfolding current_latest_def r by (simp, intro bexI[of _ v]) simp_all
  next
    case False
    then have r: "r = r0" using r0(2) by simp
    have ser: "state_serials d' (sr_id r0) = state_serials d (sr_id r0)"
      using False state_serials_added[OF a, of "sr_id r0"] by simp
    then have max: "max_serial d' (sr_id r0) = max_serial d (sr_id r0)" by (simp add: max_serial_def)
    have sub: "set (db_versions d) \<subseteq> set (db_versions d')" using version_addedD(5)[OF a] by auto
    have "current_latest d r0" using ok r0(1) by (simp add: store_ok_def)
    then show ?thesis unfolding current_latest_def r ser max using sub by (simp split: if_splits) blast
  qed
qed

lemma version_added_store_ok:
  assumes "store_ok d" and "version_added d sid v d'"
  shows "store_ok d'"
  using version_added_db_ok[OF _ assms(2)] version_added_tracks[OF assms] version_added_latest[OF assms] assms(1)
  by (simp add: store_ok_def)

text \<open>The versions that were there are shown as before.\<close>

lemma version_added_shows:
  assumes ok: "store_ok d" and a: "version_added d sid v d'" and w: "w \<in> set (db_versions d)"
    and s: "shows_version js sha (db_ledger d) w"
  shows "shows_version js sha (db_ledger d') w"
proof -
  have "hash_at (vr_state_id w) (db_ledger d') (vr_serial w) k = hash_at (vr_state_id w) (db_ledger d) (vr_serial w) k" for k
  proof (cases "vr_state_id w = sid")
    case True
    then have "vr_serial w \<in> set (state_serials d sid)" using w by (auto simp: state_serials_def)
    then have lt: "vr_serial w < vr_serial v" using version_addedD(4)[OF a] by blast
    from version_addedD(8)[OF a] show ?thesis unfolding ledger_commit_def True
    proof (elim disjE exE)
      fix s0 scope parsed ids news
      assume "commit_step sid s0 (vr_serial v) (db_ledger d) (db_ledger d') scope parsed ids news"
      from commit_content_past[OF this lt] show "hash_at sid (db_ledger d') (vr_serial w) k = hash_at sid (db_ledger d) (vr_serial w) k"
        by (simp add: hash_at_def)
    qed simp
  next
    case False
    show ?thesis by (rule hash_at_rows_cong) (rule ledger_added_rows[OF a False])
  qed
  then show ?thesis using s by (simp add: shows_version_def)
qed

lemma version_added_faithful:
  assumes "store_ok d" and "faithful js sha d" and "version_added d sid v d'"
    and "shows_version js sha (db_ledger d') v"
  shows "faithful js sha d'"
  unfolding faithful_def
proof
  fix w assume "w \<in> set (db_versions d')"
  then consider "w \<in> set (db_versions d)" | "w = v" using version_addedD(5)[OF assms(3)] by auto
  then show "shows_version js sha (db_ledger d') w"
    using version_added_shows[OF assms(1,3)] assms(2,4) by cases (auto simp: faithful_def)
qed

section \<open>Operations that write no version\<close>

definition quiet :: "db \<Rightarrow> db \<Rightarrow> bool" where
  "quiet d d' \<longleftrightarrow> db_ok d' \<and> db_versions d' = db_versions d \<and> db_ledger d' = db_ledger d \<and>
     (\<forall>r \<in> set (db_states d'). (\<exists>r0 \<in> set (db_states d). sr_id r0 = sr_id r \<and> sr_current r0 = sr_current r) \<or>
        (sr_current r = None \<and> sr_id r \<notin> state_ids d))"

lemma quiet_serials: "quiet d d' \<Longrightarrow> state_serials d' sid = state_serials d sid"
  by (simp add: quiet_def state_serials_def)

lemma quiet_refl: "db_ok d \<Longrightarrow> quiet d d"
  by (auto simp: quiet_def)

lemma no_state_no_serials: "db_ok d \<Longrightarrow> sid \<notin> state_ids d \<Longrightarrow> state_serials d sid = []"
  by (auto simp: state_serials_def db_ok_def versions_ok_def filter_empty_conv)

lemma quiet_store_ok:
  assumes ok: "store_ok d" and q: "quiet d d'"
  shows "store_ok d'"
proof -
  have max: "max_serial d' sid = max_serial d sid" for sid by (simp add: max_serial_def quiet_serials[OF q])
  have same: "db_versions d' = db_versions d" "db_ledger d' = db_ledger d" using q by (simp_all add: quiet_def)
  have tr: "ledger_tracks d' sid" for sid
  proof -
    have "ledger_tracks d sid" using ok by (simp add: store_ok_def)
    then show ?thesis by (simp add: ledger_tracks_def max quiet_serials[OF q] same)
  qed
  have "current_latest d' r" if r: "r \<in> set (db_states d')" for r
  proof -
    have "(\<exists>r0 \<in> set (db_states d). sr_id r0 = sr_id r \<and> sr_current r0 = sr_current r) \<or>
        (sr_current r = None \<and> sr_id r \<notin> state_ids d)" using q r unfolding quiet_def by (elim conjE) (rule bspec)
    then show ?thesis
    proof (elim disjE bexE conjE)
      fix r0 assume r0: "r0 \<in> set (db_states d)" "sr_id r0 = sr_id r" "sr_current r0 = sr_current r"
      have "current_latest d r0" using ok r0(1) by (simp add: store_ok_def)
      then show ?thesis unfolding current_latest_def quiet_serials[OF q] max same r0(2) r0(3) .
    next
      assume "sr_current r = None" "sr_id r \<notin> state_ids d"
      then show ?thesis
        using no_state_no_serials ok by (simp add: current_latest_def quiet_serials[OF q] store_ok_def)
    qed
  qed
  then show ?thesis using q tr by (simp add: store_ok_def quiet_def)
qed

lemma quiet_faithful: "faithful js sha d \<Longrightarrow> quiet d d' \<Longrightarrow> faithful js sha d'"
  by (simp add: faithful_def quiet_def)

lemma quiet_upsert:
  assumes "db_ok d" and "upsert_state p name lineage creator d = Inr (sid, d')"
  shows "quiet d d'"
proof -
  have ok': "db_ok d'" using upsert_state_ok[OF assms] by blast
  have same: "db_versions d' = db_versions d" "db_ledger d' = db_ledger d"
    using upsert_state_frame[OF assms(2)] by simp_all
  have "(\<exists>r0 \<in> set (db_states d). sr_id r0 = sr_id r \<and> sr_current r0 = sr_current r) \<or>
      (sr_current r = None \<and> sr_id r \<notin> state_ids d)" if r: "r \<in> set (db_states d')" for r
    using assms(2)
  proof (cases rule: upsert_state_cases)
    case (old r')
    then show ?thesis using r by (auto simp: update_state_def)
  next
    case (new r')
    then show ?thesis using r fresh_not_state[OF assms(1)] by (auto simp: add_state_def)
  qed
  then show ?thesis using ok' same by (simp add: quiet_def)
qed

lemma quiet_trans:
  assumes "quiet d d'" and "quiet d' d''" and "state_ids d \<subseteq> state_ids d'"
  shows "quiet d d''"
  using assms unfolding quiet_def by (auto, metis, (metis subsetD)+)

lemma quiet_states: "db_ok d' \<Longrightarrow> db_versions d' = db_versions d \<Longrightarrow> db_ledger d' = db_ledger d \<Longrightarrow>
   db_states d' = db_states d \<Longrightarrow> quiet d d'"
  by (auto simp: quiet_def)

lemma quiet_lock_op:
  assumes "db_ok d" and "run_lock_op js op d = Inr d'"
  shows "quiet d d'"
proof (cases op)
  case (LockOp p name info now)
  then have "acquire_lock p name info now d = Inr d'" using assms(2) by simp
  then show ?thesis
  proof (cases rule: acquire_lockE)
    case (1 sid d1 src)
    have "quiet d d1" using quiet_upsert[OF assms(1) 1(1)] .
    then show ?thesis using run_lock_op_ok[OF assms] 1(6) by (simp add: quiet_def)
  qed
next
  case (EngineLockOp p name a h sc cr now)
  then have "acquire_engine_lock js p name a h sc cr now d = Inr d'" using assms(2) by simp
  then show ?thesis
  proof (cases rule: acquire_engine_lockE)
    case (held sid e)
    then show ?thesis using quiet_upsert[OF assms(1)] by blast
  next
    case (taken sid d1 info)
    have "quiet d d1" using quiet_upsert[OF assms(1) taken(1)] .
    then show ?thesis using run_lock_op_ok[OF assms] taken(4) by (simp add: quiet_def)
  qed
qed (use assms run_lock_op_ok[OF assms] in \<open>auto intro!: quiet_states simp: release_lock_def force_release_lock_def
  release_engine_lock_def Let_def split: option.splits if_splits\<close>)

section \<open>Deleting a state\<close>

lemma drop_state_simps [simp]:
  "state_ids (drop_state sid d) = state_ids d - {sid}" "issued (drop_state sid d) = issued d"
  "rows_of i (db_ledger (drop_state sid d)) = (if i = sid then [] else rows_of i (db_ledger d))"
  "state_serials (drop_state sid d) i = (if i = sid then [] else state_serials d i)"
  by (auto simp: drop_state_def state_ids_def issued_def rows_of_def state_serials_def filter_empty_conv
      intro!: filter_cong arg_cong[where f = "map vr_serial"])

lemma drop_state_db_ok:
  assumes "db_ok d"
  shows "db_ok (drop_state sid d)"
proof -
  have "states_ok (drop_state sid d)"
    using assms by (auto simp: db_ok_def states_ok_def) (auto simp: drop_state_def distinct_map_filter)
  moreover have "versions_ok (drop_state sid d)"
  proof -
    have "or_version_id x \<in> vr_id ` set (filter (\<lambda>v. vr_state_id v \<noteq> sid) (db_versions d))"
      if "x \<in> set (db_outputs d)" "\<forall>v \<in> set (db_versions d). vr_state_id v = sid \<longrightarrow> vr_id v \<noteq> or_version_id x" for x
    proof -
      have "or_version_id x \<in> vr_id ` set (db_versions d)" using assms that(1) by (auto simp: db_ok_def versions_ok_def)
      then show ?thesis using that(2) by auto
    qed
    then show ?thesis using assms unfolding db_ok_def versions_ok_def drop_state_simps
      by (auto simp: drop_state_def distinct_map_filter)
  qed
  moreover have "locks_ok (drop_state sid d)"
    using assms unfolding db_ok_def locks_ok_def drop_state_simps by (auto simp: drop_state_def distinct_map_filter)
  moreover have "current_ok (drop_state sid d)"
    using assms by (fastforce simp: db_ok_def current_ok_def drop_state_def)
  moreover have "rows_ok (drop_state sid d)"
    using assms unfolding db_ok_def rows_ok_def drop_state_simps by (auto simp: drop_state_def)
  ultimately show ?thesis by (simp add: db_ok_def)
qed

lemma drop_state_store_ok:
  assumes "store_ok d"
  shows "store_ok (drop_state sid d)"
proof -
  have rows: "set (ld_rows (db_ledger (drop_state sid d))) \<subseteq> set (ld_rows (db_ledger d))"
    "ld_next_id (db_ledger (drop_state sid d)) = ld_next_id (db_ledger d)"
    "distinct (map lr_id (ld_rows (db_ledger d))) \<Longrightarrow> distinct (map lr_id (ld_rows (db_ledger (drop_state sid d))))"
    by (auto simp: drop_state_def distinct_map_filter)
  have "ledger_tracks (drop_state sid d) i" for i
  proof -
    have t: "ledger_tracks d i" using assms by (simp add: store_ok_def)
    have "no_overlap (db_ledger (drop_state sid d))"
      using t rows(1) unfolding ledger_tracks_def ledger_ok_def no_overlap_def by blast
    then show ?thesis
      using t rows by (auto simp: ledger_tracks_def ledger_ok_rows_of max_serial_def)
  qed
  moreover have "current_latest (drop_state sid d) r" if "r \<in> set (db_states (drop_state sid d))" for r
  proof -
    have r: "r \<in> set (db_states d)" "sr_id r \<noteq> sid" using that by (auto simp: drop_state_def)
    then have "current_latest d r" using assms by (simp add: store_ok_def)
    then show ?thesis using r(2) by (auto simp: current_latest_def max_serial_def) (auto simp: drop_state_def)
  qed
  ultimately show ?thesis using drop_state_db_ok assms by (simp add: store_ok_def)
qed

lemma drop_state_faithful:
  assumes "faithful js sha d"
  shows "faithful js sha (drop_state sid d)"
  unfolding faithful_def
proof
  fix v assume "v \<in> set (db_versions (drop_state sid d))"
  then have v: "v \<in> set (db_versions d)" "vr_state_id v \<noteq> sid" by (auto simp: drop_state_def)
  have "hash_at (vr_state_id v) (db_ledger (drop_state sid d)) q a = hash_at (vr_state_id v) (db_ledger d) q a" for q a
    by (rule hash_at_rows_cong) (simp add: v(2))
  then show "shows_version js sha (db_ledger (drop_state sid d)) v"
    using assms v(1) by (simp add: faithful_def shows_version_def)
qed

section \<open>Whole-state writes\<close>

lemma insert_versionE:
  assumes "insert_version p sid serial tfv raw source actor d = Inr (vid, d')"
  obtains v where "vr_id v = fresh_id d" "vr_state_id v = sid" "vr_serial v = serial" "vr_raw v = raw" "vid = fresh_id d"
    "serial \<notin> set (state_serials d sid)" "d' = d\<lparr>db_versions := db_versions d @ [v], db_next := Suc (db_next d)\<rparr>"
proof -
  let ?v = "\<lparr>vr_id = fresh_id d, vr_state_id = sid, vr_tenant = pr_tenant p, vr_serial = serial,
      vr_terraform_version = tfv, vr_raw = raw, vr_source = source, vr_created_by = actor\<rparr>"
  show thesis by (rule that[of ?v]) (use assms in \<open>auto simp: insert_version_def split: if_splits\<close>)
qed

lemma advance_lock_simps [simp]:
  "db_versions (advance_lock sid i s d) = db_versions d" "db_states (advance_lock sid i s d) = db_states d"
  "db_ledger (advance_lock sid i s d) = db_ledger d" "db_outputs (advance_lock sid i s d) = db_outputs d"
  "db_next (advance_lock sid i s d) = db_next d"
  "map (\<lambda>l. (lk_state_id l, li_id (lk_info l))) (db_locks (advance_lock sid i s d))
     = map (\<lambda>l. (lk_state_id l, li_id (lk_info l))) (db_locks d)"
  by (simp_all add: advance_lock_def)

lemma insert_outputs_simps [simp]:
  "db_versions (insert_outputs t vid st d) = db_versions d" "db_states (insert_outputs t vid st d) = db_states d"
  "db_ledger (insert_outputs t vid st d) = db_ledger d" "db_locks (insert_outputs t vid st d) = db_locks d"
  "db_next (insert_outputs t vid st d) = db_next d"
  by (simp_all add: insert_outputs_def)

lemma insert_outputs_ids:
  "or_version_id ` set (db_outputs (insert_outputs t vid st d)) \<subseteq> insert vid (or_version_id ` set (db_outputs d))"
  by (auto simp: insert_outputs_def)

lemma set_current_simps [simp]:
  "db_versions (set_current sid vid d) = db_versions d" "db_locks (set_current sid vid d) = db_locks d"
  "db_ledger (set_current sid vid d) = db_ledger d" "db_outputs (set_current sid vid d) = db_outputs d"
  "db_next (set_current sid vid d) = db_next d"
  by (simp_all add: set_current_def)

lemma log_state_write_simps [simp]:
  "db_versions (log_state_write p sid vid a src s d) = db_versions d" "db_locks (log_state_write p sid vid a src s d) = db_locks d"
  "db_ledger (log_state_write p sid vid a src s d) = db_ledger d" "db_outputs (log_state_write p sid vid a src s d) = db_outputs d"
  "db_states (log_state_write p sid vid a src s d) = db_states d" "db_next (log_state_write p sid vid a src s d) = db_next d"
  by (simp_all add: log_state_write_def)

lemma set_current_states: "db_states d' = db_states d \<Longrightarrow> db_states (set_current sid vid d') = db_states (set_current sid vid d)"
  by (simp add: set_current_def update_state_def)

lemma normalize_stateE:
  assumes "normalize_state js sha t sid vid serial st d = Inr d'"
  obtains rows L where "build_resource_rows js sha st = Inr rows"
    "apply_resource_delta sid serial rows (db_ledger d) = Inr L" "d' = insert_outputs t vid st (d\<lparr>db_ledger := L\<rparr>)"
  using assms by (auto simp: normalize_state_def)

text \<open>What a whole-state write did.\<close>

definition full_write ::
    "(json \<Rightarrow> string) \<Rightarrow> (string \<Rightarrow> string) \<Rightarrow> db \<Rightarrow> string \<Rightarrow> version_row \<Rightarrow> db \<Rightarrow> bool" where
  "full_write js sha d sid v d' \<longleftrightarrow>
     vr_state_id v = sid \<and> vr_id v = fresh_id d \<and> st_serial (vr_raw v) = vr_serial v \<and>
     vr_serial v \<notin> set (state_serials d sid) \<and>
     db_versions d' = db_versions d @ [v] \<and> db_next d' = Suc (db_next d) \<and>
     db_states d' = db_states (set_current sid (vr_id v) d) \<and>
     map (\<lambda>l. (lk_state_id l, li_id (lk_info l))) (db_locks d') = map (\<lambda>l. (lk_state_id l, li_id (lk_info l))) (db_locks d) \<and>
     or_version_id ` set (db_outputs d') \<subseteq> insert (vr_id v) (or_version_id ` set (db_outputs d)) \<and>
     (\<exists>rows. build_resource_rows js sha (vr_raw v) = Inr rows \<and>
        apply_resource_delta sid (vr_serial v) rows (db_ledger d) = Inr (db_ledger d'))"

lemma write_state_internalE:
  assumes "write_state_internal js sha iter p name lock_id raw source actor bypass d0 = Inr d'"
  obtains parsed sid d stored v where "parse_state raw = Inr parsed"
    "upsert_state p name (st_lineage parsed) (creator_of source) d0 = Inr (sid, d)"
    "enforce_state_limits p d sid name parsed = Inr ()"
    "route_write iter d sid lock_id bypass parsed = Inr stored"
    "vr_serial v = assign_serial d sid bypass stored" "vr_raw v = stored\<lparr>st_serial := vr_serial v\<rparr>"
    "full_write js sha d sid v d'"
proof -
  obtain parsed where 1: "parse_state raw = Inr parsed" using assms by (auto simp: write_state_internal_def)
  obtain sid d where 2: "upsert_state p name (st_lineage parsed) (creator_of source) d0 = Inr (sid, d)"
    using assms 1 by (auto simp: write_state_internal_def)
  obtain stored where 3: "enforce_state_limits p d sid name parsed = Inr ()"
    "route_write iter d sid lock_id bypass parsed = Inr stored"
    using assms 1 2 by (auto simp: write_state_internal_def)
  let ?s = "assign_serial d sid bypass stored" and ?st = "stored\<lparr>st_serial := assign_serial d sid bypass stored\<rparr>"
  obtain vid d2 d3 where 4: "insert_version p sid ?s (st_terraform_version ?st) ?st source actor d = Inr (vid, d2)"
    "normalize_state js sha (pr_tenant p) sid vid ?s ?st d2 = Inr d3"
    "d' = (let e = log_state_write p sid vid actor source ?s (set_current sid vid d3)
           in if \<not> bypass \<and> trim_space lock_id \<noteq> [] then advance_lock sid (trim_space lock_id) ?s e else e)"
    using assms 1 2 3 by (auto simp: write_state_internal_def Let_def)
  from 4(1) obtain v where v: "vr_id v = fresh_id d" "vr_state_id v = sid" "vr_serial v = ?s" "vr_raw v = ?st"
    "vid = fresh_id d" "?s \<notin> set (state_serials d sid)"
    "d2 = d\<lparr>db_versions := db_versions d @ [v], db_next := Suc (db_next d)\<rparr>" by (rule insert_versionE)
  from 4(2) obtain rows L where n: "build_resource_rows js sha ?st = Inr rows"
    "apply_resource_delta sid ?s rows (db_ledger d2) = Inr L"
    "d3 = insert_outputs (pr_tenant p) vid ?st (d2\<lparr>db_ledger := L\<rparr>)" by (rule normalize_stateE)
  have d3: "db_versions d3 = db_versions d @ [v]" "db_next d3 = Suc (db_next d)" "db_states d3 = db_states d"
    "db_locks d3 = db_locks d" "db_ledger d3 = L" "db_ledger d2 = db_ledger d" "db_outputs d2 = db_outputs d"
    by (simp_all add: n(3) v(7))
  have outs: "or_version_id ` set (db_outputs d3) \<subseteq> insert vid (or_version_id ` set (db_outputs d))"
    using insert_outputs_ids[of "pr_tenant p" vid ?st "d2\<lparr>db_ledger := L\<rparr>"] d3(7) by (simp add: n(3))
  have d': "db_versions d' = db_versions d3" "db_next d' = db_next d3" "db_ledger d' = db_ledger d3"
    "db_outputs d' = db_outputs d3" "db_states d' = db_states (set_current sid vid d3)"
    "map (\<lambda>l. (lk_state_id l, li_id (lk_info l))) (db_locks d') = map (\<lambda>l. (lk_state_id l, li_id (lk_info l))) (db_locks d3)"
    unfolding 4(3) Let_def by simp_all
  have "full_write js sha d sid v d'"
    unfolding full_write_def d' d3 using v(1-6) n(1,2) outs set_current_states[OF d3(3)] d3(6) by simp
  then show thesis using that[OF 1 2 3(1) 3(2), of v] v(3,4) by simp
qed

text \<open>A full write at a serial above all others keeps the invariant and shows its document.\<close>

lemma full_write_added:
  assumes ok: "store_ok d" and w: "full_write js sha d sid v d'" and sid: "sid \<in> state_ids d"
    and top: "\<forall>s \<in> set (state_serials d sid). s < vr_serial v" and ver: "st_version (vr_raw v) = 4"
  shows "version_added d sid v d'" and "shows_version js sha (db_ledger d') v"
proof -
  have "ledger_tracks d sid" using ok by (simp add: store_ok_def)
  then obtain s0 where s0: "s0 < vr_serial v" "ledger_ok sid s0 (db_ledger d)" using top ledger_base by blast
  obtain rows where rows: "build_resource_rows js sha (vr_raw v) = Inr rows"
    "apply_resource_delta sid (vr_serial v) rows (db_ledger d) = Inr (db_ledger d')"
    using w by (auto simp: full_write_def)
  obtain ids news where c: "commit_step sid s0 (vr_serial v) (db_ledger d) (db_ledger d') (\<lambda>_. True) (parsed_map rows) ids news"
    using full_commit_step[OF s0(2,1) rows(2)] .
  show "version_added d sid v d'"
    using w sid top c unfolding full_write_def version_added_def ledger_commit_def by blast
  have "hash_at sid (db_ledger d') (vr_serial v) a = map_option rr_hash (parsed_map rows a)" for a
    by (rule commit_hash_in_scope[OF c]) simp
  then show "shows_version js sha (db_ledger d') v"
    using w ver rows(1) unfolding shows_version_def full_write_def by auto
qed

lemma full_write_ok:
  assumes "store_ok d" and "full_write js sha d sid v d'" and "sid \<in> state_ids d"
    and "\<forall>s \<in> set (state_serials d sid). s < vr_serial v" and "st_version (vr_raw v) = 4"
  shows "store_ok d'" and "faithful js sha d \<Longrightarrow> faithful js sha d'"
  using full_write_added[OF assms] version_added_store_ok version_added_faithful assms(1) by blast+

lemma parse_state_version: "parse_state raw = Inr s \<Longrightarrow> st_version s = 4 \<and> raw = Some s"
  by (auto simp: parse_state_def split: option.splits if_splits)

lemma route_write_version:
  "route_write iter d sid lock_id bypass parsed = Inr stored \<Longrightarrow> st_version parsed = 4 \<Longrightarrow> st_version stored = 4"
  by (auto simp: route_write_def optimistic_merge_def merge_states_def Let_def split: option.splits if_splits prod.splits)

lemma write_state_internal_ok:
  assumes ok: "store_ok d0" and w: "write_state_internal js sha iter p name lock_id raw source actor bypass d0 = Inr d'"
    and top: "\<And>s r. bypass \<Longrightarrow> raw = Some s \<Longrightarrow> st_serial s > 0 \<Longrightarrow> r \<in> set (db_states d0) \<Longrightarrow>
      sr_tenant r = pr_tenant p \<Longrightarrow> sr_name r = name \<Longrightarrow> \<forall>x \<in> set (state_serials d0 (sr_id r)). x < st_serial s"
  shows "store_ok d'" and "faithful js sha d0 \<Longrightarrow> faithful js sha d'"
proof -
  from w obtain parsed sid d stored v where e: "parse_state raw = Inr parsed"
    "upsert_state p name (st_lineage parsed) (creator_of source) d0 = Inr (sid, d)"
    "route_write iter d sid lock_id bypass parsed = Inr stored"
    "vr_serial v = assign_serial d sid bypass stored" "vr_raw v = stored\<lparr>st_serial := vr_serial v\<rparr>"
    "full_write js sha d sid v d'" by (rule write_state_internalE)
  have q: "quiet d0 d" using quiet_upsert[OF _ e(2)] ok by (simp add: store_ok_def)
  have ok1: "store_ok d" by (rule quiet_store_ok[OF ok q])
  have sid: "sid \<in> state_ids d" using upsert_state_ok[OF _ e(2)] ok by (simp add: store_ok_def)
  have ver: "st_version (vr_raw v) = 4"
    using route_write_version[OF e(3)] parse_state_version[OF e(1)] e(5) by simp
  have "\<forall>s \<in> set (state_serials d sid). s < vr_serial v"
  proof (cases "bypass \<and> st_serial stored > 0")
    case True
    then have st: "stored = parsed" "raw = Some parsed" "vr_serial v = st_serial parsed"
      using e(3,4) parse_state_version[OF e(1)] by (auto simp: route_write_def assign_serial_def)
    show ?thesis using e(2)
    proof (cases rule: upsert_state_cases)
      case (old r)
      then have "\<forall>x \<in> set (state_serials d0 sid). x < st_serial parsed" using top[of parsed r] True st by simp
      then show ?thesis using quiet_serials[OF q] st(3) by simp
    next
      case (new r)
      then have "state_serials d0 sid = []"
        using no_state_no_serials fresh_not_state ok by (simp add: store_ok_def)
      then show ?thesis using quiet_serials[OF q] by simp
    qed
  next
    case False
    then show ?thesis using e(4) next_serial_fresh by (auto simp: assign_serial_def)
  qed
  from full_write_ok[OF ok1 e(6) sid this ver] quiet_faithful[OF _ q]
  show "store_ok d'" and "faithful js sha d0 \<Longrightarrow> faithful js sha d'" by blast+
qed

end
