(* ===== verification/StoreKeeps.thy ===== *)
theory StoreKeeps
  imports StoreInvariant
begin

text \<open>
  The invariant of the store together with the documents, and that every operation of \<^verbatim>\<open>pkg/store/state.go\<close> keeps it.
  The states a client sends have instance keys that the index columns can hold (\<open>index_plain\<close>), and a write
  that brings its own serial brings one above all others, as the apply orchestrator does (it takes the serial
  of the trunk it has just read plus one).
\<close>

section \<open>The invariant with documents\<close>

definition plain_resources :: "tf_resource list \<Rightarrow> bool" where
  "plain_resources rs \<longleftrightarrow> (\<forall>r \<in> set rs. \<forall>i \<in> set (r_instances r). index_plain (i_index_key i))"

definition docs_plain :: "db \<Rightarrow> bool" where
  "docs_plain d \<longleftrightarrow> (\<forall>v \<in> set (db_versions d). plain_resources (st_resources (vr_raw v)))"

definition rows_regular :: "(json \<Rightarrow> string) \<Rightarrow> (string \<Rightarrow> string) \<Rightarrow> ledger \<Rightarrow> bool" where
  "rows_regular js sha L \<longleftrightarrow> (\<forall>r \<in> set (ld_rows L). regular js sha (lr_row r))"

definition store_inv :: "(json \<Rightarrow> string) \<Rightarrow> (string \<Rightarrow> string) \<Rightarrow> db \<Rightarrow> bool" where
  "store_inv js sha d \<longleftrightarrow> store_ok d \<and> faithful js sha d \<and> docs_plain d \<and> rows_regular js sha (db_ledger d)"

lemma quiet_inv: "store_inv js sha d \<Longrightarrow> quiet d d' \<Longrightarrow> store_inv js sha d'"
  using quiet_store_ok quiet_faithful unfolding store_inv_def quiet_def docs_plain_def by metis

lemma drop_state_inv: "store_inv js sha d \<Longrightarrow> store_inv js sha (drop_state sid d)"
  using drop_state_store_ok drop_state_faithful
  by (auto simp: store_inv_def docs_plain_def rows_regular_def) (auto simp: drop_state_def)

section \<open>Full writes\<close>

lemma version_added_inv:
  assumes inv: "store_inv js sha d" and a: "version_added d sid v d'" and s: "shows_version js sha (db_ledger d') v"
    and "plain_resources (st_resources (vr_raw v))" and "rows_regular js sha (db_ledger d')"
  shows "store_inv js sha d'"
proof -
  have "docs_plain d'" using inv assms(4) version_addedD(5)[OF a] by (simp add: store_inv_def docs_plain_def)
  then show ?thesis
    using version_added_store_ok[OF _ a] version_added_faithful[OF _ _ a s] inv assms(5) by (simp add: store_inv_def)
qed

lemma full_write_inv:
  assumes inv: "store_inv js sha d" and w: "full_write js sha d sid v d'" and sid: "sid \<in> state_ids d"
    and top: "\<forall>s \<in> set (state_serials d sid). s < vr_serial v" and ver: "st_version (vr_raw v) = 4"
    and plain: "plain_resources (st_resources (vr_raw v))"
  shows "store_inv js sha d'"
proof -
  have ok: "store_ok d" using inv by (simp add: store_inv_def)
  then have "ledger_tracks d sid" by (simp add: store_ok_def)
  then obtain s0 where s0: "s0 < vr_serial v" "ledger_ok sid s0 (db_ledger d)" using top ledger_base by blast
  obtain rows where rows: "build_resource_rows js sha (vr_raw v) = Inr rows"
    "apply_resource_delta sid (vr_serial v) rows (db_ledger d) = Inr (db_ledger d')"
    using w by (auto simp: full_write_def)
  obtain ids news where c: "commit_step sid s0 (vr_serial v) (db_ledger d) (db_ledger d') (\<lambda>_. True) (parsed_map rows) ids news"
    using full_commit_step[OF s0(2,1) rows(2)] .
  have "regular js sha row" if "parsed_map rows a = Some row" for a row
    using built_regular[OF rows(1)] plain parsed_map_address[OF that] by (simp add: plain_resources_def)
  then have "rows_regular js sha (db_ledger d')"
    using commit_regular[OF c] inv unfolding store_inv_def rows_regular_def by blast
  then show ?thesis
    using version_added_inv[OF inv] full_write_added[OF ok w sid top ver] plain by blast
qed

text \<open>A merge takes its instances from the trunk and the proposal.\<close>

lemma merged_plain:
  assumes m: "merge_states iter base trunk proposed = Inr merged" and v: "visits iter"
    and "plain_resources (st_resources trunk)" and "plain_resources (st_resources proposed)"
  shows "plain_resources (st_resources merged)"
proof -
  let ?M = "merge_maps (writes base proposed) (indexed (state_instances trunk)) (indexed (state_instances proposed))"
  have plain_iff: "plain_resources (st_resources s) \<longleftrightarrow> (\<forall>p \<in> set (state_instances s). index_plain (i_index_key (snd p)))" for s
    by (auto simp: plain_resources_def state_instances_def)
  have r: "st_resources merged = regroup_resources (iter ?M)" by (rule merge_states_InrD(9)[OF m])
  have perm: "mset (iter ?M) = mset ?M" using v by (simp add: visits_def)
  have set_eq: "set (iter ?M) = set ?M" using mset_eq_setD[OF perm] .
  have sub: "set ?M \<subseteq> set (indexed (state_instances trunk)) \<union> set (indexed (state_instances proposed))"
    by (auto simp: merge_maps_def)
  have "keys_match (iter ?M)"
    using keys_match_indexed[OF merge_states_InrD(2)[OF m]] keys_match_indexed[OF merge_states_InrD(3)[OF m]] sub set_eq
    unfolding keys_match_def by blast
  from state_instances_regroup[OF this r]
  have eq: "map (\<lambda>p. (key_of p, snd p)) (state_instances merged) = map (\<lambda>(k, rec). (k, snd rec)) (regroup_order (iter ?M))" .
  have rset: "set (regroup_order (iter ?M)) = set ?M" using mset_eq_setD[OF mset_regroup_order] set_eq by metis
  have "index_plain (i_index_key (snd p))" if "p \<in> set (state_instances merged)" for p
  proof -
    have "(key_of p, snd p) \<in> set (map (\<lambda>p. (key_of p, snd p)) (state_instances merged))" using that by auto
    then obtain k rec where "(k, rec) \<in> set ?M" "snd p = snd rec" unfolding eq using rset by auto
    then have "rec \<in> set (state_instances trunk) \<union> set (state_instances proposed)" "snd p = snd rec"
      using sub by (auto simp: indexed_def)
    then show ?thesis using assms(3,4) unfolding plain_iff by auto
  qed
  then show ?thesis unfolding plain_iff by blast
qed

lemma read_current_mem:
  "read_current_version_raw d sid = Some (serial, raw) \<Longrightarrow> \<exists>v \<in> set (db_versions d). vr_raw v = raw \<and> vr_serial v = serial"
  by (auto simp: read_current_version_raw_def current_version_def version_by_id_def find_Some_iff split: option.splits)

lemma route_write_plain:
  assumes "route_write iter d sid lock_id bypass parsed = Inr stored" and "visits iter" and "docs_plain d"
    and "plain_resources (st_resources parsed)"
  shows "plain_resources (st_resources stored)"
proof -
  consider "stored = parsed" | base trunk serial where "merge_states iter base trunk parsed = Inr stored"
      "read_current_version_raw d sid = Some (serial, trunk)"
    using assms(1) by (auto simp: route_write_def optimistic_merge_def dest!: parse_state_version
        split: if_splits option.splits)
  then show ?thesis
  proof cases
    case 2
    from read_current_mem[OF 2(2)] have "plain_resources (st_resources trunk)"
      using assms(3) by (auto simp: docs_plain_def)
    then show ?thesis using merged_plain[OF 2(1) assms(2)] assms(4) by blast
  qed (use assms(4) in simp)
qed

text \<open>What an operation of the store does: it leaves versions and ledger alone, or it adds one version (after
  it may have created the state). New states get identifiers that were never used.\<close>

definition state_names :: "db \<Rightarrow> (string \<times> string \<times> string) set" where
  "state_names d = (\<lambda>r. (sr_id r, sr_tenant r, sr_name r)) ` set (db_states d)"

definition still :: "db \<Rightarrow> db \<Rightarrow> bool" where
  "still d d' \<longleftrightarrow> db_versions d' = db_versions d \<and> db_ledger d' = db_ledger d \<and> db_next d \<le> db_next d' \<and>
     (\<forall>x \<in> state_names d'. fst x \<in> issued d \<longrightarrow> x \<in> state_names d)"

lemma state_names_cong: "db_states d' = db_states d \<Longrightarrow> state_names d' = state_names d"
  by (simp add: state_names_def)

lemma state_names_update:
  assumes "same_keys f"
  shows "state_names (update_state sid f d) = state_names d"
proof -
  let ?g = "\<lambda>r. if sr_id r = sid then f r else r" and ?k = "\<lambda>r. (sr_id r, sr_tenant r, sr_name r)"
  have "?k (?g r) = ?k r" for r using assms by (simp add: same_keys_def)
  then have e: "map ?k (map ?g (db_states d)) = map ?k (db_states d)" by simp
  have u: "db_states (update_state sid f d) = map ?g (db_states d)" by (simp add: update_state_def)
  show ?thesis unfolding state_names_def u using arg_cong[OF e, of set] by (simp only: set_map)
qed

lemma state_ids_names: "state_ids d = fst ` state_names d"
  by (force simp: state_ids_def state_names_def)

definition committed :: "db \<Rightarrow> db \<Rightarrow> bool" where
  "committed d d' \<longleftrightarrow> (\<exists>e sid v. still d e \<and> version_added e sid v d' \<and>
     (vr_serial v = next_serial e sid \<or> 0 < vr_serial v \<or> (vr_serial v = 0 \<and> rows_of sid (db_ledger d') = rows_of sid (db_ledger e))))"

lemma still_refl: "still d d"
  by (simp add: still_def)

lemma upsert_still:
  assumes "upsert_state p name lineage creator d = Inr (sid, d')"
  shows "still d d'"
  using assms
proof (cases rule: upsert_state_cases)
  case (new r)
  then show ?thesis using fresh_not_issued[of d] by (auto simp: still_def add_state_def state_names_def)
next
  case (old r)
  have "state_names d' = state_names d" unfolding old(5) by (rule state_names_update) (simp add: same_keys_def)
  moreover have "db_next d' = db_next d" using old(5) by simp
  ultimately show ?thesis using upsert_state_frame[OF assms] by (simp add: still_def)
qed

text \<open>A serial the client brings lies above all serials of the state.\<close>

definition serial_ahead :: "principal \<Rightarrow> string \<Rightarrow> tf_state \<Rightarrow> db \<Rightarrow> bool" where
  "serial_ahead p name s d \<longleftrightarrow> st_serial s \<le> 0 \<or> (\<forall>r \<in> set (db_states d).
     sr_tenant r = pr_tenant p \<and> sr_name r = name \<longrightarrow> (\<forall>x \<in> set (state_serials d (sr_id r)). x < st_serial s))"

lemma serial_ahead_upsert:
  assumes "db_ok d" and "upsert_state p name lineage creator d = Inr (sid, d')"
    and "serial_ahead p name s d" and "st_serial s > 0"
  shows "\<forall>x \<in> set (state_serials d' sid). x < st_serial s"
proof -
  have q: "state_serials d' sid = state_serials d sid" by (rule quiet_serials) (rule quiet_upsert[OF assms(1,2)])
  show ?thesis using assms(2)
  proof (cases rule: upsert_state_cases)
    case (old r)
    then show ?thesis using assms(3,4) q by (auto simp: serial_ahead_def)
  next
    case (new r)
    then show ?thesis using no_state_no_serials[OF assms(1)] fresh_not_state[OF assms(1)] q by simp
  qed
qed

lemma write_state_internal_full:
  assumes inv: "store_inv js sha d0"
    and w: "write_state_internal js sha iter p name lock_id raw source actor bypass d0 = Inr d'"
    and v: "visits iter" and plain: "\<And>s. raw = Some s \<Longrightarrow> plain_resources (st_resources s)"
    and ahead: "\<And>s. bypass \<Longrightarrow> raw = Some s \<Longrightarrow> serial_ahead p name s d0"
  obtains sid d v where "still d0 d" "store_inv js sha d" "full_write js sha d sid v d'" "sid \<in> state_ids d"
    "\<forall>s \<in> set (state_serials d sid). s < vr_serial v" "st_version (vr_raw v) = 4" "plain_resources (st_resources (vr_raw v))"
    "vr_serial v = next_serial d sid \<or> 0 < vr_serial v"
proof -
  from w obtain parsed sid d stored v where e: "parse_state raw = Inr parsed"
    "upsert_state p name (st_lineage parsed) (creator_of source) d0 = Inr (sid, d)"
    "route_write iter d sid lock_id bypass parsed = Inr stored"
    "vr_serial v = assign_serial d sid bypass stored" "vr_raw v = stored\<lparr>st_serial := vr_serial v\<rparr>"
    "full_write js sha d sid v d'" by (rule write_state_internalE)
  have db: "db_ok d0" using inv by (simp add: store_inv_def store_ok_def)
  have inv1: "store_inv js sha d" using quiet_inv[OF inv quiet_upsert[OF db e(2)]] .
  have sid: "sid \<in> state_ids d" using upsert_state_ok[OF db e(2)] by blast
  have raw: "raw = Some parsed" using parse_state_version[OF e(1)] by simp
  have ver: "st_version (vr_raw v) = 4"
    using route_write_version[OF e(3)] parse_state_version[OF e(1)] e(5) by simp
  have pl: "plain_resources (st_resources (vr_raw v))"
    using route_write_plain[OF e(3) v] inv1 plain[OF raw] e(5) by (simp add: store_inv_def)
  have "(\<forall>s \<in> set (state_serials d sid). s < vr_serial v) \<and> (vr_serial v = next_serial d sid \<or> 0 < vr_serial v)"
  proof (cases "bypass \<and> st_serial stored > 0")
    case True
    then have "stored = parsed" using e(3) by (simp add: route_write_def)
    then show ?thesis
      using serial_ahead_upsert[OF db e(2) ahead[OF _ raw]] True e(4) by (simp add: assign_serial_def)
  next
    case False
    then show ?thesis using e(4) next_serial_fresh by (auto simp: assign_serial_def)
  qed
  then show thesis using that[OF upsert_still[OF e(2)] inv1 e(6) sid _ ver pl] by blast
qed

lemma write_state_internal_step:
  assumes "store_inv js sha d0"
    and "write_state_internal js sha iter p name lock_id raw source actor bypass d0 = Inr d'"
    and "visits iter" and "\<And>s. raw = Some s \<Longrightarrow> plain_resources (st_resources s)"
    and "\<And>s. bypass \<Longrightarrow> raw = Some s \<Longrightarrow> serial_ahead p name s d0"
  shows "store_inv js sha d' \<and> committed d0 d'"
proof (rule write_state_internal_full[OF assms])
  fix sid d v
  assume s: "still d0 d" "store_inv js sha d" "full_write js sha d sid v d'" "sid \<in> state_ids d"
    "\<forall>s \<in> set (state_serials d sid). s < vr_serial v" "st_version (vr_raw v) = 4" "plain_resources (st_resources (vr_raw v))"
    "vr_serial v = next_serial d sid \<or> 0 < vr_serial v"
  have "version_added d sid v d'" using full_write_added(1)[OF _ s(3-6)] s(2) by (simp add: store_inv_def)
  then have "committed d0 d'" unfolding committed_def using s(1,8) by blast
  then show "store_inv js sha d' \<and> committed d0 d'" using full_write_inv[OF s(2-7)] by blast
qed simp_all

lemmas write_state_internal_inv = write_state_internal_step[THEN conjunct1]

section \<open>Delta writes\<close>

lemma commit_deltaE:
  assumes "commit_delta js sha p name sid serial parsed changed source actor d = Inr d'"
  obtains rows L resources v where "build_resource_rows js sha parsed = Inr rows"
    "apply_resource_delta_selected sid serial rows changed (db_ledger d) = Inr L"
    "build_current_resources L sid = Inr resources"
    "enforce_state_limits p (d\<lparr>db_ledger := L\<rparr>) sid name (parsed\<lparr>st_serial := serial, st_resources := resources\<rparr>) = Inr ()"
    "vr_id v = fresh_id d" "vr_state_id v = sid" "vr_serial v = serial"
    "vr_raw v = parsed\<lparr>st_serial := serial, st_resources := resources\<rparr>"
    "serial \<notin> set (state_serials d sid)" "db_ledger d' = L"
    "db_versions d' = db_versions d @ [v]" "db_next d' = Suc (db_next d)"
    "db_states d' = db_states (set_current sid (vr_id v) d)" "db_locks d' = db_locks d"
    "or_version_id ` set (db_outputs d') \<subseteq> insert (vr_id v) (or_version_id ` set (db_outputs d))"
proof -
  obtain rows L resources where 1: "build_resource_rows js sha parsed = Inr rows"
    "apply_resource_delta_selected sid serial rows changed (db_ledger d) = Inr L"
    "build_current_resources L sid = Inr resources"
    using assms by (auto simp: commit_delta_def)
  let ?d = "d\<lparr>db_ledger := L\<rparr>" and ?st = "parsed\<lparr>st_serial := serial, st_resources := resources\<rparr>"
  obtain vid d2 where 2: "enforce_state_limits p ?d sid name ?st = Inr ()"
    "insert_version p sid serial (st_terraform_version ?st) ?st source actor ?d = Inr (vid, d2)"
    "d' = log_state_write p sid vid actor source serial (set_current sid vid (insert_outputs (pr_tenant p) vid ?st d2))"
    using assms 1 by (auto simp: commit_delta_def Let_def)
  from 2(2) obtain v where v: "vr_id v = fresh_id ?d" "vr_state_id v = sid" "vr_serial v = serial" "vr_raw v = ?st"
    "vid = fresh_id ?d" "serial \<notin> set (state_serials ?d sid)"
    "d2 = ?d\<lparr>db_versions := db_versions ?d @ [v], db_next := Suc (db_next ?d)\<rparr>" by (rule insert_versionE)
  have ids: "fresh_id ?d = fresh_id d" "state_serials ?d sid = state_serials d sid"
    by (simp_all add: fresh_id_def state_serials_def)
  have outs: "or_version_id ` set (db_outputs d') \<subseteq> insert (vr_id v) (or_version_id ` set (db_outputs d))"
    using insert_outputs_ids[of "pr_tenant p" vid ?st d2] by (simp add: 2(3) v(1,5,7) ids)
  have st: "db_states d' = db_states (set_current sid (vr_id v) d)"
    using set_current_states[of "insert_outputs (pr_tenant p) vid ?st d2" d sid vid] by (simp add: 2(3) v(1,5,7) ids)
  have d': "db_ledger d' = L" "db_versions d' = db_versions d @ [v]" "db_next d' = Suc (db_next d)" "db_locks d' = db_locks d"
    by (simp_all add: 2(3) v(7))
  show thesis
    by (rule that[OF 1 2(1) v(1)[unfolded ids] v(2-4) v(6)[unfolded ids] d'(1-3) st d'(4) outs])
qed

lemma commit_delta_step:
  assumes inv: "store_inv js sha d" and w: "commit_delta js sha p name sid serial parsed changed source actor d = Inr d'"
    and sid: "sid \<in> state_ids d" and top: "\<forall>s \<in> set (state_serials d sid). s < serial"
    and ver: "st_version parsed = 4" and plain: "plain_resources (st_resources parsed)"
  shows "store_inv js sha d' \<and> (\<exists>v. version_added d sid v d' \<and> vr_serial v = serial)"
  using w
proof (cases rule: commit_deltaE)
  case (1 rows L resources v)
  have "ledger_tracks d sid" using inv by (simp add: store_inv_def store_ok_def)
  then obtain s0 where s0: "s0 < serial" "ledger_ok sid s0 (db_ledger d)" using top ledger_base by blast
  have reg: "regular js sha row" if "parsed_map rows a = Some row" for a row
    using built_regular[OF 1(1)] plain parsed_map_address[OF that] by (simp add: plain_resources_def)
  have "ledger_commit d sid serial L \<and> ledger_ok sid serial L \<and> rows_regular js sha L"
  proof (cases "dedupe_sorted changed = []")
    case True
    then have "L = db_ledger d" using 1(2) by (simp add: apply_resource_delta_selected_def)
    then show ?thesis
      using inv ledger_ok_mono[OF s0(2)] s0(1) by (simp add: store_inv_def ledger_commit_def)
  next
    case False
    obtain ids news where c: "commit_step sid s0 serial (db_ledger d) L (\<lambda>a. a \<in> trimmed changed) (parsed_map rows) ids news"
      using selected_commit_step[OF s0(2,1) 1(2) False] .
    have old: "\<forall>r \<in> set (ld_rows (db_ledger d)). regular js sha (lr_row r)"
      using inv by (simp add: store_inv_def rows_regular_def)
    have "rows_regular js sha L"
      unfolding rows_regular_def by (rule commit_regular[OF c old]) (rule reg)
    then show ?thesis using c commit_ledger_ok[OF c] unfolding ledger_commit_def by blast
  qed
  then have lc: "ledger_commit d sid serial L" "ledger_ok sid serial L" "rows_regular js sha L" by blast+
  have a: "version_added d sid v d'"
    using sid top lc(1) 1(5-7,10-15) unfolding version_added_def by simp
  have "\<forall>r \<in> set (ld_rows L). is_open sid r \<longrightarrow> regular js sha (lr_row r)" using lc(3) by (simp add: rows_regular_def)
  from rebuilt_rows[OF this] 1(3)
  have plain': "\<forall>r \<in> set resources. \<forall>i \<in> set (r_instances r). index_plain (i_index_key i)"
    and rebuilt: "\<And>s. st_resources s = resources \<Longrightarrow> \<exists>rows. build_resource_rows js sha s = Inr rows \<and>
      mset rows = mset (map lr_row (filter (is_open sid) (ld_rows L)))"
    by auto
  from rebuilt[of "vr_raw v"] obtain rows' where rows': "build_resource_rows js sha (vr_raw v) = Inr rows'"
    "mset rows' = mset (map lr_row (filter (is_open sid) (ld_rows L)))" using 1(8) by auto
  have "shows_version js sha (db_ledger d') v"
    using rows'(1) open_rows_shown[OF lc(2) order_refl rows'(2)] ver 1(6,7,8,10) by (auto simp: shows_version_def)
  then have "store_inv js sha d'"
    using version_added_inv[OF inv a] plain' lc(3) 1(8,10) by (simp add: plain_resources_def)
  then show ?thesis using a 1(7) by blast
qed

section \<open>The other operations\<close>

lemma write_state_delta_step:
  assumes inv: "store_inv js sha d0"
    and w: "write_state_delta_for_apply js sha p name a b raw source actor changed d0 = Inr d'"
    and plain: "\<And>s. raw = Some s \<Longrightarrow> plain_resources (st_resources s)"
    and ahead: "\<And>s. raw = Some s \<Longrightarrow> serial_ahead p name s d0"
  shows "store_inv js sha d' \<and> committed d0 d'"
proof -
  obtain parsed where 1: "parse_state raw = Inr parsed" using w by (auto simp: write_state_delta_for_apply_def)
  obtain sid d where 2: "upsert_state p name (st_lineage parsed) (creator_of source) d0 = Inr (sid, d)"
    using w 1 by (auto simp: write_state_delta_for_apply_def)
  let ?s = "if st_serial parsed > 0 then st_serial parsed else next_serial d sid"
  have 3: "commit_delta js sha p name sid ?s parsed (dedupe_sorted changed) source actor d = Inr d'"
    using w 1 2 by (auto simp: write_state_delta_for_apply_def Let_def)
  have db: "db_ok d0" using inv by (simp add: store_inv_def store_ok_def)
  have raw: "raw = Some parsed" "st_version parsed = 4" using parse_state_version[OF 1] by simp_all
  have "\<forall>x \<in> set (state_serials d sid). x < ?s"
    using serial_ahead_upsert[OF db 2 ahead[OF raw(1)]] next_serial_fresh by auto
  then have "store_inv js sha d' \<and> (\<exists>v. version_added d sid v d' \<and> vr_serial v = ?s)"
    using commit_delta_step[OF quiet_inv[OF inv quiet_upsert[OF db 2]] 3] upsert_state_ok[OF db 2] plain[OF raw(1)] raw(2)
    by blast
  then show ?thesis using upsert_still[OF 2] unfolding committed_def by (smt (verit, best))
qed

lemmas write_state_delta_inv = write_state_delta_step[THEN conjunct1]

lemma write_engine_delta_step:
  assumes inv: "store_inv js sha d0"
    and w: "write_engine_delta_for_apply js sha p name a b delta source actor d0 = Inr d'"
    and plain: "plain_resources (dc_resources delta)"
  shows "store_inv js sha d' \<and> committed d0 d'"
proof -
  let ?parsed = "delta_state delta"
  obtain sid d where 2: "upsert_state p name (st_lineage ?parsed) (creator_of source) d0 = Inr (sid, d)"
    using w by (auto simp: write_engine_delta_for_apply_def Let_def)
  obtain current where "load_current_outputs d sid = Inr current"
    using w 2 by (auto simp: write_engine_delta_for_apply_def Let_def)
  let ?st = "?parsed\<lparr>st_outputs := merge_output_delta current (dc_output_writes delta) (dc_output_delete_set delta)\<rparr>"
  have 3: "commit_delta js sha p name sid (next_serial d sid) ?st (dedupe_sorted (dc_write_set delta @ dc_delete_set delta))
      source actor d = Inr d'"
    using w 2 \<open>load_current_outputs d sid = Inr current\<close> by (auto simp: write_engine_delta_for_apply_def Let_def)
  have db: "db_ok d0" using inv by (simp add: store_inv_def store_ok_def)
  have "\<forall>x \<in> set (state_serials d sid). x < next_serial d sid" using next_serial_fresh by blast
  moreover have "st_version ?st = 4" "st_resources ?st = dc_resources delta" by (simp_all add: delta_state_def)
  ultimately have "store_inv js sha d' \<and> (\<exists>v. version_added d sid v d' \<and> vr_serial v = next_serial d sid)"
    using commit_delta_step[OF quiet_inv[OF inv quiet_upsert[OF db 2]] 3] upsert_state_ok[OF db 2] plain by simp
  then show ?thesis using upsert_still[OF 2] unfolding committed_def by blast
qed

lemmas write_engine_delta_inv = write_engine_delta_step[THEN conjunct1]

lemma no_current_no_serials:
  assumes inv: "store_inv js sha d" and r: "state_by_id d sid = Some r" and none: "current_version d r = None"
  shows "state_serials d sid = []"
proof (rule ccontr)
  assume ne: "state_serials d sid \<noteq> []"
  have rr: "r \<in> set (db_states d)" "sr_id r = sid" using state_by_id_SomeD[OF r] by simp_all
  then have "current_latest d r" using inv by (simp add: store_inv_def store_ok_def)
  then obtain x where "x \<in> set (db_versions d)" "sr_current r = Some (vr_id x)"
    using ne rr(2) by (auto simp: current_latest_def)
  then show False using none by (auto simp: current_version_def version_by_id_def find_None_iff)
qed

text \<open>A write of a state without resources to a ledger without rows of the state changes nothing.\<close>

lemma empty_delta:
  assumes "rows_of sid L = []" and "apply_resource_delta sid serial [] L = Inr L'"
  shows "L' = L"
proof -
  have o: "filter (is_open sid) (ld_rows L) = []"
    using assms(1) by (auto simp: rows_of_def filter_empty_conv is_open_def)
  from assms(2)[unfolded apply_resource_delta_def Let_def o] show ?thesis
    by (auto simp: commit_rows_def parsed_map_def close_resources_def close_row_def map_idI split: if_splits)
qed

lemma ensure_current_step:
  assumes inv: "store_inv js sha d0" and w: "ensure_current_state_info js sha p name d0 = Inr (info, d')"
  shows "store_inv js sha d' \<and> (still d0 d' \<or> committed d0 d')"
proof (cases "get_current_state_info d0 (pr_tenant p) name")
  case (Inr i)
  then show ?thesis using w inv by (simp add: ensure_current_state_info_def still_refl)
next
  case (Inl e)
  obtain sid d where u: "upsert_state p name [] CreatorKL d0 = Inr (sid, d)"
    using w Inl by (auto simp: ensure_current_state_info_def split: if_splits)
  obtain r where r: "state_by_id d sid = Some r"
    using w Inl u by (auto simp: ensure_current_state_info_def split: if_splits option.splits)
  have db: "db_ok d0" using inv by (simp add: store_inv_def store_ok_def)
  have inv1: "store_inv js sha d" using quiet_inv[OF inv quiet_upsert[OF db u]] .
  show ?thesis
  proof (cases "current_version d r")
    case (Some v)
    then have "d' = d" using w Inl u r by (auto simp: ensure_current_state_info_def split: if_splits)
    then show ?thesis using inv1 upsert_still[OF u] by simp
  next
    case None
    let ?e = "empty_state []"
    obtain vid d2 d3 where w2: "insert_version p sid 0 (st_terraform_version ?e) ?e ''genesis'' ''system'' d = Inr (vid, d2)"
      "normalize_state js sha (pr_tenant p) sid vid 0 ?e d2 = Inr d3" "d' = set_current sid vid d3"
      using w Inl u r None by (auto simp: ensure_current_state_info_def Let_def split: if_splits)
    from w2(1) obtain v where v: "vr_id v = fresh_id d" "vr_state_id v = sid" "vr_serial v = 0" "vr_raw v = ?e"
      "vid = fresh_id d" "0 \<notin> set (state_serials d sid)"
      "d2 = d\<lparr>db_versions := db_versions d @ [v], db_next := Suc (db_next d)\<rparr>" by (rule insert_versionE)
    from w2(2) obtain rows L where n: "build_resource_rows js sha ?e = Inr rows"
      "apply_resource_delta sid 0 rows (db_ledger d2) = Inr L"
      "d3 = insert_outputs (pr_tenant p) vid ?e (d2\<lparr>db_ledger := L\<rparr>)" by (rule normalize_stateE)
    have "or_version_id ` set (db_outputs d3) \<subseteq> insert vid (or_version_id ` set (db_outputs d))"
      using insert_outputs_ids[of "pr_tenant p" vid ?e "d2\<lparr>db_ledger := L\<rparr>"] by (simp add: n(3) v(7))
    moreover have "db_states (set_current sid vid d3) = db_states (set_current sid vid d)"
      by (rule set_current_states) (simp add: n(3) v(7))
    ultimately have full: "full_write js sha d sid v d'"
      using v n w2(3) by (simp add: full_write_def empty_state_def)
    have none: "state_serials d sid = []" by (rule no_current_no_serials[OF inv1 r None])
    have sid: "sid \<in> state_ids d" using upsert_state_ok[OF db u] by blast
    have inv': "store_inv js sha d'"
      using full_write_inv[OF inv1 full sid] none v(4) by (simp add: empty_state_def plain_resources_def)
    have added: "version_added d sid v d'"
      using full_write_added(1)[OF _ full sid] inv1 none v(4) by (simp add: store_inv_def empty_state_def)
    have "rows_of sid (db_ledger d) = []" using inv1 none by (simp add: store_inv_def store_ok_def ledger_tracks_def)
    moreover have "L = db_ledger d" if "rows_of sid (db_ledger d) = []"
      using n(1,2) that empty_delta v(7) by (simp add: build_resource_rows_def empty_state_def)
    ultimately have "rows_of sid (db_ledger d') = rows_of sid (db_ledger d)" using n(3) w2(3) by simp
    then have "committed d0 d'" unfolding committed_def using added upsert_still[OF u] v(3) by blast
    then show ?thesis using inv' by blast
  qed
qed

lemmas ensure_current_inv = ensure_current_step[THEN conjunct1]

lemma update_state_quiet:
  assumes "db_ok d" and "same_keys f" and "\<And>r. sr_current (f r) = sr_current r"
  shows "quiet d (update_state sid f d)"
proof -
  have "(\<exists>r0 \<in> set (db_states d). sr_id r0 = sr_id r \<and> sr_current r0 = sr_current r)"
    if "r \<in> set (db_states (update_state sid f d))" for r
    using that assms(2,3) by (fastforce simp: update_state_def same_keys_def)
  then show ?thesis using update_state_ok[OF assms(1,2), of sid] assms(3) by (auto simp: quiet_def)
qed

lemma update_state_inv:
  assumes "store_inv js sha d" and "same_keys f" and "\<And>r. sr_current (f r) = sr_current r"
  shows "store_inv js sha (update_state sid f d)"
  by (rule quiet_inv[OF assms(1)], rule update_state_quiet) (use assms in \<open>simp_all add: store_inv_def store_ok_def\<close>)

lemma delete_state_step:
  assumes inv: "store_inv js sha d" and w: "delete_state p name lock_id actor d = Inr d'"
  shows "store_inv js sha d' \<and> (\<exists>i e. still d e \<and> d' = drop_state i e)"
proof -
  from w have "\<exists>i. d' = drop_state i (log_event ''state_delete'' (pr_tenant p) i None actor [] d)"
    by (auto simp: delete_state_def split: option.splits)
  then obtain i where "d' = drop_state i (log_event ''state_delete'' (pr_tenant p) i None actor [] d)" ..
  moreover have "quiet d (log_event k t i vv actor pl d)" for k t i vv pl
    using inv by (intro quiet_states) (simp_all add: store_inv_def store_ok_def)
  moreover have "still d (log_event k t i vv actor pl d)" for k t i vv pl
    by (simp add: still_def log_event_def state_names_def)
  ultimately show ?thesis using drop_state_inv quiet_inv[OF inv] by metis
qed

lemmas delete_state_inv = delete_state_step[THEN conjunct1]

lemma modes_inv:
  "store_inv js sha d \<Longrightarrow> set_exclusive_locks p name on d = Inr d' \<Longrightarrow> store_inv js sha d'"
  "store_inv js sha d \<Longrightarrow> set_coexistence_mode p name m d = Inr d' \<Longrightarrow> store_inv js sha d'"
  by (auto simp: set_exclusive_locks_def set_coexistence_mode_def Let_def split: if_splits option.splits
      intro!: update_state_inv)

end
