(* ===== verification/Versions.thy ===== *)
theory Versions
  imports StoreKeeps "HOL-Library.List_Lexorder" "HOL-Library.Char_ord"
begin

text \<open>
  Versions as operators name them: references to a version (\<^verbatim>\<open>pkg/store/versions.go\<close>), the tags that are one
  kind of them (\<^verbatim>\<open>pkg/store/tags.go\<close>), and the rollback of a whole state, which writes an old version again
  as the newest one. The table of the tags is separate from the others; nothing else reads it. Sizes and
  times of creation are not modelled.
\<close>

section \<open>References\<close>

record tag_row =
  tg_tenant :: string
  tg_state_id :: string
  tg_version_id :: string
  tg_tag :: string
  tg_description :: "string option"
  tg_actor :: string
  tg_created :: nat
  tg_updated :: nat

datatype version_error =
    StoreFailed store_error
  | TagNotFound
  | TagReserved string
  | BadRef string

record version_info =
  vi_id :: string
  vi_state_id :: string
  vi_state_name :: string
  vi_serial :: int
  vi_terraform_version :: string
  vi_source :: string
  vi_created_by :: string
  vi_is_current :: bool

definition looks_like_uuid :: "string \<Rightarrow> bool" where
  "looks_like_uuid s \<longleftrightarrow> length s = 36 \<and> s ! 8 = CHR ''-'' \<and> s ! 13 = CHR ''-'' \<and> s ! 18 = CHR ''-'' \<and> s ! 23 = CHR ''-''"

definition ref_looks_like_tag :: "string \<Rightarrow> bool" where
  "ref_looks_like_tag ref =
     (if ref = [] \<or> ref = ''current'' then False
      else if has_prefix ref ''@'' then False
      else if looks_like_uuid ref then False
      else list_ex (\<lambda>c. \<not> is_digit c) ref)"

definition resolve_tag :: "tag_row list \<Rightarrow> string \<Rightarrow> string \<Rightarrow> string \<Rightarrow> (version_error, string) result" where
  "resolve_tag tags tenant sid tag =
     (case find (\<lambda>t. tg_tenant t = tenant \<and> tg_state_id t = sid \<and> tg_tag t = tag) tags of
        None \<Rightarrow> Inl TagNotFound | Some t \<Rightarrow> Inr (tg_version_id t))"

text \<open>The versions of a state, newest first.\<close>

definition versions_desc :: "db \<Rightarrow> string \<Rightarrow> version_row list" where
  "versions_desc d sid = rev (sort_key vr_serial (filter (\<lambda>v. vr_state_id v = sid) (db_versions d)))"

definition find_version :: "db \<Rightarrow> string \<Rightarrow> (version_row \<Rightarrow> bool) \<Rightarrow> (version_error, version_row) result" where
  "find_version d sid sel =
     (case find (\<lambda>v. vr_state_id v = sid \<and> sel v) (db_versions d) of
        None \<Rightarrow> Inl (StoreFailed StateNotFound) | Some v \<Rightarrow> Inr v)"

text \<open>\<^verbatim>\<open>versionLookupQuery\<close> and its row.\<close>

definition version_lookup :: "db \<Rightarrow> string \<Rightarrow> string \<Rightarrow> (version_error, version_row) result" where
  "version_lookup d sid ref =
     (if ref = [] \<or> ref = ''current'' \<or> ref = ''@0'' then
        find_version d sid (\<lambda>v. (case state_by_id d sid of None \<Rightarrow> False | Some r \<Rightarrow> sr_current r = Some (vr_id v)))
      else if has_prefix ref ''@'' then
        (case atoi (tl ref) of
           None \<Rightarrow> Inl (BadRef ref)
         | Some n \<Rightarrow> if n < 0 then Inl (BadRef ref)
             else (let vs = versions_desc d sid
                   in if nat n < length vs then Inr (vs ! nat n) else Inl (StoreFailed StateNotFound)))
      else if looks_like_uuid ref then find_version d sid (\<lambda>v. vr_id v = ref)
      else (case atoi ref of None \<Rightarrow> Inl (BadRef ref) | Some s \<Rightarrow> find_version d sid (\<lambda>v. vr_serial v = s)))"

text \<open>A tag is resolved to the identifier of its version first, which has the shape of a UUID.\<close>

definition resolve_version :: "db \<Rightarrow> tag_row list \<Rightarrow> string \<Rightarrow> string \<Rightarrow> string \<Rightarrow> (version_error, version_row) result" where
  "resolve_version d tags tenant sid ref =
     (if ref_looks_like_tag ref
      then bind_result (resolve_tag tags tenant sid ref) (\<lambda>vid. find_version d sid (\<lambda>v. vr_id v = vid))
      else version_lookup d sid ref)"

definition info_of :: "string \<Rightarrow> string option \<Rightarrow> version_row \<Rightarrow> version_info" where
  "info_of name current v = \<lparr>vi_id = vr_id v, vi_state_id = vr_state_id v, vi_state_name = name, vi_serial = vr_serial v,
     vi_terraform_version = vr_terraform_version v, vi_source = vr_source v, vi_created_by = vr_created_by v,
     vi_is_current = (current = Some (vr_id v))\<rparr>"

definition lookup_state_and_current :: "db \<Rightarrow> string \<Rightarrow> string \<Rightarrow> (version_error, string \<times> string option) result" where
  "lookup_state_and_current d tenant name =
     (case find_state d tenant name of None \<Rightarrow> Inl (StoreFailed StateNotFound) | Some r \<Rightarrow> Inr (sr_id r, sr_current r))"

definition get_version_raw ::
    "db \<Rightarrow> tag_row list \<Rightarrow> string \<Rightarrow> string \<Rightarrow> string \<Rightarrow> (version_error, version_info \<times> tf_state) result" where
  "get_version_raw d tags tenant name ref =
     bind_result (lookup_state_and_current d tenant name) (\<lambda>(sid, current).
     bind_result (resolve_version d tags tenant sid ref) (\<lambda>v. Inr (info_of name current v, vr_raw v)))"

definition list_versions ::
    "db \<Rightarrow> string \<Rightarrow> string \<Rightarrow> int \<Rightarrow> int \<Rightarrow> (version_error, version_info list) result" where
  "list_versions d tenant name limit offset =
     bind_result (lookup_state_and_current d tenant name) (\<lambda>(sid, current).
       let vs = drop (if offset > 0 then nat offset else 0) (versions_desc d sid)
       in Inr (map (info_of name current) (if limit > 0 then take (nat limit) vs else vs)))"

section \<open>Tags\<close>

definition validate_tag_name :: "string \<Rightarrow> (version_error, unit) result" where
  "validate_tag_name tag =
     (if tag = [] then Inl (TagReserved tag)
      else if length tag > 64 then Inl (TagReserved tag)
      else if tag = ''current'' then Inl (TagReserved tag)
      else if has_prefix tag ''@'' then Inl (TagReserved tag)
      else if list_all is_digit tag then Inl (TagReserved tag)
      else Inr ())"

definition upsert_tag :: "string \<Rightarrow> string \<Rightarrow> string \<Rightarrow> string \<Rightarrow> string \<Rightarrow> string \<Rightarrow> nat \<Rightarrow> tag_row list \<Rightarrow> tag_row list" where
  "upsert_tag tenant sid vid tag description actor now tags =
     (let same = (\<lambda>t. tg_tenant t = tenant \<and> tg_state_id t = sid \<and> tg_tag t = tag);
          note = (if description = [] then None else Some description)
      in if list_ex same tags
         then map (\<lambda>t. if same t then t\<lparr>tg_version_id := vid, tg_description := note, tg_actor := actor, tg_updated := now\<rparr> else t) tags
         else tags @ [\<lparr>tg_tenant = tenant, tg_state_id = sid, tg_version_id = vid, tg_tag = tag, tg_description = note,
           tg_actor = actor, tg_created = now, tg_updated = now\<rparr>])"

definition set_tag ::
    "principal \<Rightarrow> string \<Rightarrow> string \<Rightarrow> string \<Rightarrow> string \<Rightarrow> string \<Rightarrow> nat \<Rightarrow> db \<times> tag_row list \<Rightarrow>
     (version_error, int \<times> db \<times> tag_row list) result" where
  "set_tag p name ref tag description actor now = (\<lambda>(d, tags).
     bind_result (validate_tag_name tag) (\<lambda>_.
     bind_result (lookup_state_and_current d (pr_tenant p) name) (\<lambda>(sid, current).
     bind_result (resolve_version d tags (pr_tenant p) sid ref) (\<lambda>v.
       Inr (vr_serial v,
         log_event ''tag.set'' (pr_tenant p) sid None actor
           [(''tag'', JStr tag), (''ref'', JStr ref), (''resolved_serial'', JNum (vr_serial v)),
            (''resolved_version_id'', JStr (vr_id v)), (''description'', JStr description)] d,
         upsert_tag (pr_tenant p) sid (vr_id v) tag description actor now tags)))))"

definition unset_tag ::
    "principal \<Rightarrow> string \<Rightarrow> string \<Rightarrow> string \<Rightarrow> db \<times> tag_row list \<Rightarrow> (version_error, db \<times> tag_row list) result" where
  "unset_tag p name tag actor = (\<lambda>(d, tags).
     if tag = [] then Inl (TagReserved tag)
     else bind_result (lookup_state_and_current d (pr_tenant p) name) (\<lambda>(sid, current).
       bind_result (resolve_tag tags (pr_tenant p) sid tag) (\<lambda>vid.
         Inr (log_event ''tag.unset'' (pr_tenant p) sid None actor [(''tag'', JStr tag), (''was_version_id'', JStr vid)] d,
           filter (\<lambda>t. \<not> (tg_tenant t = pr_tenant p \<and> tg_state_id t = sid \<and> tg_tag t = tag)) tags))))"

text \<open>The join with the state and the version, newest first.\<close>

definition list_tags :: "db \<Rightarrow> tag_row list \<Rightarrow> string \<Rightarrow> string \<Rightarrow> (tag_row \<times> int) list" where
  "list_tags d tags tenant name =
     (case find_state d tenant name of None \<Rightarrow> [] | Some r \<Rightarrow>
        concat (map (\<lambda>t. map (\<lambda>v. (t, vr_serial v)) (filter (\<lambda>v. vr_id v = tg_version_id t) (db_versions d)))
          (rev (sort_key tg_updated (filter (\<lambda>t. tg_state_id t = sr_id r) tags)))))"

definition list_tags_by_version_id :: "tag_row list \<Rightarrow> string \<Rightarrow> string list \<Rightarrow> string \<Rightarrow> string list" where
  "list_tags_by_version_id tags tenant ids vid =
     (if vid \<in> set ids then sort (map tg_tag (filter (\<lambda>t. tg_tenant t = tenant \<and> tg_version_id t = vid) tags)) else [])"

section \<open>Rolling a state back\<close>

definition replay_version ::
    "(json \<Rightarrow> string) \<Rightarrow> (string \<Rightarrow> string) \<Rightarrow> principal \<Rightarrow> tag_row list \<Rightarrow> string \<Rightarrow> string \<Rightarrow> string \<Rightarrow> db \<Rightarrow>
     (version_error, version_info \<times> db) result" where
  "replay_version js sha p tags name ref actor d =
     bind_result (lookup_state_and_current d (pr_tenant p) name) (\<lambda>(sid, current).
     bind_result (resolve_version d tags (pr_tenant p) sid ref) (\<lambda>src.
       let serial = next_serial d sid;
           rewritten = (vr_raw src)\<lparr>st_serial := serial\<rparr>
       in bind_result (lift_error StoreFailed (parse_state (Some rewritten))) (\<lambda>parsed.
          bind_result (lift_error StoreFailed (insert_version p sid serial (st_terraform_version parsed) rewritten ''rollback'' actor d)) (\<lambda>(vid, d).
          bind_result (lift_error StoreFailed (normalize_state js sha (pr_tenant p) sid vid serial parsed d)) (\<lambda>d.
            Inr (\<lparr>vi_id = vid, vi_state_id = sid, vi_state_name = name, vi_serial = serial,
                 vi_terraform_version = st_terraform_version parsed, vi_source = ''rollback'', vi_created_by = actor,
                 vi_is_current = True\<rparr>,
               log_event ''state_rollback'' (pr_tenant p) sid (Some vid) actor
                 [(''replayed_from_version'', JStr (vr_id src)), (''replayed_from_serial'', JNum (vr_serial src))]
                 (set_current sid vid d)))))))"

section \<open>What a reference finds\<close>

lemma find_version_SomeD: "find_version d sid sel = Inr v \<Longrightarrow> v \<in> set (db_versions d) \<and> vr_state_id v = sid \<and> sel v"
  by (auto simp: find_version_def find_Some_iff split: option.splits)

lemma set_versions_desc: "set (versions_desc d sid) = {v \<in> set (db_versions d). vr_state_id v = sid}"
  by (auto simp: versions_desc_def)

lemma version_lookup_mem: "version_lookup d sid ref = Inr v \<Longrightarrow> v \<in> set (db_versions d) \<and> vr_state_id v = sid"
proof -
  assume a: "version_lookup d sid ref = Inr v"
  have "v \<in> set (versions_desc d sid)" if "nat n < length (versions_desc d sid)" "v = versions_desc d sid ! nat n" for n
    using that by simp
  then show ?thesis
    using a find_version_SomeD set_versions_desc by (fastforce simp: version_lookup_def Let_def split: if_splits option.splits)
qed

lemma resolve_version_mem: "resolve_version d tags tenant sid ref = Inr v \<Longrightarrow> v \<in> set (db_versions d) \<and> vr_state_id v = sid"
  using version_lookup_mem find_version_SomeD by (fastforce simp: resolve_version_def bind_result_eq_Inr split: if_splits)

lemma find_version_serial:
  assumes "db_ok d" and "v \<in> set (db_versions d)"
  shows "find_version d (vr_state_id v) (\<lambda>w. vr_serial w = vr_serial v) = Inr v"
    and "find_version d (vr_state_id v) (\<lambda>w. vr_id w = vr_id v) = Inr v"
proof -
  have d: "distinct (map (\<lambda>v. (vr_state_id v, vr_serial v)) (db_versions d))" "distinct (map vr_id (db_versions d))"
    using assms(1) by (simp_all add: db_ok_def versions_ok_def)
  have "find (\<lambda>w. vr_state_id w = vr_state_id v \<and> vr_serial w = vr_serial v) (db_versions d) = Some v"
    using find_distinct_key[OF d(1) assms(2)] by (simp add: conj_commute)
  then show "find_version d (vr_state_id v) (\<lambda>w. vr_serial w = vr_serial v) = Inr v" by (simp add: find_version_def)
  have "find (\<lambda>w. vr_state_id w = vr_state_id v \<and> vr_id w = vr_id v) (db_versions d) = find (\<lambda>w. vr_id w = vr_id v) (db_versions d)"
    using d(2) assms(2) by (intro find_cong refl) (auto simp: distinct_map dest: inj_onD)
  then show "find_version d (vr_state_id v) (\<lambda>w. vr_id w = vr_id v) = Inr v"
    using find_distinct_key[OF d(2) assms(2)] by (simp add: find_version_def)
qed

section \<open>What a rollback does\<close>

lemma replay_versionE:
  assumes "replay_version js sha p tags name ref actor d = Inr (info, d')"
  obtains r src v where "find_state d (pr_tenant p) name = Some r"
    "resolve_version d tags (pr_tenant p) (sr_id r) ref = Inr src" "src \<in> set (db_versions d)" "vr_state_id src = sr_id r"
    "st_version (vr_raw src) = 4" "vr_serial v = next_serial d (sr_id r)"
    "vr_raw v = (vr_raw src)\<lparr>st_serial := vr_serial v\<rparr>" "full_write js sha d (sr_id r) v d'"
    "vi_serial info = vr_serial v" "vi_id info = vr_id v"
proof -
  obtain r where r: "find_state d (pr_tenant p) name = Some r"
    using assms by (auto simp: replay_version_def lookup_state_and_current_def split: option.splits)
  let ?sid = "sr_id r"
  obtain src where src: "resolve_version d tags (pr_tenant p) ?sid ref = Inr src"
    using assms r by (auto simp: replay_version_def lookup_state_and_current_def)
  let ?s = "next_serial d ?sid" and ?st = "(vr_raw src)\<lparr>st_serial := next_serial d (sr_id r)\<rparr>"
  obtain parsed where parsed: "parse_state (Some ?st) = Inr parsed"
    using assms r src by (auto simp: replay_version_def lookup_state_and_current_def Let_def)
  have pv: "st_version ?st = 4" "parsed = ?st" using parse_state_version[OF parsed] by simp_all
  obtain vid d2 d3 where w: "insert_version p ?sid ?s (st_terraform_version parsed) ?st ''rollback'' actor d = Inr (vid, d2)"
    "normalize_state js sha (pr_tenant p) ?sid vid ?s parsed d2 = Inr d3" "vi_serial info = ?s" "vi_id info = vid"
    "d' = log_event ''state_rollback'' (pr_tenant p) ?sid (Some vid) actor
       [(''replayed_from_version'', JStr (vr_id src)), (''replayed_from_serial'', JNum (vr_serial src))] (set_current ?sid vid d3)"
    using assms r src parsed by (auto simp: replay_version_def lookup_state_and_current_def Let_def)
  from w(1) obtain v where v: "vr_id v = fresh_id d" "vr_state_id v = ?sid" "vr_serial v = ?s" "vr_raw v = ?st"
    "vid = fresh_id d" "?s \<notin> set (state_serials d ?sid)"
    "d2 = d\<lparr>db_versions := db_versions d @ [v], db_next := Suc (db_next d)\<rparr>" by (rule insert_versionE)
  from w(2) obtain rows L where n: "build_resource_rows js sha parsed = Inr rows"
    "apply_resource_delta ?sid ?s rows (db_ledger d2) = Inr L"
    "d3 = insert_outputs (pr_tenant p) vid parsed (d2\<lparr>db_ledger := L\<rparr>)" by (rule normalize_stateE)
  have "or_version_id ` set (db_outputs d3) \<subseteq> insert vid (or_version_id ` set (db_outputs d))"
    using insert_outputs_ids[of "pr_tenant p" vid parsed "d2\<lparr>db_ledger := L\<rparr>"] by (simp add: n(3) v(7))
  moreover have "db_states (set_current ?sid vid d3) = db_states (set_current ?sid vid d)"
    by (rule set_current_states) (simp add: n(3) v(7))
  ultimately have "full_write js sha d ?sid v d'"
    using v n w(5) pv(2) by (simp add: full_write_def)
  then show thesis
    using resolve_version_mem[OF src] pv(1) v(1,3-5) w(3,4) by (intro that[OF r src, of v]) simp_all
qed

lemma find_state_id: "find_state d tenant name = Some r \<Longrightarrow> sr_id r \<in> state_ids d"
  using find_state_SomeD by (auto simp: state_ids_def)

lemma replay_version_step:
  assumes inv: "store_inv js sha d" and w: "replay_version js sha p tags name ref actor d = Inr (info, d')"
  shows "store_inv js sha d' \<and> committed d d'"
  using w
proof (cases rule: replay_versionE)
  case (1 r src v)
  have "plain_resources (st_resources (vr_raw v))"
    using inv 1(3,7) by (simp add: store_inv_def docs_plain_def)
  moreover have top: "\<forall>s \<in> set (state_serials d (sr_id r)). s < vr_serial v" using next_serial_fresh 1(6) by simp
  moreover have "version_added d (sr_id r) v d'"
    using full_write_added(1)[OF _ 1(8) find_state_id[OF 1(1)] top] inv 1(5,7) by (simp add: store_inv_def)
  ultimately show ?thesis
    using full_write_inv[OF inv 1(8)] find_state_id[OF 1(1)] 1(5,6,7) still_refl unfolding committed_def by simp blast
qed

lemmas replay_version_inv = replay_version_step[THEN conjunct1]

end
