(* ===== verification/ResourceMutations.thy ===== *)
theory ResourceMutations
  imports Versions
begin

text \<open>
  Operations of the state engine on one exact address of the current state: remove, move
  (\<^verbatim>\<open>pkg/store/state_engine_mutations.go\<close>) and rollback to an older version (\<^verbatim>\<open>pkg/store/resource_history.go\<close>).
  Each derives a new document from the current one and changes only the ledger rows of the address.

  Unlike the writes of \<^verbatim>\<open>state.go\<close> these transactions do not start by writing the row of the state, and the
  rollback reads the documents before its transaction begins. So another client may commit between the
  read of the document and the rest: \<open>meanwhile\<close> is what the others do to the database there.
\<close>

section \<open>Locating an instance\<close>

record resource_location =
  loc_resource_index :: nat
  loc_instance_index :: nat
  loc_resource :: tf_resource
  loc_instance :: resource_instance

datatype mutation_error =
    VersionFailed version_error
  | BadInstanceKey raw
  | AddressRequired
  | DestinationExists
  | BadDestination address_error

abbreviation store_failed :: "store_error \<Rightarrow> mutation_error" where
  "store_failed e \<equiv> VersionFailed (StoreFailed e)"

definition locations :: "tf_resource list \<Rightarrow> resource_location list" where
  "locations rs = concat (map (\<lambda>(i, r). map (\<lambda>(j, inst). \<lparr>loc_resource_index = i, loc_instance_index = j,
     loc_resource = r, loc_instance = inst\<rparr>) (enumerate 0 (r_instances r))) (enumerate 0 rs))"

fun find_location :: "string \<Rightarrow> resource_location list \<Rightarrow> (raw, resource_location option) result" where
  "find_location address [] = Inr None"
| "find_location address (l # ls) =
     (case instance_address (loc_resource l) (loc_instance l) of
        Inl e \<Rightarrow> Inl e
      | Inr a \<Rightarrow> if a = address then Inr (Some l) else find_location address ls)"

definition find_resource_instance :: "tf_state \<Rightarrow> string \<Rightarrow> (raw, resource_location option) result" where
  "find_resource_instance st address = find_location address (locations (st_resources st))"

section \<open>Patching a document\<close>

definition remove_at :: "nat \<Rightarrow> 'a list \<Rightarrow> 'a list" where
  "remove_at i xs = take i xs @ drop (Suc i) xs"

definition drop_location :: "resource_location \<Rightarrow> tf_resource list \<Rightarrow> tf_resource list" where
  "drop_location l rs =
     (let i = loc_resource_index l; r = rs ! i; insts = remove_at (loc_instance_index l) (r_instances r)
      in if insts = [] then remove_at i rs else rs[i := r\<lparr>r_instances := insts\<rparr>])"

fun place_instance :: "tf_resource \<Rightarrow> resource_instance \<Rightarrow> tf_resource list \<Rightarrow> tf_resource list" where
  "place_instance t inst [] = [t\<lparr>r_instances := [inst]\<rparr>]"
| "place_instance t inst (r # rs) =
     (if group_of r = group_of t then r\<lparr>r_instances := r_instances r @ [inst]\<rparr> # rs
      else r # place_instance t inst rs)"

definition patch_state_resource :: "tf_state \<Rightarrow> resource_location option \<Rightarrow> resource_location option \<Rightarrow> tf_state" where
  "patch_state_resource st current target =
     (let rs = (case current of None \<Rightarrow> st_resources st | Some l \<Rightarrow> drop_location l (st_resources st))
      in st\<lparr>st_resources := (case target of None \<Rightarrow> rs | Some t \<Rightarrow> place_instance (loc_resource t) (loc_instance t) rs)\<rparr>)"

definition rewrite_dependencies :: "string \<Rightarrow> string \<Rightarrow> tf_resource list \<Rightarrow> tf_resource list" where
  "rewrite_dependencies from to rs =
     (if from = [] \<or> to = [] \<or> from = to then rs
      else map (\<lambda>r. r\<lparr>r_instances := map (\<lambda>i. i\<lparr>i_dependencies := map (\<lambda>dep. if dep = from then to else dep) (i_dependencies i)\<rparr>)
        (r_instances r)\<rparr>) rs)"

definition patch_move_state_resource :: "tf_state \<Rightarrow> resource_location \<Rightarrow> string \<Rightarrow> (mutation_error, tf_state) result" where
  "patch_move_state_resource st l to0 =
     (let to = trim_space to0
      in bind_result (lift_error BadDestination (parse_instance_address to)) (\<lambda>(res, inst).
         bind_result (lift_error BadInstanceKey (find_resource_instance st to)) (\<lambda>existing.
           if existing \<noteq> None then Inl DestinationExists
           else
             (let moved = (loc_instance l)\<lparr>i_index_key := i_index_key inst\<rparr>;
                  target = res\<lparr>r_provider := r_provider (loc_resource l), r_instances := []\<rparr>;
                  rs = place_instance target moved (drop_location l (st_resources st));
                  from = (case instance_address (loc_resource l) (loc_instance l) of Inl e \<Rightarrow> [] | Inr a \<Rightarrow> a)
              in Inr (st\<lparr>st_resources := rewrite_dependencies (trim_space from) to rs\<rparr>)))))"

definition collect_exact_dependents :: "tf_state \<Rightarrow> string \<Rightarrow> string list" where
  "collect_exact_dependents st address =
     (if trim_space address = [] then []
      else sort (filter (\<lambda>a. a \<noteq> []) (map (\<lambda>l. case instance_address (loc_resource l) (loc_instance l) of Inl e \<Rightarrow> [] | Inr a \<Rightarrow> a)
        (filter (\<lambda>l. address \<in> set (i_dependencies (loc_instance l))) (locations (st_resources st))))))"

section \<open>Ledger rows\<close>

definition load_open_row :: "ledger \<Rightarrow> string \<Rightarrow> string \<Rightarrow> ledger_row option" where
  "load_open_row L sid address = find (\<lambda>r. is_open sid r \<and> lr_address r = address) (ld_rows L)"

definition load_open_dependent_rows :: "ledger \<Rightarrow> string \<Rightarrow> string \<Rightarrow> ledger_row list" where
  "load_open_dependent_rows L sid address =
     sort_key (\<lambda>r. lr_address r) (filter (\<lambda>r. is_open sid r \<and> lr_address r \<noteq> address \<and>
       (case rr_dependencies (lr_row r) of JArr xs \<Rightarrow> JStr address \<in> set xs | _ \<Rightarrow> False)) (ld_rows L))"

definition load_row_at_serial :: "ledger \<Rightarrow> string \<Rightarrow> string \<Rightarrow> int \<Rightarrow> ledger_row option" where
  "load_row_at_serial L sid address serial =
     (if trim_space sid = [] \<or> trim_space address = [] \<or> serial \<le> 0 then None
      else (case rev (sort_key lr_create (filter (\<lambda>r. live sid serial r \<and> lr_address r = address) (ld_rows L))) of
         [] \<Rightarrow> None | r # rs \<Rightarrow> Some r))"

definition rewrite_row_dependencies :: "(json \<Rightarrow> string) \<Rightarrow> (string \<Rightarrow> string) \<Rightarrow> string \<Rightarrow> string \<Rightarrow> resource_row \<Rightarrow> resource_row" where
  "rewrite_row_dependencies js sha from to row =
     (if trim_space from = [] \<or> trim_space to = [] \<or> from = to then row
      else
        (let deps = (case decode_dependencies (rr_dependencies row) of None \<Rightarrow> [] | Some ds \<Rightarrow> ds)
         in if from \<notin> set deps then row
            else
              (let row = row\<lparr>rr_dependencies := marshal_dependencies (sort (map (\<lambda>dep. if dep = from then to else dep) deps))\<rparr>
               in row\<lparr>rr_hash := hash_resource_content js sha row\<rparr>)))"

definition moved_resource_row ::
    "(json \<Rightarrow> string) \<Rightarrow> (string \<Rightarrow> string) \<Rightarrow> resource_row \<Rightarrow> string \<Rightarrow> string \<Rightarrow> (mutation_error, resource_row) result" where
  "moved_resource_row js sha row0 to0 from =
     (let to = trim_space to0
      in bind_result (lift_error BadDestination (parse_instance_address to)) (\<lambda>(res, inst).
         bind_result (lift_error BadInstanceKey (decode_index inst)) (\<lambda>(kind, val).
           let row = (rewrite_row_dependencies js sha from to row0)\<lparr>rr_address := to, rr_mode := r_mode res, rr_type := r_type res,
                 rr_name := r_name res, rr_module := r_module res, rr_index_kind := index_kind_text kind,
                 rr_index_value := (if kind \<noteq> IndexNone then Some val else None)\<rparr>
           in Inr (row\<lparr>rr_hash := hash_resource_content js sha row\<rparr>))))"

section \<open>One derived version\<close>

text \<open>The version, the rows that are closed and the rows that are inserted, the outputs, the current version, the event.\<close>

definition derived_version ::
    "principal \<Rightarrow> string \<Rightarrow> int \<Rightarrow> tf_state \<Rightarrow> string \<Rightarrow> string \<Rightarrow> nat list \<Rightarrow> resource_row list \<Rightarrow> db \<Rightarrow> (mutation_error, db) result" where
  "derived_version p sid serial patched source actor to_close to_insert d =
     (let st = patched\<lparr>st_serial := serial\<rparr>
      in bind_result (lift_error store_failed (insert_version p sid serial (st_terraform_version st) st source actor d)) (\<lambda>(vid, d).
         bind_result (lift_error (\<lambda>e. store_failed (LedgerFailed e)) (commit_rows sid serial to_close to_insert (db_ledger d))) (\<lambda>L.
           Inr (log_state_write p sid vid actor source serial
             (set_current sid vid (insert_outputs (pr_tenant p) vid st (d\<lparr>db_ledger := L\<rparr>)))))))"

text \<open>What both exact-address transactions read first: the state, its current version and its document.\<close>

definition read_current_document :: "principal \<Rightarrow> string \<Rightarrow> db \<Rightarrow> (mutation_error, string \<times> tf_state) result" where
  "read_current_document p name d =
     bind_result (lift_error store_failed (enforce_tenant_active d (pr_tenant p))) (\<lambda>_.
     bind_result (lift_error VersionFailed (lookup_state_and_current d (pr_tenant p) name)) (\<lambda>(sid, current).
       if current = None then Inl (store_failed StateNotFound)
       else
         bind_result (lift_error VersionFailed (version_lookup d sid ''current'')) (\<lambda>v.
         bind_result (lift_error store_failed (parse_state (Some (vr_raw v)))) (\<lambda>st. Inr (sid, st)))))"

section \<open>Remove\<close>

definition apply_remove_delta ::
    "principal \<Rightarrow> string \<Rightarrow> string \<Rightarrow> string \<Rightarrow> (db \<Rightarrow> db) \<Rightarrow> db \<Rightarrow> (mutation_error, string \<times> int \<times> db) result" where
  "apply_remove_delta p name address actor meanwhile d0 =
     bind_result (read_current_document p name d0) (\<lambda>(sid, st).
     bind_result (lift_error BadInstanceKey (find_resource_instance st address)) (\<lambda>loc.
       case loc of None \<Rightarrow> Inr (sid, 0, d0)
       | Some l \<Rightarrow>
           (let d = meanwhile d0
            in case load_open_row (db_ledger d) sid address of
                 None \<Rightarrow> Inl (store_failed StateNotFound)
               | Some row \<Rightarrow>
                   (let serial = next_serial d sid
                    in bind_result (derived_version p sid serial (patch_state_resource st (Some l) None)
                         (''resource-remove:'' @ address) actor [lr_id row] [] d) (\<lambda>d. Inr (sid, serial, d))))))"

datatype mutation_action = NoOp | RemoveIt | MoveIt | Conflicting

record mutation_preview =
  mp_action :: mutation_action
  mp_address :: string
  mp_to_address :: string
  mp_current :: version_info
  mp_current_exists :: bool
  mp_target_exists :: bool
  mp_current_attrs :: raw
  mp_dependencies :: "string list"
  mp_dependents :: "string list"
  mp_warnings :: "string list"

definition zero_preview :: "string \<Rightarrow> string \<Rightarrow> version_info \<Rightarrow> mutation_preview" where
  "zero_preview address to info = \<lparr>mp_action = NoOp, mp_address = address, mp_to_address = to, mp_current = info,
     mp_current_exists = False, mp_target_exists = False, mp_current_attrs = None, mp_dependencies = [],
     mp_dependents = [], mp_warnings = []\<rparr>"

definition preview_remove :: "db \<Rightarrow> principal \<Rightarrow> string \<Rightarrow> string \<Rightarrow> (mutation_error, mutation_preview) result" where
  "preview_remove d p name address0 =
     (let address = trim_space address0
      in if address = [] then Inl AddressRequired
         else
           bind_result (lift_error VersionFailed (get_version_raw d [] (pr_tenant p) name ''current'')) (\<lambda>(info, raw).
           bind_result (lift_error store_failed (parse_state (Some raw))) (\<lambda>st.
           bind_result (lift_error BadInstanceKey (find_resource_instance st address)) (\<lambda>loc.
             Inr (case loc of None \<Rightarrow> zero_preview address [] info
               | Some l \<Rightarrow> (let deps = collect_exact_dependents st address
                   in (zero_preview address [] info)\<lparr>mp_action := RemoveIt, mp_current_exists := True,
                     mp_current_attrs := i_attributes (loc_instance l), mp_dependencies := i_dependencies (loc_instance l),
                     mp_dependents := deps,
                     mp_warnings := (if deps \<noteq> [] then [''current state contains dependents that still reference this address''] else [])\<rparr>))))))"

definition apply_remove ::
    "principal \<Rightarrow> string \<Rightarrow> string \<Rightarrow> string \<Rightarrow> (db \<Rightarrow> db) \<Rightarrow> db \<Rightarrow>
     (mutation_error, version_info option \<times> mutation_preview \<times> db) result" where
  "apply_remove p name address actor meanwhile d0 =
     bind_result (preview_remove d0 p name address) (\<lambda>preview.
       if mp_action preview = NoOp then Inr (None, preview, d0)
       else
         bind_result (apply_remove_delta p name (trim_space address) actor meanwhile d0) (\<lambda>(sid, serial, d).
         bind_result (lift_error VersionFailed (version_lookup d sid (show_int serial))) (\<lambda>v.
           Inr (Some (info_of [] None v), preview, d))))"

section \<open>Move\<close>

definition moved_rows ::
    "(json \<Rightarrow> string) \<Rightarrow> (string \<Rightarrow> string) \<Rightarrow> resource_row \<Rightarrow> ledger_row list \<Rightarrow> string \<Rightarrow> string \<Rightarrow>
     (mutation_error, resource_row list) result" where
  "moved_rows js sha row dependents from to =
     bind_result (moved_resource_row js sha row to from) (\<lambda>moved.
       Inr (moved # map (\<lambda>r. rewrite_row_dependencies js sha from to (lr_row r)) dependents))"

definition apply_move_delta ::
    "(json \<Rightarrow> string) \<Rightarrow> (string \<Rightarrow> string) \<Rightarrow> principal \<Rightarrow> string \<Rightarrow> string \<Rightarrow> string \<Rightarrow> string \<Rightarrow> (db \<Rightarrow> db) \<Rightarrow> db \<Rightarrow>
     (mutation_error, string \<times> int \<times> db) result" where
  "apply_move_delta js sha p name from to actor meanwhile d0 =
     bind_result (read_current_document p name d0) (\<lambda>(sid, st).
     bind_result (lift_error BadInstanceKey (find_resource_instance st from)) (\<lambda>loc.
       case loc of None \<Rightarrow> Inr (sid, 0, d0)
       | Some l \<Rightarrow>
           bind_result (patch_move_state_resource st l to) (\<lambda>patched.
             let d = meanwhile d0
             in case load_open_row (db_ledger d) sid from of
                  None \<Rightarrow> Inl (store_failed StateNotFound)
                | Some row \<Rightarrow>
                    if load_open_row (db_ledger d) sid to \<noteq> None then Inl DestinationExists
                    else
                      (let dependents = load_open_dependent_rows (db_ledger d) sid from;
                           serial = next_serial d sid
                       in bind_result (moved_rows js sha (lr_row row) dependents from to) (\<lambda>reopened.
                          bind_result (derived_version p sid serial patched (''resource-move:'' @ from @ ''->'' @ to) actor
                              (lr_id row # map lr_id dependents) reopened d) (\<lambda>d. Inr (sid, serial, d)))))))"

definition preview_move :: "db \<Rightarrow> principal \<Rightarrow> string \<Rightarrow> string \<Rightarrow> string \<Rightarrow> (mutation_error, mutation_preview) result" where
  "preview_move d p name from0 to0 =
     (let from = trim_space from0; to = trim_space to0
      in if from = [] \<or> to = [] then Inl AddressRequired
         else
           bind_result (lift_error VersionFailed (get_version_raw d [] (pr_tenant p) name ''current'')) (\<lambda>(info, raw).
           bind_result (lift_error store_failed (parse_state (Some raw))) (\<lambda>st.
           bind_result (lift_error BadInstanceKey (find_resource_instance st from)) (\<lambda>from_loc.
           bind_result (lift_error BadInstanceKey (find_resource_instance st to)) (\<lambda>to_loc.
             let preview = (zero_preview from to info)\<lparr>mp_current_exists := from_loc \<noteq> None, mp_target_exists := to_loc \<noteq> None\<rparr>
             in Inr (case from_loc of None \<Rightarrow> preview
                | Some l \<Rightarrow>
                    (let preview = preview\<lparr>mp_current_attrs := i_attributes (loc_instance l),
                       mp_dependencies := i_dependencies (loc_instance l), mp_dependents := collect_exact_dependents st from\<rparr>
                     in if to_loc \<noteq> None
                        then preview\<lparr>mp_action := Conflicting, mp_warnings := [''destination address already exists in current state'']\<rparr>
                        else preview\<lparr>mp_action := MoveIt\<rparr>)))))))"

definition apply_move ::
    "(json \<Rightarrow> string) \<Rightarrow> (string \<Rightarrow> string) \<Rightarrow> principal \<Rightarrow> string \<Rightarrow> string \<Rightarrow> string \<Rightarrow> string \<Rightarrow> (db \<Rightarrow> db) \<Rightarrow> db \<Rightarrow>
     (mutation_error, version_info option \<times> mutation_preview \<times> db) result" where
  "apply_move js sha p name from to actor meanwhile d0 =
     bind_result (preview_move d0 p name from to) (\<lambda>preview.
       case mp_action preview of
         NoOp \<Rightarrow> Inr (None, preview, d0)
       | Conflicting \<Rightarrow> Inl DestinationExists
       | _ \<Rightarrow>
           bind_result (apply_move_delta js sha p name (trim_space from) (trim_space to) actor meanwhile d0) (\<lambda>(sid, serial, d).
           bind_result (lift_error VersionFailed (version_lookup d sid (show_int serial))) (\<lambda>v.
             Inr (Some (info_of [] None v), preview, d))))"

end
