(* ===== verification/ResourceReplay.thy ===== *)
theory ResourceReplay
  imports ResourceMutations
begin

text \<open>
  The rollback of one exact address to an older version (\<^verbatim>\<open>pkg/store/resource_history.go\<close>): the preview from
  the ledger, the patched document, and the ledger rows of that address.
\<close>

section \<open>The address in a version\<close>

definition resource_at_version :: "ledger \<Rightarrow> string \<Rightarrow> int \<Rightarrow> string \<Rightarrow> resource_row option" where
  "resource_at_version L sid serial address =
     (if trim_space sid = [] \<or> trim_space address = [] \<or> serial \<le> 0 then None
      else map_option lr_row (find (\<lambda>r. live sid serial r \<and> lr_address r = trim_space address) (ld_rows L)))"

text \<open>Two snapshots are compared by their columns, without the hash; a missing index value reads as the empty text.\<close>

definition snapshot_columns :: "resource_row \<Rightarrow> resource_row" where
  "snapshot_columns r = r\<lparr>rr_index_value := Some (case rr_index_value r of None \<Rightarrow> [] | Some v \<Rightarrow> v), rr_hash := []\<rparr>"

datatype replay_action = ReplayNoOp | ReplayReplace | ReplayRestore | ReplayRemove

definition classify_replay :: "resource_row option \<Rightarrow> resource_row option \<Rightarrow> replay_action" where
  "classify_replay current target =
     (case (current, target) of
        (Some c, Some t) \<Rightarrow> if snapshot_columns c = snapshot_columns t then ReplayNoOp else ReplayReplace
      | (None, Some t) \<Rightarrow> ReplayRestore
      | (Some c, None) \<Rightarrow> ReplayRemove
      | (None, None) \<Rightarrow> ReplayNoOp)"

definition snapshot_dependencies :: "resource_row option \<Rightarrow> string list" where
  "snapshot_dependencies snap =
     (case snap of None \<Rightarrow> [] | Some r \<Rightarrow> (case decode_dependencies (rr_dependencies r) of None \<Rightarrow> [] | Some ds \<Rightarrow> ds))"

definition dependency_texts :: "resource_row \<Rightarrow> string list" where
  "dependency_texts r = (case rr_dependencies r of
     JArr xs \<Rightarrow> concat (map (\<lambda>x. case x of JStr s \<Rightarrow> [s] | _ \<Rightarrow> []) xs) | _ \<Rightarrow> [])"

definition current_dependents :: "ledger \<Rightarrow> string \<Rightarrow> int \<Rightarrow> string \<Rightarrow> string list" where
  "current_dependents L sid serial address =
     (if trim_space sid = [] \<or> serial \<le> 0 \<or> trim_space address = [] then []
      else sort (remdups (map (\<lambda>r. lr_address r) (filter (\<lambda>r. live sid serial r \<and>
        list_ex (\<lambda>dep. dep = address \<or> has_prefix address (dep @ ''['') \<or> has_prefix dep (address @ ''[''))
          (dependency_texts (lr_row r))) (ld_rows L)))))"

section \<open>Preview\<close>

record rollback_preview =
  rp_action :: replay_action
  rp_address :: string
  rp_current :: version_info
  rp_target :: version_info
  rp_current_snap :: "resource_row option"
  rp_target_snap :: "resource_row option"
  rp_dependencies :: "string list"
  rp_dependents :: "string list"
  rp_warnings :: "string list"

definition preview_warnings :: "resource_row option \<Rightarrow> resource_row option \<Rightarrow> string list \<Rightarrow> string list" where
  "preview_warnings current target dependents =
     [(case (current, target) of
         (None, None) \<Rightarrow> ''address does not exist in current or target version''
       | (Some c, None) \<Rightarrow> ''this will remove the resource from current state bookkeeping''
       | (None, Some t) \<Rightarrow> ''this will restore the resource into current state bookkeeping''
       | (Some c, Some t) \<Rightarrow> ''this will replace the current resource instance with historical state'')] @
     (if dependents \<noteq> [] then [show_nat (length dependents) @ '' live resource(s) currently depend on this address''] else []) @
     (if snapshot_dependencies target \<noteq> []
      then [''historical resource instance depends on '' @ show_nat (length (snapshot_dependencies target)) @ '' address(es)''] else [])"

definition preview_replay_resource ::
    "db \<Rightarrow> tag_row list \<Rightarrow> principal \<Rightarrow> string \<Rightarrow> string \<Rightarrow> string \<Rightarrow> (mutation_error, rollback_preview) result" where
  "preview_replay_resource d tags p name address ref =
     bind_result (lift_error VersionFailed (lookup_state_and_current d (pr_tenant p) name)) (\<lambda>(sid, current).
     bind_result (lift_error VersionFailed (resolve_version d tags (pr_tenant p) sid ''current'')) (\<lambda>cv.
     bind_result (lift_error VersionFailed (resolve_version d tags (pr_tenant p) sid ref)) (\<lambda>tv.
       let cs = resource_at_version (db_ledger d) sid (vr_serial cv) address;
           ts = resource_at_version (db_ledger d) sid (vr_serial tv) address;
           dependents = current_dependents (db_ledger d) sid (vr_serial cv) address
       in Inr \<lparr>rp_action = classify_replay cs ts, rp_address = address, rp_current = info_of [] current cv,
            rp_target = info_of [] current tv, rp_current_snap = cs, rp_target_snap = ts,
            rp_dependencies = sort (snapshot_dependencies (if ts \<noteq> None then ts else cs)),
            rp_dependents = dependents, rp_warnings = preview_warnings cs ts dependents\<rparr>)))"

section \<open>Replay\<close>

text \<open>The transaction; the patched document comes from outside.\<close>

definition replay_delta ::
    "principal \<Rightarrow> string \<Rightarrow> string \<Rightarrow> int \<Rightarrow> tf_state \<Rightarrow> string \<Rightarrow> string \<Rightarrow> db \<Rightarrow> (mutation_error, string \<times> int \<times> db) result" where
  "replay_delta p name address target_serial patched actor source d =
     bind_result (lift_error store_failed (enforce_tenant_active d (pr_tenant p))) (\<lambda>_.
     bind_result (lift_error VersionFailed (lookup_state_and_current d (pr_tenant p) name)) (\<lambda>(sid, current).
       if current = None then Inl (store_failed StateNotFound)
       else
         (let to_close = (case load_open_row (db_ledger d) sid address of None \<Rightarrow> [] | Some r \<Rightarrow> [lr_id r]);
              to_insert = (case load_row_at_serial (db_ledger d) sid address target_serial of None \<Rightarrow> [] | Some r \<Rightarrow> [lr_row r]);
              serial = next_serial d sid
          in bind_result (derived_version p sid serial patched source actor to_close to_insert d) (\<lambda>d. Inr (sid, serial, d)))))"

definition located :: "tf_state \<Rightarrow> string \<Rightarrow> resource_location option" where
  "located st address = (case find_resource_instance st address of Inl e \<Rightarrow> None | Inr l \<Rightarrow> l)"

definition replay_resource_version ::
    "principal \<Rightarrow> tag_row list \<Rightarrow> string \<Rightarrow> string \<Rightarrow> string \<Rightarrow> string \<Rightarrow> (db \<Rightarrow> db) \<Rightarrow> db \<Rightarrow>
     (mutation_error, version_info option \<times> rollback_preview \<times> db) result" where
  "replay_resource_version p tags name address ref actor meanwhile d0 =
     bind_result (preview_replay_resource d0 tags p name address ref) (\<lambda>preview.
       if rp_action preview = ReplayNoOp then Inr (None, preview, d0)
       else
         bind_result (lift_error VersionFailed (get_version_raw d0 tags (pr_tenant p) name ''current'')) (\<lambda>(ci, craw).
         bind_result (lift_error VersionFailed (get_version_raw d0 tags (pr_tenant p) name ref)) (\<lambda>(ti, traw).
         bind_result (lift_error store_failed (parse_state (Some craw))) (\<lambda>cst.
         bind_result (lift_error store_failed (parse_state (Some traw))) (\<lambda>tst.
           let patched = patch_state_resource cst (located cst address) (located tst address)
           in bind_result (replay_delta p name (trim_space address) (vi_serial (rp_target preview)) patched actor
                (''resource-rollback:'' @ trim_space address) (meanwhile d0)) (\<lambda>(sid, serial, d).
              bind_result (lift_error VersionFailed (version_lookup d sid (show_int serial))) (\<lambda>v.
                Inr (Some (info_of [] None v), preview\<lparr>rp_current := ci, rp_target := ti\<rparr>, d))))))))"

end
