(* ===== verification/MutationsKeep.thy ===== *)
theory MutationsKeep
  imports ResourceReplay
begin

text \<open>
  The exact-address operations keep the invariant of the store: the ledger after them shows the patched
  document. The documents name each address once (a deposed object of Terraform has the address of the
  current one, and is outside of this).
\<close>

section \<open>A document as the multiset of its instances\<close>

definition row_for :: "(json \<Rightarrow> string) \<Rightarrow> (string \<Rightarrow> string) \<Rightarrow> (string \<times> string \<times> string \<times> string \<times> string) \<times> resource_instance \<Rightarrow>
    (ledger_error, resource_row) result" where
  "row_for js sha = (\<lambda>(g, i). build_resource_row js sha
      \<lparr>r_mode = fst g, r_type = fst (snd g), r_name = fst (snd (snd g)), r_provider = fst (snd (snd (snd g))),
       r_module = snd (snd (snd (snd g))), r_instances = []\<rparr> i)"

lemma rows_grouped: "build_resource_rows js sha s = map_result (row_for js sha) (grouped (st_resources s))"
  unfolding row_for_def by (rule build_resource_rows_grouped)

lemma row_for_group: "row_for js sha (group_of r, i) = build_resource_row js sha r i"
  unfolding row_for_def prod.case by (rule build_resource_row_group) (simp add: group_of_def)

lemma map_result_mem: "map_result f xs = Inr ys \<Longrightarrow> x \<in> set xs \<Longrightarrow> \<exists>y. f x = Inr y"
  by (induction xs arbitrary: ys) auto

lemma map_result_projr: "map_result f xs = Inr ys \<Longrightarrow> ys = map (\<lambda>x. projr (f x)) xs"
  by (induction xs arbitrary: ys) auto

lemma map_result_same_mset:
  assumes "map_result f xs = Inr ys" and "mset zs = mset xs"
  shows "map_result f zs = Inr (map (\<lambda>x. projr (f x)) zs) \<and> mset (map (\<lambda>x. projr (f x)) zs) = mset ys"
proof -
  have "f z = Inr (projr (f z))" if "z \<in> set zs" for z
    using map_result_mem[OF assms(1), of z] mset_eq_setD[OF assms(2)] that by auto
  moreover have "mset (map (\<lambda>x. projr (f x)) zs) = mset (map (\<lambda>x. projr (f x)) xs)" using assms(2) by simp
  ultimately show ?thesis using map_result_total[of zs f] map_result_projr[OF assms(1)] by simp
qed

lemma map_result_remove:
  assumes "map_result f xs = Inr ys" and "mset xs = add_mset x (mset zs)" and "f x = Inr y"
  shows "\<exists>ys'. map_result f zs = Inr ys' \<and> mset ys = add_mset y (mset ys')"
proof -
  have "mset (x # zs) = mset xs" using assms(2) by simp
  from map_result_same_mset[OF assms(1) this] show ?thesis using assms(3) by auto
qed

lemma map_result_insert:
  assumes "map_result f xs = Inr ys" and "mset zs = add_mset x (mset xs)" and "f x = Inr y"
  shows "\<exists>ys'. map_result f zs = Inr ys' \<and> mset ys' = add_mset y (mset ys)"
proof -
  have "map_result f (x # xs) = Inr (y # ys)" using assms(1,3) by simp
  moreover have "mset zs = mset (x # xs)" using assms(2) by simp
  ultimately show ?thesis using map_result_same_mset by fastforce
qed

section \<open>Locations\<close>

lemma set_locations:
  "l \<in> set (locations rs) \<longleftrightarrow> loc_resource_index l < length rs \<and> loc_resource l = rs ! loc_resource_index l \<and>
     loc_instance_index l < length (r_instances (rs ! loc_resource_index l)) \<and>
     loc_instance l = r_instances (rs ! loc_resource_index l) ! loc_instance_index l"
  by (cases l) (force simp: locations_def in_set_enumerate_eq)

lemma set_grouped: "(g, i) \<in> set (grouped rs) \<longleftrightarrow> (\<exists>l \<in> set (locations rs). g = group_of (loc_resource l) \<and> i = loc_instance l)"
proof
  assume "(g, i) \<in> set (grouped rs)"
  then obtain r where "r \<in> set rs" "i \<in> set (r_instances r)" "g = group_of r" by (auto simp: grouped_def)
  then obtain m n where mn: "m < length rs" "r = rs ! m" "n < length (r_instances r)" "i = r_instances r ! n"
    by (auto simp: in_set_conv_nth)
  then show "\<exists>l \<in> set (locations rs). g = group_of (loc_resource l) \<and> i = loc_instance l"
    by (intro bexI[of _ "\<lparr>loc_resource_index = m, loc_instance_index = n, loc_resource = r, loc_instance = i\<rparr>"])
      (simp_all add: set_locations \<open>g = group_of r\<close>)
next
  assume "\<exists>l \<in> set (locations rs). g = group_of (loc_resource l) \<and> i = loc_instance l"
  then obtain l where l: "l \<in> set (locations rs)" "g = group_of (loc_resource l)" "i = loc_instance l" by blast
  then have "loc_resource l \<in> set rs" "i \<in> set (r_instances (loc_resource l))" unfolding set_locations by (metis nth_mem)+
  then show "(g, i) \<in> set (grouped rs)" using l(2) unfolding grouped_def by force
qed

lemma mset_remove_at: "j < length xs \<Longrightarrow> mset (map f xs) = add_mset (f (xs ! j)) (mset (map f (remove_at j xs)))"
  by (subst id_take_nth_drop[of j xs]) (simp_all add: remove_at_def)

lemma drop_location_grouped:
  assumes "l \<in> set (locations rs)"
  shows "mset (grouped rs) = add_mset (group_of (loc_resource l), loc_instance l) (mset (grouped (drop_location l rs)))"
proof -
  let ?i = "loc_resource_index l" and ?j = "loc_instance_index l"
  have i: "?i < length rs" "loc_resource l = rs ! ?i" "?j < length (r_instances (rs ! ?i))"
    "loc_instance l = r_instances (rs ! ?i) ! ?j" using assms unfolding set_locations by blast+
  let ?r = "rs ! ?i" and ?rest = "remove_at ?j (r_instances (rs ! ?i))"
  have inst: "mset (map (\<lambda>x. (group_of ?r, x)) (r_instances ?r)) =
      add_mset (group_of ?r, r_instances ?r ! ?j) (mset (map (\<lambda>x. (group_of ?r, x)) ?rest))"
    by (rule mset_remove_at[OF i(3)])
  have "rs = take ?i rs @ ?r # drop (Suc ?i) rs" using id_take_nth_drop[OF i(1)] .
  then have "mset (grouped rs) = mset (grouped (take ?i rs)) + mset (map (\<lambda>x. (group_of ?r, x)) (r_instances ?r)) +
      mset (grouped (drop (Suc ?i) rs))"
    by (metis (no_types) grouped_simps(2,3) mset_append union_assoc)
  moreover have "drop_location l rs = take ?i rs @ (if ?rest = [] then [] else [?r\<lparr>r_instances := ?rest\<rparr>]) @ drop (Suc ?i) rs"
    using i(1) by (simp add: drop_location_def Let_def remove_at_def upd_conv_take_nth_drop)
  moreover have "group_of (?r\<lparr>r_instances := ?rest\<rparr>) = group_of ?r" by (simp add: group_of_def)
  ultimately show ?thesis using inst i(2,4) by simp
qed

lemma place_instance_grouped: "mset (grouped (place_instance t inst rs)) = add_mset (group_of t, inst) (mset (grouped rs))"
  by (induction rs) (simp_all add: group_of_def)

lemma find_location_Some:
  "find_location a ls = Inr (Some l) \<Longrightarrow> l \<in> set ls \<and> instance_address (loc_resource l) (loc_instance l) = Inr a"
  by (induction ls) (auto split: sum.splits if_splits)

lemma find_location_None:
  "find_location a ls = Inr None \<Longrightarrow> l \<in> set ls \<Longrightarrow> instance_address (loc_resource l) (loc_instance l) \<noteq> Inr a"
  by (induction ls) (auto split: sum.splits if_splits)

lemma find_location_total:
  "\<forall>l \<in> set ls. \<exists>a. instance_address (loc_resource l) (loc_instance l) = Inr a \<Longrightarrow> \<exists>x. find_location a ls = Inr x"
  by (induction ls) auto

lemma row_address: "build_resource_row js sha r i = Inr row \<Longrightarrow> instance_address r i = Inr (rr_address row)"
  by (auto simp: build_resource_row_def Let_def split: sum.splits)

text \<open>In a document whose rows are built, an address is found where its row comes from.\<close>

lemma located_row:
  assumes b: "build_resource_rows js sha s = Inr rows" and d: "distinct (map rr_address rows)"
  shows "case located s a of
      None \<Rightarrow> parsed_map rows a = None
    | Some l \<Rightarrow> l \<in> set (locations (st_resources s)) \<and>
        (\<exists>row. row_for js sha (group_of (loc_resource l), loc_instance l) = Inr row \<and> parsed_map rows a = Some row)"
proof -
  let ?ls = "locations (st_resources s)"
  have row: "\<exists>row. row_for js sha (group_of (loc_resource l), loc_instance l) = Inr row \<and> row \<in> set rows \<and>
      instance_address (loc_resource l) (loc_instance l) = Inr (rr_address row)" if "l \<in> set ?ls" for l
  proof -
    have m: "(group_of (loc_resource l), loc_instance l) \<in> set (grouped (st_resources s))" using that set_grouped by blast
    obtain row where r: "row_for js sha (group_of (loc_resource l), loc_instance l) = Inr row"
      using map_result_mem[OF b[unfolded rows_grouped] m] by blast
    then have "row \<in> set rows"
      using map_result_projr[OF b[unfolded rows_grouped]] m by (metis (no_types, lifting) image_eqI list.set_map sum.sel(2))
    then show ?thesis using r row_address by (metis row_for_group)
  qed
  obtain x where x: "find_resource_instance s a = Inr x"
    using find_location_total[of ?ls a] row unfolding find_resource_instance_def by blast
  show ?thesis
  proof (cases x)
    case (Some l)
    then have l: "l \<in> set ?ls" "instance_address (loc_resource l) (loc_instance l) = Inr a"
      using find_location_Some x unfolding find_resource_instance_def by blast+
    from row[OF l(1)] obtain row where r: "row_for js sha (group_of (loc_resource l), loc_instance l) = Inr row" "row \<in> set rows"
      "rr_address row = a" using l(2) by auto
    then have "parsed_map rows a = Some row" using index_by_distinct[OF d] by (simp add: parsed_map_def)
    then show ?thesis using x Some l(1) r(1) by (simp add: located_def)
  next
    case None
    have "a \<noteq> rr_address r" if "r \<in> set rows" for r
    proof -
      have "rows = map (\<lambda>x. projr (row_for js sha x)) (grouped (st_resources s))"
        using map_result_projr[OF b[unfolded rows_grouped]] .
      then have "r \<in> (\<lambda>x. projr (row_for js sha x)) ` set (grouped (st_resources s))" using that by simp
      then obtain g i where gi: "(g, i) \<in> set (grouped (st_resources s))" "r = projr (row_for js sha (g, i))"
        by (elim imageE) (metis surj_pair)
      from gi(1) obtain l where l: "l \<in> set ?ls" "g = group_of (loc_resource l)" "i = loc_instance l" unfolding set_grouped by blast
      from row[OF l(1)] have "instance_address (loc_resource l) (loc_instance l) = Inr (rr_address r)"
        by (elim exE conjE) (simp add: gi(2) l(2,3))
      moreover have "instance_address (loc_resource l) (loc_instance l) \<noteq> Inr a"
        using find_location_None[OF _ l(1)] x None unfolding find_resource_instance_def by blast
      ultimately show ?thesis by auto
    qed
    then have "parsed_map rows a = None" using parsed_map_dom[of rows a] by auto
    then show ?thesis using x None by (simp add: located_def)
  qed
qed

section \<open>The rows of a patched document\<close>

lemma same_mset_distinct: "mset xs = mset ys \<Longrightarrow> distinct (map f xs) \<longleftrightarrow> distinct (map f ys)"
  by (metis mset_eq_imp_distinct_iff mset_map)

lemma parsed_map_iff: "distinct (map rr_address rows) \<Longrightarrow> parsed_map rows a = Some r \<longleftrightarrow> r \<in> set rows \<and> rr_address r = a"
  unfolding parsed_map_def by (rule index_by_distinct)

lemma dropped_rows:
  assumes b: "build_resource_rows js sha s = Inr rows" and d: "distinct (map rr_address rows)"
  shows "\<exists>rows1. map_result (row_for js sha) (grouped (case located s a of None \<Rightarrow> st_resources s | Some l \<Rightarrow> drop_location l (st_resources s)))
      = Inr rows1 \<and> distinct (map rr_address rows1) \<and> (\<forall>k. parsed_map rows1 k = (if k = a then None else parsed_map rows k))"
proof (cases "located s a")
  case None
  then show ?thesis using located_row[OF b d, of a] b d by (auto simp: rows_grouped)
next
  case (Some l)
  then obtain row where l: "l \<in> set (locations (st_resources s))" and
    row: "row_for js sha (group_of (loc_resource l), loc_instance l) = Inr row" "parsed_map rows a = Some row"
    using located_row[OF b d, of a] by auto
  obtain rows1 where r1: "map_result (row_for js sha) (grouped (drop_location l (st_resources s))) = Inr rows1"
    "mset rows = add_mset row (mset rows1)"
    using map_result_remove[OF b[unfolded rows_grouped] drop_location_grouped[OF l] row(1)] by blast
  have "mset rows = mset (row # rows1)" using r1(2) by simp
  then have d1: "distinct (map rr_address (row # rows1))" and set_eq: "set rows = set (row # rows1)"
    using d same_mset_distinct mset_eq_setD by blast+
  have a: "rr_address row = a" using parsed_map_address[OF row(2)] by simp
  have "parsed_map rows1 k = (if k = a then None else parsed_map rows k)" for k
  proof (rule map_option_ext)
    fix r
    have "r \<in> set rows1 \<longleftrightarrow> r \<in> set rows \<and> rr_address r \<noteq> a" using d1 set_eq a by (auto, metis imageI)
    then show "parsed_map rows1 k = Some r \<longleftrightarrow> (if k = a then None else parsed_map rows k) = Some r"
      using parsed_map_iff[OF d] parsed_map_iff[of rows1 k r] d1 by auto
  qed
  then show ?thesis using r1(1) d1 Some by auto
qed

lemma patched_rows:
  assumes b: "build_resource_rows js sha s = Inr rows" and d: "distinct (map rr_address rows)"
    and t: "case target of None \<Rightarrow> trow = None | Some t \<Rightarrow> \<exists>row. row_for js sha (group_of (loc_resource t), loc_instance t) = Inr row \<and>
      rr_address row = a \<and> trow = Some row"
  shows "\<exists>rows'. build_resource_rows js sha (patch_state_resource s (located s a) target) = Inr rows' \<and>
     distinct (map rr_address rows') \<and> (\<forall>k. parsed_map rows' k = (if k = a then trow else parsed_map rows k))"
proof -
  let ?rs = "case located s a of None \<Rightarrow> st_resources s | Some l \<Rightarrow> drop_location l (st_resources s)"
  obtain rows1 where r1: "map_result (row_for js sha) (grouped ?rs) = Inr rows1" "distinct (map rr_address rows1)"
    "\<And>k. parsed_map rows1 k = (if k = a then None else parsed_map rows k)" using dropped_rows[OF b d, of a] by blast
  show ?thesis
  proof (cases target)
    case None
    then show ?thesis using t r1 by (auto simp: rows_grouped patch_state_resource_def)
  next
    case (Some x)
    then obtain row where row: "row_for js sha (group_of (loc_resource x), loc_instance x) = Inr row" "rr_address row = a"
      "trow = Some row" using t by auto
    obtain rows2 where r2: "map_result (row_for js sha) (grouped (place_instance (loc_resource x) (loc_instance x) ?rs)) = Inr rows2"
      "mset rows2 = add_mset row (mset rows1)"
      using map_result_insert[OF r1(1) place_instance_grouped row(1)] by blast
    have "mset rows2 = mset (row # rows1)" using r2(2) by simp
    then have eq: "distinct (map rr_address rows2) = distinct (map rr_address (row # rows1))" "set rows2 = set (row # rows1)"
      using same_mset_distinct mset_eq_setD by blast+
    have na: "rr_address r \<noteq> a" if "r \<in> set rows1" for r
      using that r1(3)[of a] parsed_map_iff[OF r1(2), of a r] by simp
    then have d2: "distinct (map rr_address rows2)" using eq(1) r1(2) row(2) by auto
    have "parsed_map rows2 k = (if k = a then trow else parsed_map rows k)" for k
    proof (rule map_option_ext)
      fix r
      have "parsed_map rows k = Some r \<longleftrightarrow> r \<in> set rows1 \<and> rr_address r = k" if "k \<noteq> a"
        using r1(3)[of k] parsed_map_iff[OF r1(2), of k r] that by simp
      then show "parsed_map rows2 k = Some r \<longleftrightarrow> (if k = a then trow else parsed_map rows k) = Some r"
        using parsed_map_iff[OF d2, of k r] eq(2) row(2,3) na by auto
    qed
    then show ?thesis using r2(1) d2 Some by (auto simp: rows_grouped patch_state_resource_def)
  qed
qed

section \<open>The derived version\<close>

lemma derived_versionE:
  assumes "derived_version p sid serial patched source actor to_close to_insert d = Inr d'"
  obtains L v where "commit_rows sid serial to_close to_insert (db_ledger d) = Inr L"
    "vr_id v = fresh_id d" "vr_state_id v = sid" "vr_serial v = serial" "vr_raw v = patched\<lparr>st_serial := serial\<rparr>"
    "db_ledger d' = L" "db_versions d' = db_versions d @ [v]" "db_next d' = Suc (db_next d)"
    "db_states d' = db_states (set_current sid (vr_id v) d)" "db_locks d' = db_locks d"
    "or_version_id ` set (db_outputs d') \<subseteq> insert (vr_id v) (or_version_id ` set (db_outputs d))"
proof -
  let ?st = "patched\<lparr>st_serial := serial\<rparr>"
  obtain vid d2 where 1: "insert_version p sid serial (st_terraform_version ?st) ?st source actor d = Inr (vid, d2)"
    using assms by (auto simp: derived_version_def Let_def)
  from 1 obtain v where v: "vr_id v = fresh_id d" "vr_state_id v = sid" "vr_serial v = serial" "vr_raw v = ?st"
    "vid = fresh_id d" "serial \<notin> set (state_serials d sid)"
    "d2 = d\<lparr>db_versions := db_versions d @ [v], db_next := Suc (db_next d)\<rparr>" by (rule insert_versionE)
  obtain L where L: "commit_rows sid serial to_close to_insert (db_ledger d2) = Inr L"
    "d' = log_state_write p sid vid actor source serial (set_current sid vid (insert_outputs (pr_tenant p) vid ?st (d2\<lparr>db_ledger := L\<rparr>)))"
    using assms 1 by (auto simp: derived_version_def Let_def)
  have outs: "or_version_id ` set (db_outputs d') \<subseteq> insert (vr_id v) (or_version_id ` set (db_outputs d))"
    using insert_outputs_ids[of "pr_tenant p" vid ?st "d2\<lparr>db_ledger := L\<rparr>"] by (simp add: L(2) v(1,5,7))
  have st: "db_states d' = db_states (set_current sid (vr_id v) d)"
    using set_current_states[of "insert_outputs (pr_tenant p) vid ?st (d2\<lparr>db_ledger := L\<rparr>)" d sid vid] by (simp add: L(2) v(1,5,7))
  have d': "db_ledger d' = L" "db_versions d' = db_versions d @ [v]" "db_next d' = Suc (db_next d)" "db_locks d' = db_locks d"
    by (simp_all add: L(2) v(7))
  have "db_ledger d2 = db_ledger d" by (simp add: v(7))
  then show thesis using that[OF _ v(1-4) d'(1-3) st d'(4) outs] L(1) by simp
qed

lemma load_open_row_iff:
  assumes "ledger_ok sid s0 L"
  shows "load_open_row L sid a = Some r \<longleftrightarrow> open_row sid L a r"
proof
  assume r: "open_row sid L a r"
  then have "load_open_row L sid a \<noteq> None"
    by (auto simp: load_open_row_def find_None_iff open_row_def)
  then obtain r' where r': "load_open_row L sid a = Some r'" by blast
  then have "open_row sid L a r'" by (auto simp: load_open_row_def find_Some_iff open_row_def)
  then show "load_open_row L sid a = Some r" using r r' load_open_iff(1)[OF assms, of a] by (metis option.inject)
qed (auto simp: load_open_row_def find_Some_iff open_row_def)

definition one_row :: "string \<Rightarrow> resource_row option \<Rightarrow> (string \<rightharpoonup> resource_row)" where
  "one_row a row = (\<lambda>k. if k = a then row else None)"

lemma exact_sweep:
  assumes ok: "ledger_ok sid s0 L" and addr: "\<And>row. inserted = Some row \<Longrightarrow> rr_address row = a"
    and differs: "\<And>r row. load_open_row L sid a = Some r \<Longrightarrow> inserted = Some row \<Longrightarrow> rr_hash (lr_row r) \<noteq> rr_hash row"
  shows "sweep_spec sid L (\<lambda>k. k = a) (one_row a inserted)
    (case load_open_row L sid a of None \<Rightarrow> [] | Some r \<Rightarrow> [lr_id r]) (case inserted of None \<Rightarrow> [] | Some row \<Rightarrow> [row])"
proof -
  note op = load_open_row_iff[OF ok]
  have k: "\<not> keeps (one_row a inserted) r" if "open_row sid L a r" for r
    using that differs[of r] op[of a r] by (auto simp: keeps_def one_row_def open_row_def split: option.splits)
  show ?thesis
  proof (cases "load_open_row L sid a")
    case None
    then have "\<not> open_row sid L a r" for r using op[of a r] by simp
    then show ?thesis using None by (auto simp: sweep_spec_def one_row_def split: option.splits)
  next
    case (Some r0)
    then have "open_row sid L a r \<longleftrightarrow> r = r0" for r using op[of a r] by auto
    then show ?thesis using k Some by (auto simp: sweep_spec_def one_row_def split: option.splits)
  qed
qed

lemma current_is_max:
  assumes "store_ok d" and "state_by_id d sid = Some r" and "sr_current r = Some (vr_id v)" and "v \<in> set (db_versions d)"
    and "vr_state_id v = sid"
  shows "vr_serial v = max_serial d sid"
proof -
  have r: "r \<in> set (db_states d)" "sr_id r = sid"
    using assms(2) by (auto simp: state_by_id_def find_Some_iff)
  have "state_serials d sid \<noteq> []" using assms(4,5) by (auto simp: state_serials_def filter_empty_conv)
  moreover have "current_latest d r" using assms(1) r(1) by (simp add: store_ok_def)
  ultimately obtain w where w: "w \<in> set (db_versions d)" "sr_current r = Some (vr_id w)" "vr_serial w = max_serial d sid"
    by (auto simp: current_latest_def r(2))
  have "distinct (map vr_id (db_versions d))" using assms(1) by (simp add: store_ok_def db_ok_def versions_ok_def)
  then have "w = v" using w(1,2) assms(3,4) by (auto simp: distinct_map dest: inj_onD)
  then show ?thesis using w(3) by simp
qed

text \<open>A new version that differs from the current one at the address \<open>a\<close> only, where the ledger now shows \<open>h\<close>.\<close>

definition changed_at :: "(json \<Rightarrow> string) \<Rightarrow> (string \<Rightarrow> string) \<Rightarrow> string \<Rightarrow> string \<Rightarrow> string option \<Rightarrow> db \<Rightarrow> db \<Rightarrow> bool" where
  "changed_at js sha sid a h d d' \<longleftrightarrow> store_inv js sha d' \<and>
     (\<exists>v. db_versions d' = db_versions d @ [v] \<and> vr_state_id v = sid \<and> vr_serial v = next_serial d sid \<and> version_added d sid v d') \<and>
     (\<forall>k. hash_at sid (db_ledger d') (next_serial d sid) k = (if k = a then h else hash_at sid (db_ledger d) (max_serial d sid) k))"

text \<open>A derived version that closes the open row of one address and inserts at most one row there.\<close>

lemma derived_change:
  assumes inv: "store_inv js sha d"
    and w: "derived_version p sid (next_serial d sid) patched source actor
      (case load_open_row (db_ledger d) sid a of None \<Rightarrow> [] | Some r \<Rightarrow> [lr_id r])
      (case inserted of None \<Rightarrow> [] | Some row \<Rightarrow> [row]) d = Inr d'"
    and sid: "sid \<in> state_ids d" and v0: "v0 \<in> set (db_versions d)" "vr_state_id v0 = sid" "vr_serial v0 = max_serial d sid"
    and rows: "build_resource_rows js sha (vr_raw v0) = Inr rows" "build_resource_rows js sha patched = Inr rows'"
      "\<And>k. parsed_map rows' k = (if k = a then trow else parsed_map rows k)"
    and inserted: "\<And>row. inserted = Some row \<Longrightarrow> rr_address row = a \<and> regular js sha row" "map_option rr_hash inserted = map_option rr_hash trow"
    and differs: "\<And>r row. load_open_row (db_ledger d) sid a = Some r \<Longrightarrow> inserted = Some row \<Longrightarrow> rr_hash (lr_row r) \<noteq> rr_hash row"
    and ver: "st_version patched = 4" and plain: "plain_resources (st_resources patched)"
  shows "changed_at js sha sid a (map_option rr_hash inserted) d d'"
  using w
proof (cases rule: derived_versionE)
  case (1 L v)
  let ?s = "next_serial d sid" and ?m = "max_serial d sid"
  have st: "store_ok d" and fa: "shows_version js sha (db_ledger d) v0" and reg: "rows_regular js sha (db_ledger d)"
    using inv v0(1) by (simp_all add: store_inv_def faithful_def)
  have ok: "ledger_ok sid ?m (db_ledger d)" using st by (simp add: store_ok_def ledger_tracks_def)
  have top: "\<forall>s \<in> set (state_serials d sid). s < ?s" using next_serial_fresh by blast
  have mem: "?m \<in> set (state_serials d sid)" unfolding v0(3)[symmetric] state_serials_def using v0(1,2) by simp
  then have lt: "?m < ?s" using top by blast
  have addr: "rr_address row = k" if "one_row a inserted k = Some row" for k row
    using that inserted(1) by (auto simp: one_row_def split: if_splits)
  from commit_rows_step[OF 1(1) ok lt exact_sweep[OF ok _ differs] addr] inserted(1)
  obtain news where c: "commit_step sid ?m ?s (db_ledger d) L (\<lambda>k. k = a) (one_row a inserted)
      (case load_open_row (db_ledger d) sid a of None \<Rightarrow> [] | Some r \<Rightarrow> [lr_id r]) news" by blast
  have now: "hash_at sid L ?s k = (if k = a then map_option rr_hash inserted else hash_at sid (db_ledger d) ?m k)" for k
    using commit_hash_in_scope[OF c, of k] commit_content_out_of_scope[OF c, of k] by (simp add: one_row_def hash_at_def)
  have hash: "hash_at sid L ?s k = map_option rr_hash (parsed_map rows' k)" for k
    using now[of k] fa rows(1) v0(2,3) rows(3)[of k] inserted(2) by (simp add: shows_version_def)
  have "build_resource_rows js sha (vr_raw v) = Inr rows'"
    using rows(2) 1(5) by (simp add: build_resource_rows_def)
  then have shows_v: "shows_version js sha (db_ledger d') v"
    unfolding shows_version_def using hash 1(3-6) ver by simp
  have rg: "regular js sha row" if "one_row a inserted k = Some row" for k row
    using that inserted(1) by (auto simp: one_row_def split: if_splits)
  have "rows_regular js sha L"
    using commit_regular[OF c, of js sha] reg rg unfolding rows_regular_def by blast
  moreover have a: "version_added d sid v d'"
    using sid top c 1 unfolding version_added_def ledger_commit_def by auto
  ultimately have "store_inv js sha d'" using version_added_inv[OF inv _ shows_v] plain 1(5,6) by simp
  then show ?thesis using now a 1(3,4,6,7) by (simp add: changed_at_def)
qed

lemma next_not_same: "derived_version p sid serial patched source actor ids ins d \<noteq> Inr d"
proof
  assume "derived_version p sid serial patched source actor ids ins d = Inr d"
  then show False by (rule derived_versionE) simp
qed

section \<open>Remove\<close>

definition addressed_once :: "tf_state \<Rightarrow> bool" where
  "addressed_once s \<longleftrightarrow> distinct (map (\<lambda>p. instance_address (fst p) (snd p)) (state_instances s))"

definition docs_addressed :: "db \<Rightarrow> bool" where
  "docs_addressed d \<longleftrightarrow> (\<forall>v \<in> set (db_versions d). addressed_once (vr_raw v))"

lemma addressed_rows:
  assumes "build_resource_rows js sha s = Inr rows" and "addressed_once s"
  shows "distinct (map rr_address rows)"
proof -
  have "list_all2 (\<lambda>p row. build_resource_row js sha (fst p) (snd p) = Inr row) (state_instances s) rows"
    using assms(1) unfolding build_resource_rows_def state_instances_def map_result_Inr_iff by (simp add: split_def)
  then have "list_all2 (\<lambda>p row. instance_address (fst p) (snd p) = Inr (rr_address row)) (state_instances s) rows"
    by (rule list_all2_mono) (rule row_address)
  then have "map Inr (map rr_address rows) = map (\<lambda>p. instance_address (fst p) (snd p)) (state_instances s)"
    by (induction rule: list_all2_induct) simp_all
  then have "distinct (map (Inr :: string \<Rightarrow> (raw, string) result) (map rr_address rows))"
    using assms(2) by (metis addressed_once_def)
  then show ?thesis by (simp only: distinct_map)
qed

lemma plain_grouped: "plain_resources rs \<longleftrightarrow> (\<forall>p \<in> set (grouped rs). index_plain (i_index_key (snd p)))"
  by (auto simp: plain_resources_def grouped_def)

lemma patched_plain:
  assumes "plain_resources (st_resources s)" and "\<And>l. current = Some l \<Longrightarrow> l \<in> set (locations (st_resources s))"
    and "\<And>t. target = Some t \<Longrightarrow> index_plain (i_index_key (loc_instance t))"
  shows "plain_resources (st_resources (patch_state_resource s current target))"
proof -
  let ?rs = "case current of None \<Rightarrow> st_resources s | Some l \<Rightarrow> drop_location l (st_resources s)"
  have "set (grouped ?rs) \<subseteq> set (grouped (st_resources s))"
  proof (cases current)
    case (Some l)
    have "set_mset (mset (grouped (drop_location l (st_resources s)))) \<subseteq> set_mset (mset (grouped (st_resources s)))"
      unfolding drop_location_grouped[OF assms(2)[OF Some]] by (simp, blast)
    then show ?thesis using Some by simp
  qed simp
  then have rs: "\<forall>p \<in> set (grouped ?rs). index_plain (i_index_key (snd p))"
    using assms(1) unfolding plain_grouped by blast
  show ?thesis
  proof (cases target)
    case None
    then show ?thesis using rs by (simp add: patch_state_resource_def plain_grouped)
  next
    case (Some t)
    have "set (grouped (place_instance (loc_resource t) (loc_instance t) ?rs)) =
        insert (group_of (loc_resource t), loc_instance t) (set (grouped ?rs))"
      using arg_cong[OF place_instance_grouped[of "loc_resource t" "loc_instance t" ?rs], of set_mset] by simp
    then show ?thesis using rs assms(3)[OF Some] Some unfolding plain_grouped patch_state_resource_def Let_def by simp
  qed
qed

lemma read_current_documentE:
  assumes ok: "store_ok d" and "read_current_document p name d = Inr (sid, s)"
  obtains r v0 where "find_state d (pr_tenant p) name = Some r" "sid = sr_id r" "sid \<in> state_ids d"
    "v0 \<in> set (db_versions d)" "vr_state_id v0 = sid" "vr_serial v0 = max_serial d sid" "s = vr_raw v0" "st_version s = 4"
proof -
  obtain r where r: "find_state d (pr_tenant p) name = Some r" "sid = sr_id r"
    using assms(2) by (auto simp: read_current_document_def lookup_state_and_current_def split: option.splits if_splits)
  obtain v where v: "version_lookup d sid ''current'' = Inr v" "parse_state (Some (vr_raw v)) = Inr s"
    using assms(2) by (auto simp: read_current_document_def split: if_splits)
  have f: "find_version d sid (\<lambda>v. case state_by_id d sid of None \<Rightarrow> False | Some r \<Rightarrow> sr_current r = Some (vr_id v)) = Inr v"
    using v(1) by (simp add: version_lookup_def)
  from find_version_SomeD[OF f] obtain r' where m: "v \<in> set (db_versions d)" "vr_state_id v = sid" "state_by_id d sid = Some r'"
    "sr_current r' = Some (vr_id v)" by (auto split: option.splits)
  show thesis
    using that[OF r _ m(1,2) current_is_max[OF ok m(3,4,1,2)]] find_state_id[OF r(1)] r(2) parse_state_version[OF v(2)] by simp
qed

lemma apply_remove_deltaE:
  assumes "apply_remove_delta p name a actor id d = Inr (sid, serial, d')"
  obtains "d' = d" | s l row where "read_current_document p name d = Inr (sid, s)" "find_resource_instance s a = Inr (Some l)"
    "load_open_row (db_ledger d) sid a = Some row" "serial = next_serial d sid"
    "derived_version p sid (next_serial d sid) (patch_state_resource s (Some l) None) (''resource-remove:'' @ a) actor [lr_id row] [] d = Inr d'"
proof -
  obtain sid0 s where rd: "read_current_document p name d = Inr (sid0, s)"
    using assms by (auto simp: apply_remove_delta_def)
  obtain loc where loc: "find_resource_instance s a = Inr loc" using assms rd by (auto simp: apply_remove_delta_def)
  show thesis
  proof (cases loc)
    case None
    then show thesis using that(1) assms rd loc by (simp add: apply_remove_delta_def)
  next
    case (Some l)
    obtain row where row: "load_open_row (db_ledger d) sid0 a = Some row"
      using assms rd loc Some by (auto simp: apply_remove_delta_def Let_def split: option.splits)
    have "sid0 = sid" "serial = next_serial d sid"
      "derived_version p sid0 (next_serial d sid0) (patch_state_resource s (Some l) None) (''resource-remove:'' @ a) actor [lr_id row] [] d = Inr d'"
      using assms rd loc Some row by (auto simp: apply_remove_delta_def Let_def)
    then show thesis using that(2)[of s l row] rd loc Some row by simp
  qed
qed

lemma apply_remove_delta_change:
  assumes inv: "store_inv js sha d" and docs: "docs_addressed d"
    and w: "apply_remove_delta p name a actor id d = Inr (sid, serial, d')"
  shows "d' = d \<or> (serial = next_serial d sid \<and> changed_at js sha sid a None d d')"
  using w
proof (cases rule: apply_remove_deltaE)
  case 1
  then show ?thesis by simp
next
  case (2 s l row)
  have ok: "store_ok d" using inv by (simp add: store_inv_def)
  from read_current_documentE[OF ok 2(1)] obtain v0 where v0: "sid \<in> state_ids d" "v0 \<in> set (db_versions d)"
    "vr_state_id v0 = sid" "vr_serial v0 = max_serial d sid" "s = vr_raw v0" "st_version s = 4" by metis
  have lo: "located s a = Some l" using 2(2) by (simp add: located_def)
  obtain rows where b: "build_resource_rows js sha s = Inr rows"
    using inv v0(2,5) by (auto simp: store_inv_def faithful_def shows_version_def)
  have dis: "distinct (map rr_address rows)" using addressed_rows[OF b] docs v0(2,5) by (simp add: docs_addressed_def)
  obtain rows' where rows': "build_resource_rows js sha (patch_state_resource s (located s a) None) = Inr rows'"
    "\<And>k. parsed_map rows' k = (if k = a then None else parsed_map rows k)"
    using patched_rows[OF b dis, where target = None and trow = None and a = a] by auto
  have "l \<in> set (locations (st_resources s))" using located_row[OF b dis, of a] lo by simp
  then have plain: "plain_resources (st_resources (patch_state_resource s (located s a) None))"
    using inv v0(2,5) lo by (intro patched_plain) (auto simp: store_inv_def docs_plain_def)
  have "changed_at js sha sid a (map_option rr_hash (None :: resource_row option)) d d'"
    by (rule derived_change[OF inv _ v0(1-4) b[unfolded v0(5)] rows', of p "''resource-remove:'' @ a" actor None])
      (use 2(3,5) v0(6) plain in \<open>simp_all add: patch_state_resource_def lo\<close>)
  then show ?thesis using 2(4) by simp
qed

lemma apply_remove_change:
  assumes inv: "store_inv js sha d" and docs: "docs_addressed d" and w: "apply_remove p name a actor id d = Inr (info, preview, d')"
  shows "d' = d \<and> info = None \<or> (\<exists>r. find_state d (pr_tenant p) name = Some r \<and> changed_at js sha (sr_id r) (trim_space a) None d d')"
proof (cases "mp_action preview = NoOp")
  case True
  then show ?thesis using w by (auto simp: apply_remove_def split: if_splits)
next
  case False
  then obtain sid serial where dl: "apply_remove_delta p name (trim_space a) actor id d = Inr (sid, serial, d')"
    "preview_remove d p name a = Inr preview"
    using w by (auto simp: apply_remove_def split: if_splits)
  obtain s where rd: "read_current_document p name d = Inr (sid, s)"
    using dl(1) by (auto simp: apply_remove_delta_def Let_def split: option.splits)
  obtain r where r: "find_state d (pr_tenant p) name = Some r" "sr_id r = sid"
    using rd by (auto simp: read_current_document_def lookup_state_and_current_def split: option.splits if_splits)
  obtain v where v: "version_lookup d sid ''current'' = Inr v" "parse_state (Some (vr_raw v)) = Inr s"
    using rd r by (auto simp: read_current_document_def lookup_state_and_current_def split: if_splits)
  obtain l where "find_resource_instance s (trim_space a) = Inr (Some l)"
  proof -
    have e: "resolve_version d [] (pr_tenant p) sid ''current'' = Inr v" using v(1) by (simp add: resolve_version_def ref_looks_like_tag_def)
    obtain loc where "find_resource_instance s (trim_space a) = Inr loc" "loc = None \<Longrightarrow> mp_action preview = NoOp"
      using dl(2) r v(2) e
      by (auto simp: preview_remove_def get_version_raw_def lookup_state_and_current_def Let_def zero_preview_def split: if_splits)
    then show ?thesis using False that by (cases loc) auto
  qed
  then have "\<not> (\<exists>x. apply_remove_delta p name (trim_space a) actor id d = Inr (sid, x, d))"
    using rd next_not_same by (auto simp: apply_remove_delta_def Let_def split: option.splits)
  then show ?thesis using apply_remove_delta_change[OF inv docs dl(1)] dl(1) r by auto
qed

lemma changed_at_step: "changed_at js sha sid a h d d' \<Longrightarrow> store_inv js sha d' \<and> committed d d'"
  unfolding changed_at_def committed_def using still_refl by blast

lemma apply_remove_step:
  assumes "store_inv js sha d" and "docs_addressed d" and "apply_remove p name a actor id d = Inr (info, preview, d')"
  shows "store_inv js sha d' \<and> (still d d' \<or> committed d d')"
  using apply_remove_change[OF assms] assms(1) changed_at_step still_refl by metis

lemmas apply_remove_inv = apply_remove_step[THEN conjunct1]

end
