(* ===== verification/ReplayKeep.thy ===== *)
theory ReplayKeep
  imports MutationsKeep
begin

text \<open>
  The rollback of one address (\<^verbatim>\<open>replayResourceVersion\<close>) keeps the invariant of the store: the ledger row it
  copies has the hash of the instance it copies into the document.
\<close>

section \<open>Three ways to read one address at one serial\<close>

lemma at_most_one: "distinct xs \<Longrightarrow> (\<And>x y. x \<in> set xs \<Longrightarrow> y \<in> set xs \<Longrightarrow> x = y) \<Longrightarrow> xs = [] \<or> (\<exists>x. xs = [x])"
proof (cases xs)
  case (Cons x ys)
  assume a: "distinct xs" "\<And>x y. x \<in> set xs \<Longrightarrow> y \<in> set xs \<Longrightarrow> x = y"
  have "ys = []"
  proof (cases ys)
    case (Cons y zs)
    then have "x = y" using \<open>xs = x # ys\<close> by (intro a(2)) simp_all
    then show ?thesis using a(1) Cons \<open>xs = x # ys\<close> by simp
  qed simp
  then show ?thesis using Cons by blast
qed simp

lemma filter_content:
  assumes ok: "ledger_ok sid s0 L"
  shows "filter (\<lambda>r. live sid q r \<and> lr_address r = a) (ld_rows L) = [] \<and> content_at sid L q a = None \<or>
    (\<exists>r. filter (\<lambda>r. live sid q r \<and> lr_address r = a) (ld_rows L) = [r] \<and> content_at sid L q a = Some (lr_row r))"
proof -
  let ?f = "filter (\<lambda>r. live sid q r \<and> lr_address r = a) (ld_rows L)"
  have L: "distinct (map lr_id (ld_rows L))" "no_overlap L" using ok by (simp_all add: ledger_ok_def)
  note c = content_at_iff[OF L, of sid q a]
  have "distinct ?f" using L(1) by (simp add: distinct_map)
  moreover have "r = t" if "r \<in> set ?f" "t \<in> set ?f" for r t
  proof -
    have "lr_id r = lr_id t" by (rule live_unique[OF L(2), of r t sid q]) (use that in auto)
    then show ?thesis using distinct_ids_eq[OF L(1)] that by simp
  qed
  ultimately have "?f = [] \<or> (\<exists>r. ?f = [r])" by (rule at_most_one)
  then show ?thesis
  proof
    assume e: "?f = []"
    then have "content_at sid L q a \<noteq> Some x" for x unfolding c by (auto simp: filter_empty_conv)
    then show ?thesis using e by (cases "content_at sid L q a") auto
  next
    assume "\<exists>r. ?f = [r]"
    then obtain r where r: "?f = [r]" by blast
    then have "r \<in> set ?f" by simp
    then have "content_at sid L q a = Some (lr_row r)" unfolding c by auto
    then show ?thesis using r by blast
  qed
qed

lemma find_filter: "find P xs = (case filter P xs of [] \<Rightarrow> None | x # ys \<Rightarrow> Some x)"
  by (induction xs) auto

lemma row_at_serial_content:
  assumes "ledger_ok sid s0 L" and "trim_space sid \<noteq> []" and "trim_space a = a" and "a \<noteq> []" and "q > 0"
  shows "map_option lr_row (load_row_at_serial L sid a q) = content_at sid L q a"
    and "resource_at_version L sid q a = content_at sid L q a"
  using filter_content[OF assms(1), of q a] assms(2-) by (auto simp: load_row_at_serial_def resource_at_version_def find_filter)

lemma open_row_content:
  assumes "ledger_ok sid s0 L"
  shows "map_option lr_row (load_open_row L sid a) = content_at sid L s0 a"
  by (rule map_option_ext) (auto simp: open_content[OF assms order_refl] load_open_row_iff[OF assms])

lemma issued_not_blank:
  assumes "sid \<in> issued d"
  shows "trim_space sid \<noteq> []"
proof -
  obtain n where n: "sid = show_nat n" using assms by (auto simp: issued_def)
  have "trim_space sid = sid"
    using show_nat_digits[of n] n by (intro trim_space_no_space) (auto simp: list_all_iff is_digit_def is_space_def)
  then show ?thesis using show_nat_digits[of n] n by simp
qed

section \<open>Replay\<close>

text \<open>The hash tells apart the rows of an address whose columns differ, as SHA-256 does but for collisions.\<close>

definition hash_separates :: "ledger \<Rightarrow> bool" where
  "hash_separates L \<longleftrightarrow> (\<forall>r \<in> set (ld_rows L). \<forall>t \<in> set (ld_rows L). lr_address r = lr_address t \<longrightarrow>
     rr_hash (lr_row r) = rr_hash (lr_row t) \<longrightarrow> snapshot_columns (lr_row r) = snapshot_columns (lr_row t))"

lemma resolve_current:
  "resolve_version d tags tenant sid ''current'' = version_lookup d sid ''current''"
  by (simp add: resolve_version_def ref_looks_like_tag_def)

lemma version_lookup_currentD:
  assumes "store_ok d" and "version_lookup d sid ''current'' = Inr v"
  shows "v \<in> set (db_versions d) \<and> vr_state_id v = sid \<and> vr_serial v = max_serial d sid"
proof -
  have f: "find_version d sid (\<lambda>v. case state_by_id d sid of None \<Rightarrow> False | Some r \<Rightarrow> sr_current r = Some (vr_id v)) = Inr v"
    using assms(2) by (simp add: version_lookup_def)
  from find_version_SomeD[OF f] obtain r where "v \<in> set (db_versions d)" "vr_state_id v = sid" "state_by_id d sid = Some r"
    "sr_current r = Some (vr_id v)" by (auto split: option.splits)
  then show ?thesis using current_is_max[OF assms(1)] by blast
qed

text \<open>A rollback that is not a no-op is one derived version of the patched document.\<close>

lemma replay_resource_versionE:
  assumes "replay_resource_version p tags name a ref actor id d = Inr (info, preview, d')"
  obtains "d' = d" "info = None" | r cv tv where "find_state d (pr_tenant p) name = Some r" "version_lookup d (sr_id r) ''current'' = Inr cv"
    "resolve_version d tags (pr_tenant p) (sr_id r) ref = Inr tv" "st_version (vr_raw cv) = 4" "st_version (vr_raw tv) = 4"
    "classify_replay (resource_at_version (db_ledger d) (sr_id r) (vr_serial cv) a)
       (resource_at_version (db_ledger d) (sr_id r) (vr_serial tv) a) \<noteq> ReplayNoOp"
    "derived_version p (sr_id r) (next_serial d (sr_id r))
       (patch_state_resource (vr_raw cv) (located (vr_raw cv) a) (located (vr_raw tv) a)) (''resource-rollback:'' @ trim_space a) actor
       (case load_open_row (db_ledger d) (sr_id r) (trim_space a) of None \<Rightarrow> [] | Some r \<Rightarrow> [lr_id r])
       (case load_row_at_serial (db_ledger d) (sr_id r) (trim_space a) (vr_serial tv) of None \<Rightarrow> [] | Some r \<Rightarrow> [lr_row r])
       d = Inr d'"
proof -
  obtain r where r: "find_state d (pr_tenant p) name = Some r"
    using assms by (auto simp: replay_resource_version_def preview_replay_resource_def lookup_state_and_current_def split: option.splits)
  let ?sid = "sr_id r"
  obtain cv tv where v: "version_lookup d ?sid ''current'' = Inr cv" "resolve_version d tags (pr_tenant p) ?sid ref = Inr tv"
    using assms r by (auto simp: replay_resource_version_def preview_replay_resource_def lookup_state_and_current_def resolve_current)
  note s = r v lookup_state_and_current_def resolve_current preview_replay_resource_def replay_resource_version_def Let_def
    get_version_raw_def info_of_def
  show thesis
  proof (cases "classify_replay (resource_at_version (db_ledger d) ?sid (vr_serial cv) a)
       (resource_at_version (db_ledger d) ?sid (vr_serial tv) a) = ReplayNoOp")
    case True
    then have "d' = d \<and> info = None" using assms by (simp add: s)
    then show thesis using that(1) by blast
  next
    case False
    obtain cst tst where st: "parse_state (Some (vr_raw cv)) = Inr cst" "parse_state (Some (vr_raw tv)) = Inr tst"
      using assms False by (auto simp: s)
    have p: "cst = vr_raw cv" "tst = vr_raw tv" "st_version (vr_raw cv) = 4" "st_version (vr_raw tv) = 4"
      using parse_state_version st by auto
    show thesis
      by (rule that(2)[OF r v p(3,4) False])
        (use assms False st p in \<open>auto simp: s replay_delta_def split: if_splits\<close>)
  qed
qed

lemma replay_resource_change:
  assumes inv: "store_inv js sha d" and docs: "docs_addressed d" and sep: "hash_separates (db_ledger d)"
    and a: "trim_space a = a" "a \<noteq> []"
    and w: "replay_resource_version p tags name a ref actor id d = Inr (info, preview, d')"
    and pos: "\<And>r v. find_state d (pr_tenant p) name = Some r \<Longrightarrow> resolve_version d tags (pr_tenant p) (sr_id r) ref = Inr v \<Longrightarrow> vr_serial v > 0"
  shows "d' = d \<and> info = None \<or> (\<exists>r v. find_state d (pr_tenant p) name = Some r \<and> resolve_version d tags (pr_tenant p) (sr_id r) ref = Inr v \<and>
    changed_at js sha (sr_id r) a (hash_at (sr_id r) (db_ledger d) (vr_serial v) a) d d')"
  using w
proof (cases rule: replay_resource_versionE)
  case 1
  then show ?thesis by simp
next
  case (2 r cv tv)
  let ?sid = "sr_id r" and ?L = "db_ledger d" and ?m = "max_serial d (sr_id r)"
  have st: "store_ok d" and reg: "rows_regular js sha ?L" using inv by (simp_all add: store_inv_def)
  note cv = version_lookup_currentD[OF st 2(2)] and tv = resolve_version_mem[OF 2(3)]
  have sid: "?sid \<in> state_ids d" by (rule find_state_id[OF 2(1)])
  have blank: "trim_space ?sid \<noteq> []"
    using sid st by (intro issued_not_blank[of _ d]) (auto simp: store_ok_def db_ok_def states_ok_def)
  have ok: "ledger_ok ?sid ?m ?L" using st by (simp add: store_ok_def ledger_tracks_def)
  have tpos: "vr_serial tv > 0" by (rule pos[OF 2(1,3)])
  have "vr_serial tv \<in> set (state_serials d ?sid)" using tv by (auto simp: state_serials_def)
  moreover from this have "state_serials d ?sid \<noteq> []" by auto
  ultimately have "vr_serial tv \<le> ?m" using max_serial_Max by simp
  then have cpos: "vr_serial cv > 0" using tpos cv by simp
  note read_t = row_at_serial_content[OF ok blank a tpos]
  have cur: "resource_at_version ?L ?sid (vr_serial cv) a = map_option lr_row (load_open_row ?L ?sid a)"
    using row_at_serial_content(2)[OF ok blank a cpos] cv open_row_content[OF ok] by simp
  let ?row = "map_option lr_row (load_row_at_serial ?L ?sid a (vr_serial tv))"
  obtain rows where rows: "build_resource_rows js sha (vr_raw cv) = Inr rows"
    using inv cv by (auto simp: store_inv_def faithful_def shows_version_def)
  obtain trows where trows: "build_resource_rows js sha (vr_raw tv) = Inr trows"
    "hash_at ?sid ?L (vr_serial tv) a = map_option rr_hash (parsed_map trows a)"
    using inv tv by (auto simp: store_inv_def faithful_def shows_version_def)
  have dis: "distinct (map rr_address rows)" "distinct (map rr_address trows)"
    using addressed_rows rows trows(1) docs cv tv by (simp_all add: docs_addressed_def)
  have target: "case located (vr_raw tv) a of None \<Rightarrow> parsed_map trows a = None
      | Some t \<Rightarrow> \<exists>row. row_for js sha (group_of (loc_resource t), loc_instance t) = Inr row \<and> rr_address row = a \<and>
          parsed_map trows a = Some row"
    using located_row[OF trows(1) dis(2), of a] parsed_map_address by (auto split: option.splits)
  obtain rows' where rows': "build_resource_rows js sha (patch_state_resource (vr_raw cv) (located (vr_raw cv) a) (located (vr_raw tv) a)) = Inr rows'"
    "\<And>k. parsed_map rows' k = (if k = a then parsed_map trows a else parsed_map rows k)"
    using patched_rows[OF rows dis(1) target] by blast
  have plain: "plain_resources (st_resources (patch_state_resource (vr_raw cv) (located (vr_raw cv) a) (located (vr_raw tv) a)))"
  proof (rule patched_plain)
    show "plain_resources (st_resources (vr_raw cv))" using inv cv by (simp add: store_inv_def docs_plain_def)
    show "l \<in> set (locations (st_resources (vr_raw cv)))" if "located (vr_raw cv) a = Some l" for l
      using located_row[OF rows dis(1), of a] that by simp
    have "plain_resources (st_resources (vr_raw tv))" using inv tv by (simp add: store_inv_def docs_plain_def)
    moreover have "(group_of (loc_resource t), loc_instance t) \<in> set (grouped (st_resources (vr_raw tv)))"
      if "located (vr_raw tv) a = Some t" for t
      using located_row[OF trows(1) dis(2), of a] that set_grouped by fastforce
    ultimately show "index_plain (i_index_key (loc_instance t))" if "located (vr_raw tv) a = Some t" for t
      using that unfolding plain_grouped by fastforce
  qed
  have row_in: "\<exists>x \<in> set (ld_rows ?L). lr_row x = row \<and> lr_address x = a" if "?row = Some row" for row
    using that unfolding read_t(1) using ok by (auto simp: content_at_iff ledger_ok_def)
  have differs: "rr_hash (lr_row x) \<noteq> rr_hash row" if x: "load_open_row ?L ?sid a = Some x" and row: "?row = Some row" for x row
  proof
    assume h: "rr_hash (lr_row x) = rr_hash row"
    have "x \<in> set (ld_rows ?L)" "lr_address x = a" using x load_open_row_iff[OF ok] by (auto simp: open_row_def)
    then have "snapshot_columns (lr_row x) = snapshot_columns row"
      using row_in[OF row] sep h unfolding hash_separates_def by metis
    then show False using 2(6) x row read_t unfolding cur by (simp add: classify_replay_def)
  qed
  have w': "derived_version p ?sid (next_serial d ?sid)
      (patch_state_resource (vr_raw cv) (located (vr_raw cv) a) (located (vr_raw tv) a)) (''resource-rollback:'' @ a) actor
      (case load_open_row ?L ?sid a of None \<Rightarrow> [] | Some r \<Rightarrow> [lr_id r]) (case ?row of None \<Rightarrow> [] | Some row \<Rightarrow> [row]) d = Inr d'"
    using 2(7) unfolding a(1) by (cases "load_row_at_serial ?L ?sid a (vr_serial tv)") simp_all
  have v0: "cv \<in> set (db_versions d)" "vr_state_id cv = ?sid" "vr_serial cv = ?m" using cv by blast+
  have "changed_at js sha ?sid a (map_option rr_hash ?row) d d'"
  proof (rule derived_change[OF inv w' sid v0 rows rows' _ _ differs])
    show "rr_address row = a \<and> regular js sha row" if "?row = Some row" for row
      using row_in[OF that] reg by (auto simp: rows_regular_def)
    show "map_option rr_hash ?row = map_option rr_hash (parsed_map trows a)"
      using trows(2) by (simp only: read_t(1) hash_at_def)
    show "st_version (patch_state_resource (vr_raw cv) (located (vr_raw cv) a) (located (vr_raw tv) a)) = 4"
      using 2(4) by (simp add: patch_state_resource_def Let_def)
  qed (use plain in simp_all)
  then have "changed_at js sha ?sid a (hash_at ?sid ?L (vr_serial tv) a) d d'" by (simp only: read_t(1) hash_at_def)
  then show ?thesis using 2(1,3) by blast
qed

lemma replay_resource_step:
  assumes "store_inv js sha d" and "docs_addressed d" and "hash_separates (db_ledger d)" and "trim_space a = a" and "a \<noteq> []"
    and "replay_resource_version p tags name a ref actor id d = Inr (info, preview, d')"
    and "\<And>r v. find_state d (pr_tenant p) name = Some r \<Longrightarrow> resolve_version d tags (pr_tenant p) (sr_id r) ref = Inr v \<Longrightarrow> vr_serial v > 0"
  shows "store_inv js sha d' \<and> (still d d' \<or> committed d d')"
proof -
  have "d' = d \<and> info = None \<or> (\<exists>r v. find_state d (pr_tenant p) name = Some r \<and> resolve_version d tags (pr_tenant p) (sr_id r) ref = Inr v \<and>
      changed_at js sha (sr_id r) a (hash_at (sr_id r) (db_ledger d) (vr_serial v) a) d d')"
    by (rule replay_resource_change[OF assms(1-6)]) (rule assms(7))
  then show ?thesis using assms(1) changed_at_step still_refl by metis
qed

lemmas replay_resource_inv = replay_resource_step[THEN conjunct1]

end
