(* ===== verification/StoreAdvance.thy ===== *)
theory StoreAdvance
  imports ReplayKeep
begin

text \<open>
  Seen from the identifier of a state, the store only moves forward: every operation leaves the rows of the
  state alone, or raises its serial, or deletes the state for ever (identifiers are not used twice). So what
  was read of a state at a serial is right as long as the state exists and has that serial.
\<close>

lemma locks_next [simp]: "db_next (insert_lock tenant sid info src now d) = db_next d" "db_next (delete_locks P d) = db_next d"
  by (simp_all add: insert_lock_def delete_locks_def)

lemma lock_op_still:
  assumes "run_lock_op js op d = Inr d'"
  shows "still d d'"
proof (cases op)
  case (LockOp p name info now)
  then have "acquire_lock p name info now d = Inr d'" using assms by simp
  then show ?thesis
  proof (cases rule: acquire_lockE)
    case (1 sid d1 src)
    then show ?thesis using upsert_still[OF 1(1)] by (simp add: still_def state_names_def)
  qed
next
  case (EngineLockOp p name a h sc cr now)
  then have "acquire_engine_lock js p name a h sc cr now d = Inr d'" using assms by simp
  then show ?thesis
  proof (cases rule: acquire_engine_lockE)
    case (held sid e)
    then show ?thesis using upsert_still by blast
  next
    case (taken sid d1 info)
    then show ?thesis using upsert_still[OF taken(1)] by (simp add: still_def state_names_def)
  qed
qed (use assms in \<open>auto simp: still_def release_lock_def force_release_lock_def release_engine_lock_def
    Let_def state_names_def split: option.splits if_splits\<close>)

lemma update_state_still: "same_keys f \<Longrightarrow> still d (update_state sid f d)"
  by (simp add: still_def state_names_update)

lemma modes_still:
  "set_exclusive_locks p name on d = Inr d' \<Longrightarrow> still d d'"
  "set_coexistence_mode p name m d = Inr d' \<Longrightarrow> still d d'"
  by (auto simp: set_exclusive_locks_def set_coexistence_mode_def Let_def same_keys_def split: if_splits option.splits
      intro!: update_state_still)

section \<open>Forward\<close>

definition advance :: "db \<Rightarrow> db \<Rightarrow> bool" where
  "advance d d' \<longleftrightarrow> db_next d \<le> db_next d' \<and> (\<forall>x \<in> state_names d'. fst x \<in> issued d \<longrightarrow> x \<in> state_names d) \<and>
     (\<forall>sid \<in> state_ids d' \<inter> issued d. (max_serial d sid < max_serial d' sid \<or>
      max_serial d' sid = max_serial d sid \<and> rows_of sid (db_ledger d') = rows_of sid (db_ledger d)))"

lemma issued_mono: "db_next d \<le> db_next d' \<Longrightarrow> issued d \<subseteq> issued d'"
  by (auto simp: issued_def)

lemma advance_refl: "advance d d"
  by (simp add: advance_def)

lemma advance_ids: "advance d d' \<Longrightarrow> sid \<in> state_ids d' \<Longrightarrow> sid \<in> issued d \<Longrightarrow> sid \<in> state_ids d"
  unfolding advance_def state_ids_names by blast

lemma advance_trans:
  assumes "advance d e" and "advance e f"
  shows "advance d f"
proof -
  have i: "issued d \<subseteq> issued e" using assms(1) issued_mono by (simp add: advance_def)
  have "max_serial d sid < max_serial f sid \<or>
      max_serial f sid = max_serial d sid \<and> rows_of sid (db_ledger f) = rows_of sid (db_ledger d)"
    if "sid \<in> state_ids f" "sid \<in> issued d" for sid
  proof -
    have e: "sid \<in> issued e" using that(2) i by blast
    then have "sid \<in> state_ids e" using advance_ids[OF assms(2) that(1)] by blast
    then show ?thesis using assms that e unfolding advance_def by force
  qed
  then show ?thesis using assms i unfolding advance_def by (auto; blast)
qed

lemma still_advance: "still d d' \<Longrightarrow> advance d d'"
  by (auto simp: still_def advance_def max_serial_def state_serials_def)

lemma added_max_serial:
  assumes "version_added d sid v d'"
  shows "max_serial d' i = (if i = sid then vr_serial v else max_serial d i)"
  using max_serial_snoc[of d' sid d] state_serials_added[OF assms] version_addedD(4)[OF assms] by (auto simp: max_serial_def)

lemma added_advance:
  assumes a: "version_added d sid v d'"
    and s: "vr_serial v = next_serial d sid \<or> 0 < vr_serial v \<or> (vr_serial v = 0 \<and> rows_of sid (db_ledger d') = rows_of sid (db_ledger d))"
  shows "advance d d'"
proof -
  have names: "state_names d' = state_names d"
    using state_names_cong[OF version_addedD(6)[OF a]] state_names_update[of "\<lambda>r. r\<lparr>sr_current := Some (vr_id v)\<rparr>" sid d]
    by (simp add: set_current_def same_keys_def)
  have top: "state_serials d sid \<noteq> [] \<Longrightarrow> max_serial d sid < vr_serial v"
    using version_addedD(4)[OF a] max_serial_Max by simp
  have "max_serial d sid < vr_serial v \<or> vr_serial v = max_serial d sid \<and> rows_of sid (db_ledger d') = rows_of sid (db_ledger d)"
  proof (cases "state_serials d sid = []")
    case True
    then show ?thesis using s by (auto simp: max_serial_def next_serial_def)
  qed (use top in blast)
  then show ?thesis
    using ledger_added_rows[OF a] a unfolding advance_def names added_max_serial[OF a] by (auto simp: version_added_def)
qed

lemma committed_advance: "committed d d' \<Longrightarrow> advance d d'"
  unfolding committed_def using advance_trans still_advance added_advance by blast

lemma drop_state_advance: "advance d (drop_state sid d)"
proof -
  have "db_next (drop_state sid d) = db_next d" "state_names (drop_state sid d) \<subseteq> state_names d"
    by (auto simp: drop_state_def state_names_def)
  then show ?thesis by (auto simp: advance_def max_serial_def)
qed

section \<open>Every operation\<close>

text \<open>One operation of a client. The states a client sends have plain instance keys, a write that brings its own
  serial brings one above all others, and the exact-address operations meet documents that name each address
  once and run under the mutation lock (\<open>id\<close>: no other write between their read and their write).\<close>

inductive store_step :: "(json \<Rightarrow> string) \<Rightarrow> (string \<Rightarrow> string) \<Rightarrow> (instance_map \<Rightarrow> instance_map) \<Rightarrow> db \<Rightarrow> db \<Rightarrow> bool"
  for js sha iter where
  Lock: "run_lock_op js op d = Inr d' \<Longrightarrow> store_step js sha iter d d'"
| Write: "plain_resources (st_resources s) \<Longrightarrow>
    write_state js sha iter p name lock_id (Some s) source actor d = Inr d' \<Longrightarrow> store_step js sha iter d d'"
| Apply: "plain_resources (st_resources s) \<Longrightarrow> serial_ahead p name s d \<Longrightarrow>
    write_state_for_apply js sha iter p name a b (Some s) source actor d = Inr d' \<Longrightarrow> store_step js sha iter d d'"
| Delta: "plain_resources (st_resources s) \<Longrightarrow> serial_ahead p name s d \<Longrightarrow>
    write_state_delta_for_apply js sha p name a b (Some s) source actor changed d = Inr d' \<Longrightarrow> store_step js sha iter d d'"
| EngineDelta: "plain_resources (dc_resources delta) \<Longrightarrow>
    write_engine_delta_for_apply js sha p name a b delta source actor d = Inr d' \<Longrightarrow> store_step js sha iter d d'"
| Ensure: "ensure_current_state_info js sha p name d = Inr (info, d') \<Longrightarrow> store_step js sha iter d d'"
| Delete: "delete_state p name lock_id actor d = Inr d' \<Longrightarrow> store_step js sha iter d d'"
| Exclusive: "set_exclusive_locks p name on d = Inr d' \<Longrightarrow> store_step js sha iter d d'"
| Coexistence: "set_coexistence_mode p name m d = Inr d' \<Longrightarrow> store_step js sha iter d d'"
| Rollback: "replay_version js sha p tags name ref actor d = Inr (vi, d') \<Longrightarrow> store_step js sha iter d d'"
| Remove: "docs_addressed d \<Longrightarrow> apply_remove p name a actor id d = Inr (vo, preview, d') \<Longrightarrow> store_step js sha iter d d'"
| ResourceRollback: "docs_addressed d \<Longrightarrow> hash_separates (db_ledger d) \<Longrightarrow> trim_space a = a \<Longrightarrow> a \<noteq> [] \<Longrightarrow>
    (\<And>r v. find_state d (pr_tenant p) name = Some r \<Longrightarrow> resolve_version d tags (pr_tenant p) (sr_id r) ref = Inr v \<Longrightarrow> vr_serial v > 0) \<Longrightarrow>
    replay_resource_version p tags name a ref actor id d = Inr (vo, rp, d') \<Longrightarrow> store_step js sha iter d d'"

lemma store_step_forward:
  assumes inv: "store_inv js sha d" and v: "visits iter" and "store_step js sha iter d d'"
  shows "store_inv js sha d' \<and> advance d d'"
proof -
  have "store_inv js sha d' \<and> (still d d' \<or> committed d d' \<or> (\<exists>i e. still d e \<and> d' = drop_state i e))"
    using assms(3)
  proof (cases rule: store_step.cases)
    case (Lock op)
    then show ?thesis using quiet_inv[OF inv quiet_lock_op] lock_op_still inv by (metis store_inv_def store_ok_def)
  next
    case (Write s p name lock_id source actor)
    show ?thesis using write_state_internal_step[OF inv Write(2)[unfolded write_state_def] v] Write(1) by blast
  next
    case (Apply s p name a b source actor)
    show ?thesis using write_state_internal_step[OF inv Apply(3)[unfolded write_state_for_apply_def] v] Apply(1,2) by blast
  next
    case (Delta s p name a b source actor changed)
    then show ?thesis using write_state_delta_step[OF inv Delta(3)] by blast
  next
    case (EngineDelta delta p name a b source actor)
    then show ?thesis using write_engine_delta_step[OF inv EngineDelta(2,1)] by blast
  next
    case (Ensure p name info)
    then show ?thesis using ensure_current_step[OF inv] by blast
  next
    case (Delete p name lock_id actor)
    then show ?thesis using delete_state_step[OF inv] by blast
  next
    case (Exclusive p name on)
    then show ?thesis using modes_inv(1)[OF inv] modes_still(1) by blast
  next
    case (Coexistence p name m)
    then show ?thesis using modes_inv(2)[OF inv] modes_still(2) by blast
  next
    case (Rollback p tags name ref actor vi)
    then show ?thesis using replay_version_step[OF inv] by blast
  next
    case (Remove p name a actor vo preview)
    then show ?thesis using apply_remove_step[OF inv] by blast
  next
    case (ResourceRollback a p name tags ref actor vo rp)
    have "store_inv js sha d' \<and> (still d d' \<or> committed d d')"
      by (rule replay_resource_step[OF inv ResourceRollback(1-4,6)]) (rule ResourceRollback(5))
    then show ?thesis by blast
  qed
  then show ?thesis using still_advance committed_advance advance_trans drop_state_advance by blast
qed

abbreviation store_steps :: "(json \<Rightarrow> string) \<Rightarrow> (string \<Rightarrow> string) \<Rightarrow> (instance_map \<Rightarrow> instance_map) \<Rightarrow> db \<Rightarrow> db \<Rightarrow> bool" where
  "store_steps js sha iter \<equiv> (store_step js sha iter)\<^sup>*\<^sup>*"

lemma store_steps_forward:
  assumes "store_steps js sha iter d d'" and "store_inv js sha d" and "visits iter"
  shows "store_inv js sha d' \<and> advance d d'"
  using assms
proof (induction rule: rtranclp_induct)
  case (step d1 d2)
  then show ?case using store_step_forward advance_trans by meson
qed (simp add: advance_refl)

end
