(* ===== verification/StoreHistory.thy ===== *)
theory StoreHistory
  imports StoreAdvance
begin

text \<open>
  The store as a state machine: the reachable databases, and what holds in all of them.
\<close>

section \<open>Reachable databases\<close>

inductive reachable :: "(json \<Rightarrow> string) \<Rightarrow> (string \<Rightarrow> string) \<Rightarrow> (instance_map \<Rightarrow> instance_map) \<Rightarrow> db \<Rightarrow> bool"
  for js sha iter where
  Init: "reachable js sha iter (empty_db\<lparr>db_tenants := ts\<rparr>)"
| Step: "reachable js sha iter d \<Longrightarrow> store_step js sha iter d d' \<Longrightarrow> reachable js sha iter d'"

lemma empty_inv: "store_inv js sha (empty_db\<lparr>db_tenants := ts\<rparr>)"
proof -
  have "db_ok (empty_db\<lparr>db_tenants := ts\<rparr>)"
    unfolding db_ok_defs by (simp add: empty_db_def state_ids_def)
  moreover have "ledger_tracks (empty_db\<lparr>db_tenants := ts\<rparr>) sid" for sid
    by (simp add: ledger_tracks_def ledger_ok_def empty_db_def rows_of_def no_overlap_def)
  ultimately show ?thesis
    by (simp add: store_inv_def store_ok_def faithful_def docs_plain_def rows_regular_def empty_db_def)
qed

lemma reachable_inv: "reachable js sha iter d \<Longrightarrow> visits iter \<Longrightarrow> store_inv js sha d"
  by (induction rule: reachable.induct) (simp add: empty_inv, blast dest: store_step_forward)



section \<open>A run of the store\<close>

text \<open>Two Terraform clients in optimistic mode: both lock at serial 1, bob changes \<open>b\<close>, then ann changes \<open>a\<close>
  (which is merged), and then ann writes a second checkpoint under the same lock.\<close>

definition run_principal :: principal where
  "run_principal = ex_principal\<lparr>pr_lock_default := ''kilolock''\<rparr>"

definition run_resource :: "string \<Rightarrow> int \<Rightarrow> tf_resource" where
  "run_resource n v = \<lparr>r_mode = ''managed'', r_type = ''t'', r_name = n, r_provider = ''p'', r_module = [],
     r_instances = [zero_instance\<lparr>i_attributes := Some (JNum v)\<rparr>]\<rparr>"

definition run_doc :: "int \<Rightarrow> int \<Rightarrow> tf_state" where
  "run_doc a b = (empty_state ''l'')\<lparr>st_resources := [run_resource ''a'' a, run_resource ''b'' b]\<rparr>"

definition run_write :: "string \<Rightarrow> tf_state \<Rightarrow> db \<Rightarrow> (store_error, db) result" where
  "run_write lock_id s d = write_state (\<lambda>j. case j of JNum n \<Rightarrow> show_int n | _ \<Rightarrow> []) id id run_principal ''s'' lock_id (Some s) ''http'' lock_id d"

definition run_lock :: "string \<Rightarrow> nat \<Rightarrow> db \<Rightarrow> (store_error, db) result" where
  "run_lock who now d = run_lock_op (\<lambda>j. case j of JNum n \<Rightarrow> show_int n | _ \<Rightarrow> []) (LockOp run_principal ''s'' (ex_lock who) now) d"

definition run_two_locks :: "(store_error, db) result" where
  "run_two_locks = bind_result (run_write [] (run_doc 1 1) empty_db) (\<lambda>d.
     bind_result (run_lock ''ann'' 1 d) (run_lock ''bob'' 2))"

definition run_merged :: "(store_error, db) result" where
  "run_merged = bind_result run_two_locks (\<lambda>d. bind_result (run_write ''bob'' (run_doc 1 2) d) (run_write ''ann'' (run_doc 2 1)))"

definition run_second :: "(store_error, db) result" where
  "run_second = bind_result run_merged (run_write ''ann'' (run_doc 3 1))"

definition run_values :: "(store_error, db) result \<Rightarrow> (int \<times> raw list) list" where
  "run_values r = (case r of Inl e \<Rightarrow> [] | Inr d \<Rightarrow> map (\<lambda>v. (vr_serial v,
     map (\<lambda>p. i_attributes (snd p)) (state_instances (vr_raw v)))) (db_versions d))"

lemma run_values_merged: "run_values run_merged =
    [(1, [Some (JNum 1), Some (JNum 1)]), (2, [Some (JNum 1), Some (JNum 2)]), (3, [Some (JNum 2), Some (JNum 2)])]"
  by code_simp

text \<open>The merged write kept bob's change; the second checkpoint of ann reverts it without a conflict.\<close>

lemma second_checkpoint_reverts: "run_values run_second =
    [(1, [Some (JNum 1), Some (JNum 1)]), (2, [Some (JNum 1), Some (JNum 2)]), (3, [Some (JNum 2), Some (JNum 2)]),
     (4, [Some (JNum 3), Some (JNum 1)])]"
  by code_simp

text \<open>Locks that were taken before the first version have the baseline 0, which a write reads as no baseline.\<close>

definition run_first_version :: "(store_error, db) result" where
  "run_first_version = bind_result (bind_result (run_lock ''ann'' 1 empty_db) (run_lock ''bob'' 2)) (\<lambda>d.
     bind_result (run_write ''bob'' ((empty_state ''l'')\<lparr>st_resources := [run_resource ''b'' 2]\<rparr>) d)
       (run_write ''ann'' ((empty_state ''l'')\<lparr>st_resources := [run_resource ''a'' 1]\<rparr>)))"

lemma first_version_overwritten: "run_values run_first_version = [(1, [Some (JNum 2)]), (2, [Some (JNum 1)])]"
  by code_simp

text \<open>The quota is checked on the proposal, before the merge: a limit of 2 resources (hard limit 3), two
  clients that each add one resource to two, and a merged state of 4.\<close>

definition run_quota :: "(store_error, db) result" where
  "run_quota = bind_result (run_write [] (run_doc 1 1)
       (empty_db\<lparr>db_tenants := [''t'' \<mapsto> \<lparr>tn_status = ''active'', tn_max_state_resources = 2, tn_max_environment_resources = 0\<rparr>]\<rparr>)) (\<lambda>d.
     bind_result (bind_result (run_lock ''ann'' 1 d) (run_lock ''bob'' 2)) (\<lambda>d.
     bind_result (run_write ''bob'' ((run_doc 1 1)\<lparr>st_resources := st_resources (run_doc 1 1) @ [run_resource ''c'' 1]\<rparr>) d)
       (run_write ''ann'' ((run_doc 1 1)\<lparr>st_resources := st_resources (run_doc 1 1) @ [run_resource ''d'' 1]\<rparr>))))"

lemma merged_state_exceeds_quota:
  "map (\<lambda>(s, vs). (s, length vs)) (run_values run_quota) = [(1, 2), (2, 3), (3, 4)] \<and> hard_quota_from_soft 2 = 3"
  by code_simp

lemma run_write_reachable:
  "reachable (\<lambda>j. case j of JNum n \<Rightarrow> show_int n | _ \<Rightarrow> []) id id d \<Longrightarrow> plain_resources (st_resources s) \<Longrightarrow>
   run_write i s d = Inr d' \<Longrightarrow> reachable (\<lambda>j. case j of JNum n \<Rightarrow> show_int n | _ \<Rightarrow> []) id id d'"
  unfolding run_write_def by (rule reachable.Step[OF _ store_step.Write])

lemma run_lock_reachable:
  "reachable (\<lambda>j. case j of JNum n \<Rightarrow> show_int n | _ \<Rightarrow> []) id id d \<Longrightarrow> run_lock i n d = Inr d' \<Longrightarrow>
   reachable (\<lambda>j. case j of JNum n \<Rightarrow> show_int n | _ \<Rightarrow> []) id id d'"
  unfolding run_lock_def by (rule reachable.Step[OF _ store_step.Lock])

lemma run_doc_plain: "plain_resources (st_resources (run_doc a b))"
  by (simp add: run_doc_def plain_resources_def run_resource_def index_plain_def zero_instance_def)

lemma empty_db_reachable: "reachable js sha iter empty_db"
  using reachable.Init[of js sha iter "db_tenants empty_db"] by (simp add: empty_db_def)

definition run_final :: db where
  "run_final = projr run_merged"

lemma run_merged_Inr: "run_merged = Inr run_final"
proof -
  have "\<not> isl run_merged" by code_simp
  then show ?thesis unfolding run_final_def by (cases run_merged) auto
qed

lemma run_final_reachable: "reachable (\<lambda>j. case j of JNum n \<Rightarrow> show_int n | _ \<Rightarrow> []) id id run_final"
proof -
  obtain d0 d1 d2 d3 where d: "run_write [] (run_doc 1 1) empty_db = Inr d0" "run_lock ''ann'' 1 d0 = Inr d1"
    "run_lock ''bob'' 2 d1 = Inr d2" "run_write ''bob'' (run_doc 1 2) d2 = Inr d3" "run_write ''ann'' (run_doc 2 1) d3 = Inr run_final"
    using run_merged_Inr unfolding run_merged_def run_two_locks_def by (auto simp only: bind_result_eq_Inr)
  note r0 = run_write_reachable[OF empty_db_reachable run_doc_plain d(1)]
  note r2 = run_lock_reachable[OF run_lock_reachable[OF r0 d(2)] d(3)]
  show ?thesis using run_write_reachable[OF run_write_reachable[OF r2 run_doc_plain d(4)] run_doc_plain d(5)] .
qed

lemma run_final_versions: "map vr_serial (db_versions run_final) = [1, 2, 3]"
  "map sr_current (db_states run_final) = [Some ''3'']" "map vr_state_id (db_versions run_final) = [''0'', ''0'', ''0'']"
  "map sr_id (db_states run_final) = [''0'']"
  unfolding run_final_def by code_simp+



end
