(* ===== verification/StoreWrites.thy ===== *)
theory StoreWrites
  imports StoreHistory
begin

text \<open>
  What one write of \<^verbatim>\<open>pkg/store/state.go\<close> does: the serial it takes, the locks it needs, the concurrent
  changes it keeps, the quota it respects, and the effect of a state-engine delta on rows and outputs.
\<close>

section \<open>Reading back\<close>

lemma read_current_added:
  assumes "db_ok d" and "db_versions d' = db_versions d @ [v]" and "vr_id v = fresh_id d"
    and "db_states d' = db_states (set_current sid (vr_id v) d)" and "sid \<in> state_ids d"
  shows "read_current_version_raw d' sid = Some (vr_serial v, vr_raw v)"
proof -
  obtain r where r: "state_by_id d sid = Some r" using assms(5) state_by_id_None[of d sid] by auto
  have "state_by_id d' sid = state_by_id (set_current sid (vr_id v) d) sid" by (simp add: state_by_id_def assms(4))
  then have s: "state_by_id d' sid = Some (r\<lparr>sr_current := Some (vr_id v)\<rparr>)"
    using r by (simp add: set_current_def state_by_id_update)
  have "version_by_id d (vr_id v) = None"
    using fresh_version[OF assms(1)] unfolding version_by_id_def find_None_iff assms(3) by (metis imageI)
  then have "version_by_id d' (vr_id v) = Some v"
    by (simp add: version_by_id_def assms(2) find_snoc)
  then show ?thesis using s by (simp add: read_current_version_raw_def current_version_def)
qed

text \<open>An upsert of a state that is there keeps its id and everything that is read of it.\<close>

lemma upsert_known:
  assumes "db_ok d" and "find_state d (pr_tenant p) name = Some r" and "upsert_state p name l c d = Inr (sid, d1)"
  shows "sid = sr_id r" "sid \<in> state_ids d"
    "exclusive_flag d1 sid = sr_exclusive r" "read_current_version_raw d1 sid = read_current_version_raw d sid"
    "state_serials d1 sid = state_serials d sid"
    "read_version_raw_at_serial d1 sid s = read_version_raw_at_serial d sid s"
    "read_lock_source_serial d1 sid i = read_lock_source_serial d sid i" "locks_of d1 sid = locks_of d sid"
proof -
  have rm: "r \<in> set (db_states d)" "sr_tenant r = pr_tenant p" "sr_name r = name"
    using find_state_SomeD[OF assms(2)] by simp_all
  show sid: "sid = sr_id r" using assms(3)
  proof (cases rule: upsert_state_cases)
    case (old r')
    then have "r' = r" using rm assms(1) by (auto simp: db_ok_def states_ok_def distinct_map inj_on_def)
    then show ?thesis using old by simp
  next
    case (new r')
    have "(\<lambda>r. (sr_tenant r, sr_name r)) r \<in> (\<lambda>r. (sr_tenant r, sr_name r)) ` set (db_states d)"
      using rm(1) by (rule imageI)
    then show ?thesis using rm(2,3) new(7) by simp
  qed
  show mem: "sid \<in> state_ids d" using rm(1) sid by (auto simp: state_ids_def)
  have "state_by_id d sid = Some r" using state_by_id_mem[of d r] rm(1) assms(1) sid by (simp add: db_ok_def)
  then show "exclusive_flag d1 sid = sr_exclusive r"
    using upsert_exclusive_flag[OF assms(1,3) mem] by (simp add: exclusive_flag_def)
  show "read_current_version_raw d1 sid = read_current_version_raw d sid" by (rule read_current_frame[OF assms(1,3) mem])
  show "state_serials d1 sid = state_serials d sid" "read_version_raw_at_serial d1 sid s = read_version_raw_at_serial d sid s"
    "read_lock_source_serial d1 sid i = read_lock_source_serial d sid i" "locks_of d1 sid = locks_of d sid"
    using upsert_state_frame[OF assms(3)]
    by (simp_all add: state_serials_def read_version_raw_at_serial_def read_lock_source_serial_def find_lock_def locks_of_def)
qed

lemma write_stateE:
  assumes "db_ok d" and "find_state d (pr_tenant p) name = Some r"
    and "write_state_internal js sha iter p name lock_id (Some parsed) source actor bypass d = Inr d'"
  obtains d1 stored v where "upsert_state p name (st_lineage parsed) (creator_of source) d = Inr (sr_id r, d1)"
    "db_ok d1" "route_write iter d1 (sr_id r) lock_id bypass parsed = Inr stored"
    "enforce_state_limits p d1 (sr_id r) name parsed = Inr ()"
    "vr_serial v = assign_serial d1 (sr_id r) bypass stored" "vr_raw v = stored\<lparr>st_serial := vr_serial v\<rparr>"
    "full_write js sha d1 (sr_id r) v d'"
proof -
  from assms(3) obtain parsed' sid d1 stored v where e: "parse_state (Some parsed) = Inr parsed'"
    "upsert_state p name (st_lineage parsed') (creator_of source) d = Inr (sid, d1)"
    "enforce_state_limits p d1 sid name parsed' = Inr ()"
    "route_write iter d1 sid lock_id bypass parsed' = Inr stored"
    "vr_serial v = assign_serial d1 sid bypass stored" "vr_raw v = stored\<lparr>st_serial := vr_serial v\<rparr>"
    "full_write js sha d1 sid v d'" by (rule write_state_internalE)
  have "parsed' = parsed" using parse_state_version[OF e(1)] by simp
  moreover have "sid = sr_id r" using upsert_known(1)[OF assms(1,2) e(2)] .
  moreover have "db_ok d1" using upsert_state_ok[OF assms(1) e(2)] by blast
  ultimately show thesis using that e by blast
qed

section \<open>The serial of a write\<close>

text \<open>C33: Serial assignment of a client's write. A successful WriteState of an existing state appends one
  version, at the highest serial plus one whatever serial the document carried, writes that serial into the
  document, makes the version the current one, and leaves every earlier version as it was.\<close>

theorem write_state_next_serial:
  assumes "db_ok d" and "find_state d (pr_tenant p) name = Some r"
    and "write_state js sha iter p name lock_id (Some s) source actor d = Inr d'"
  shows "\<exists>v. db_versions d' = db_versions d @ [v] \<and> vr_state_id v = sr_id r \<and>
     vr_serial v = next_serial d (sr_id r) \<and> st_serial (vr_raw v) = vr_serial v \<and>
     (\<forall>w \<in> set (db_versions d). vr_state_id w = sr_id r \<longrightarrow> vr_serial w < vr_serial v) \<and>
     read_current_version_raw d' (sr_id r) = Some (vr_serial v, vr_raw v)"
  using assms(1,2) assms(3)[unfolded write_state_def]
proof (cases rule: write_stateE)
  case (1 d1 stored v)
  note k = upsert_known[OF assms(1,2) 1(1)]
  have ser: "vr_serial v = next_serial d (sr_id r)"
    using 1(5) k(5) by (simp add: assign_serial_def next_serial_def max_serial_def)
  have lt: "vr_serial w < vr_serial v" if "w \<in> set (db_versions d)" "vr_state_id w = sr_id r" for w
    using that next_serial_fresh[of "vr_serial w" d "sr_id r"] ser by (auto simp: state_serials_def)
  have vs: "db_versions d1 = db_versions d" by (rule upsert_state_frame(1)[OF 1(1)])
  have fw: "db_versions d' = db_versions d1 @ [v]" "vr_id v = fresh_id d1" "vr_state_id v = sr_id r"
    "st_serial (vr_raw v) = vr_serial v" "db_states d' = db_states (set_current (sr_id r) (vr_id v) d1)"
    using 1(7) by (simp_all add: full_write_def)
  have "sr_id r \<in> state_ids d1" using k(2) upsert_state_frame(6)[OF 1(1)] by blast
  then have "read_current_version_raw d' (sr_id r) = Some (vr_serial v, vr_raw v)"
    using read_current_added[OF 1(2) fw(1,2,5)] by blast
  then show ?thesis using fw vs ser lt by auto
qed

text \<open>So no client's write reports a serial conflict.\<close>

lemma insert_next_version: "\<exists>vd. insert_version p sid (next_serial d sid) t s src a d = Inr vd"
  using next_serial_fresh[of "next_serial d sid" d sid] by (auto simp: insert_version_def)

lemma write_steps_no_serial_conflict:
  "parse_state raw \<noteq> Inl SerialConflict" "enforce_tenant_active d t \<noteq> Inl SerialConflict"
  "upsert_state p name l c d \<noteq> Inl SerialConflict" "enforce_state_limits p d sid name st \<noteq> Inl SerialConflict"
  "route_write iter d sid lock_id bypass st \<noteq> Inl SerialConflict"
  "normalize_state js sha t sid vid serial st d \<noteq> Inl SerialConflict"
  subgoal by (simp add: parse_state_def split: option.split)
  subgoal by (simp add: enforce_tenant_active_def split: option.split)
  subgoal by (auto simp: upsert_state_def check_upsert_def parse_lifecycle_status_def bind_result_eq_Inl Let_def
        split: option.splits if_splits prod.splits)
  subgoal by (auto simp: enforce_state_limits_def Let_def split: option.splits if_splits)
  subgoal by (auto simp: route_write_def optimistic_merge_def check_lock_for_write_def check_any_lock_blocks_def
        parse_state_def lift_error_def bind_result_eq_Inl Let_def split: option.splits if_splits sum.splits)
  subgoal by (auto simp: normalize_state_def lift_error_def bind_result_eq_Inl split: sum.splits)
  done

lemma bind_result_noerr:
  "r \<noteq> Inl e \<Longrightarrow> (\<And>a. r = Inr a \<Longrightarrow> f a \<noteq> Inl e) \<Longrightarrow> bind_result r f \<noteq> Inl e"
  by (cases r) auto

lemma write_state_no_serial_conflict:
  "write_state js sha iter p name lock_id raw source actor d \<noteq> Inl SerialConflict"
proof -
  have "insert_version p sid (assign_serial d sid False st) t s src a d \<noteq> Inl SerialConflict" for p sid st t s src a d
    using insert_next_version[of p sid d t s src a] by (auto simp: assign_serial_def)
  then show ?thesis
    unfolding write_state_def write_state_internal_def Let_def case_prod_beta
    by (intro bind_result_noerr write_steps_no_serial_conflict) simp_all
qed

section \<open>Locks guard writes\<close>

lemma probe_lock_mem: "case probe_lock d sid of None \<Rightarrow> locks_of d sid = [] | Some i \<Rightarrow> \<exists>l \<in> set (locks_of d sid). lk_info l = i"
  by (auto simp: probe_lock_def split: list.split)

lemma find_lock_mem: "find_lock d sid lock_id = Some l \<Longrightarrow> l \<in> set (locks_of d sid) \<and> li_id (lk_info l) = lock_id"
  by (auto simp: find_lock_def locks_of_def find_Some_iff)

text \<open>C32: No write without the lock. When a WriteState of an existing state succeeds then either the state
  has no lock and the caller gave none, or the caller named a lock that is held on the state; this in
  exclusive and in optimistic mode alike.\<close>

theorem write_state_needs_lock:
  assumes "db_ok d" and "find_state d (pr_tenant p) name = Some r"
    and "write_state js sha iter p name lock_id (Some s) source actor d = Inr d'"
  shows "(locks_of d (sr_id r) = [] \<and> lock_id = []) \<or> (\<exists>l \<in> set (locks_of d (sr_id r)). li_id (lk_info l) = lock_id)"
  using assms(1,2) assms(3)[unfolded write_state_def]
proof (cases rule: write_stateE)
  case (1 d1 stored v)
  have "(locks_of d1 (sr_id r) = [] \<and> lock_id = []) \<or> (\<exists>l \<in> set (locks_of d1 (sr_id r)). li_id (lk_info l) = lock_id)"
    using 1(3) probe_lock_mem[of d1 "sr_id r"] find_lock_mem[of d1 "sr_id r" lock_id]
    by (auto simp: route_write_def optimistic_merge_def check_lock_for_write_def check_any_lock_blocks_def
        read_lock_source_serial_def Let_def split: if_splits option.splits)
  then show ?thesis using upsert_known(8)[OF assms(1,2) 1(1)] by simp
qed

section \<open>Concurrent changes are kept\<close>


section \<open>The run, seen before its merged write\<close>

definition run_before :: db where
  "run_before = projr (bind_result run_two_locks (run_write ''bob'' (run_doc 1 2)))"

lemma run_before_Inr: "bind_result run_two_locks (run_write ''bob'' (run_doc 1 2)) = Inr run_before"
  unfolding run_before_def by (rule not_isl_Inr) code_simp

lemma run_last_write: "run_write ''ann'' (run_doc 2 1) run_before = Inr run_final"
proof -
  obtain d1 where "run_two_locks = Inr d1" "run_write ''bob'' (run_doc 1 2) d1 = Inr run_before"
    using run_before_Inr unfolding bind_result_eq_Inr by blast
  then show ?thesis using run_merged_Inr unfolding run_merged_def bind_result_eq_Inr by (metis sum.inject(2))
qed

lemma run_before_reachable: "reachable (\<lambda>j. case j of JNum n \<Rightarrow> show_int n | _ \<Rightarrow> []) id id run_before"
proof -
  obtain d0 d1 d2 where d: "run_write [] (run_doc 1 1) empty_db = Inr d0" "run_lock ''ann'' 1 d0 = Inr d1"
    "run_lock ''bob'' 2 d1 = Inr d2" "run_write ''bob'' (run_doc 1 2) d2 = Inr run_before"
    using run_before_Inr unfolding run_two_locks_def by (auto simp only: bind_result_eq_Inr)
  note r0 = run_write_reachable[OF empty_db_reachable run_doc_plain d(1)]
  show ?thesis using run_write_reachable[OF run_lock_reachable[OF run_lock_reachable[OF r0 d(2)] d(3)] run_doc_plain d(4)] .
qed

lemma run_before_ok: "db_ok run_before" "db_ok run_final"
  using reachable_inv[OF run_before_reachable] reachable_inv[OF run_final_reachable]
  by (simp_all add: visits_def store_inv_def store_ok_def)

lemma run_before_state: "map_option (\<lambda>r. (sr_id r, sr_exclusive r)) (find_state run_before ''t'' ''s'') = Some (''0'', False)"
  "next_serial run_before ''0'' = 3" "locks_of run_before ''0'' \<noteq> []"
  "map_option fst (read_current_version_raw run_before ''0'') = Some 2"
  "map_option fst (read_version_raw_at_serial run_before ''0'' 1) = Some ''1''"
  "read_lock_source_serial run_before ''0'' ''ann'' = Some 1"
  unfolding run_before_def by code_simp+

lemma run_tenant: "pr_tenant run_principal = ''t''"
  by (simp add: run_principal_def ex_principal_def)

theorem write_state_next_serial_witness:
  "\<exists>v. db_versions run_final = db_versions run_before @ [v] \<and> vr_serial v = 3"
proof -
  obtain r where r: "find_state run_before (pr_tenant run_principal) ''s'' = Some r" "sr_id r = ''0''"
    using run_before_state(1) by (auto simp: run_tenant)
  show ?thesis
    using write_state_next_serial[OF run_before_ok(1) r(1) run_last_write[unfolded run_write_def]] r(2) run_before_state(2)
    by auto
qed

theorem write_state_needs_lock_witness: "\<exists>l \<in> set (locks_of run_before ''0''). li_id (lk_info l) = ''ann''"
proof -
  obtain r where r: "find_state run_before (pr_tenant run_principal) ''s'' = Some r" "sr_id r = ''0''"
    using run_before_state(1) by (auto simp: run_tenant)
  show ?thesis
    using write_state_needs_lock[OF run_before_ok(1) r(1) run_last_write[unfolded run_write_def]] r(2) by auto
qed

definition run_key :: instance_key where
  "run_key = key_of (run_resource ''b'' 1, zero_instance)"

lemma run_changed:
  "instance_changed (snd (the (read_version_raw_at_serial run_before ''0'' 1))) (snd (the (read_current_version_raw run_before ''0''))) run_key"
  "map_option i_attributes (instance_at (snd (the (read_current_version_raw run_before ''0''))) run_key) = Some (Some (JNum 2))"
  unfolding run_before_def run_key_def by code_simp+


end
