(* ===== verification/StoreDelta.thy ===== *)
theory StoreDelta
  imports StoreWrites
begin

text \<open>
  What the delta writes and the deletion of \<^verbatim>\<open>pkg/store/state.go\<close> do to the documents: a state-engine delta
  overrides the selected addresses and outputs of the trunk, no write goes over the quota it checks, and a
  deletion removes one state and leaves all others.
\<close>

section \<open>The document behind a version\<close>

text \<open>The abstract content of a document: its content hash at each resource address.\<close>

definition doc_hash :: "(json \<Rightarrow> string) \<Rightarrow> (string \<Rightarrow> string) \<Rightarrow> tf_state \<Rightarrow> (string \<rightharpoonup> string)" where
  "doc_hash js sha s = (case build_resource_rows js sha s of Inl e \<Rightarrow> Map.empty
     | Inr rows \<Rightarrow> (\<lambda>a. map_option rr_hash (parsed_map rows a)))"

lemma doc_hash_rows: "build_resource_rows js sha s = Inr rows \<Longrightarrow> doc_hash js sha s a = map_option rr_hash (parsed_map rows a)"
  by (simp add: doc_hash_def)

lemma doc_hash_resources: "st_resources s = st_resources t \<Longrightarrow> doc_hash js sha s = doc_hash js sha t"
  by (simp add: doc_hash_def build_resource_rows_def)

lemma faithful_doc_hash:
  assumes "store_inv js sha d" and "v \<in> set (db_versions d)"
  shows "doc_hash js sha (vr_raw v) a = hash_at (vr_state_id v) (db_ledger d) (vr_serial v) a"
  using assms by (auto simp: store_inv_def faithful_def shows_version_def doc_hash_rows)

text \<open>The current version is stored, belongs to its state and has the highest serial.\<close>

lemma read_currentD:
  assumes "store_inv js sha d" and "r \<in> set (db_states d)" and "read_current_version_raw d (sr_id r) = Some (t, trunk)"
  obtains v where "v \<in> set (db_versions d)" "vr_serial v = t" "vr_raw v = trunk" "vr_state_id v = sr_id r"
    "t = max_serial d (sr_id r)"
proof -
  have ok: "db_ok d" and cl: "current_latest d r" using assms(1,2) by (simp_all add: store_inv_def store_ok_def)
  have "state_by_id d (sr_id r) = Some r" using state_by_id_mem[of d r] assms(2) ok by (simp add: db_ok_def)
  then obtain v where v: "current_version d r = Some v" "vr_serial v = t" "vr_raw v = trunk"
    using assms(3) by (auto simp: read_current_version_raw_def split: option.splits)
  then obtain c where c: "sr_current r = Some c" "version_by_id d c = Some v"
    by (auto simp: current_version_def split: option.splits)
  then have m: "v \<in> set (db_versions d)" "vr_id v = c" by (auto simp: version_by_id_def find_Some_iff)
  from cl c(1) obtain w where w: "w \<in> set (db_versions d)" "vr_id w = c" "vr_state_id w = sr_id r"
    "vr_serial w = max_serial d (sr_id r)" by (auto simp: current_latest_def split: if_splits)
  have "w = v" using m w(1,2) ok by (auto simp: db_ok_def versions_ok_def distinct_map inj_on_def)
  then show thesis using that m(1) v w by simp
qed

section \<open>Rows of a delta\<close>

lemma selected_hash:
  assumes ok: "ledger_ok sid s0 L0" and lt: "s0 < serial"
    and w: "apply_resource_delta_selected sid serial rows sel L0 = Inr L"
  shows "hash_at sid L serial a = (if a \<in> trimmed sel then map_option rr_hash (parsed_map rows a) else hash_at sid L0 s0 a)"
proof (cases "dedupe_sorted sel = []")
  case True
  then have "L = L0" "trimmed sel = {}"
    using w set_dedupe_sorted[of sel] by (simp_all add: apply_resource_delta_selected_def)
  moreover have "content_at sid L0 serial a = content_at sid L0 s0 a"
    by (rule map_option_ext) (use open_content[OF ok] lt in simp)
  ultimately show ?thesis by (simp add: hash_at_def)
next
  case False
  obtain ids news where c: "commit_step sid s0 serial L0 L (\<lambda>a. a \<in> trimmed sel) (parsed_map rows) ids news"
    using selected_commit_step[OF ok lt w False] .
  show ?thesis
    using commit_hash_in_scope[OF c, of a] commit_content_out_of_scope[OF c, of a] by (simp add: hash_at_def)
qed

lemma trimmed_dedupe [simp]: "trimmed (dedupe_sorted ss) = trimmed ss"
proof -
  have "trim_space s = s" if "s \<in> trimmed ss" for s using that by (auto simp: trimmed_def)
  then have "trim_space ` trimmed ss = trimmed ss" by simp
  then show ?thesis unfolding trimmed_def[of "dedupe_sorted ss"] set_dedupe_sorted by (simp add: trimmed_def)
qed

text \<open>A delta commit overrides the content of the current version on the selected addresses.\<close>

lemma commit_delta_overrides:
  assumes inv: "store_inv js sha d" and w: "commit_delta js sha p name sid serial parsed changed source actor d = Inr d'"
    and r: "r \<in> set (db_states d)" "sr_id r = sid" and cur: "read_current_version_raw d sid = Some (t, trunk)"
    and top: "t < serial" and ver: "st_version parsed = 4" and plain: "plain_resources (st_resources parsed)"
  shows "\<exists>stored. read_current_version_raw d' sid = Some (serial, stored) \<and> st_outputs stored = st_outputs parsed \<and>
     doc_hash js sha stored = override_on (doc_hash js sha trunk) (doc_hash js sha parsed) (trimmed changed)"
proof -
  obtain u where u: "u \<in> set (db_versions d)" "vr_serial u = t" "vr_raw u = trunk" "vr_state_id u = sid" "t = max_serial d sid"
    using read_currentD[OF inv r(1)] cur r(2) by metis
  have ss: "\<forall>x \<in> set (state_serials d sid). x < serial"
    using max_serial_Max[of d sid] u(5) top by (metis List.finite_set Max_ge empty_iff empty_set le_less_trans)
  have sid: "sid \<in> state_ids d" using r by (auto simp: state_ids_def)
  have ok: "db_ok d" "ledger_ok sid t (db_ledger d)"
    using inv u(5) by (simp_all add: store_inv_def store_ok_def ledger_tracks_def)
  have inv': "store_inv js sha d'" by (rule commit_delta_step[OF inv w sid ss ver plain, THEN conjunct1])
  show ?thesis using w
  proof (cases rule: commit_deltaE)
    case (1 rows L resources v)
    have "read_current_version_raw d' sid = Some (serial, vr_raw v)"
      using read_current_added[OF ok(1) 1(11,5,13) sid] 1(7) by simp
    moreover have "st_outputs (vr_raw v) = st_outputs parsed" using 1(8) by simp
    moreover have "doc_hash js sha (vr_raw v) a = override_on (doc_hash js sha trunk) (doc_hash js sha parsed) (trimmed changed) a" for a
    proof -
      have "doc_hash js sha (vr_raw v) a = hash_at sid L serial a"
        using faithful_doc_hash[OF inv', of v a] 1(6,7,10,11) by simp
      moreover have "doc_hash js sha trunk a = hash_at sid (db_ledger d) t a"
        using faithful_doc_hash[OF inv u(1), of a] u(2-4) by simp
      ultimately show ?thesis
        using selected_hash[OF ok(2) top 1(2), of a] doc_hash_rows[OF 1(1), of a] by (simp add: override_on_def)
    qed
    ultimately show ?thesis by blast
  qed
qed

lemma write_engine_deltaE:
  assumes "write_engine_delta_for_apply js sha p name a b delta source actor d0 = Inr d'"
  obtains sid d current where "upsert_state p name (trim_space (dc_lineage delta)) (creator_of source) d0 = Inr (sid, d)"
    "load_current_outputs d sid = Inr current"
    "commit_delta js sha p name sid (next_serial d sid) ((delta_state delta)\<lparr>st_outputs :=
       merge_output_delta current (dc_output_writes delta) (dc_output_delete_set delta)\<rparr>)
       (dedupe_sorted (dc_write_set delta @ dc_delete_set delta)) source actor d = Inr d'"
  using assms that by (auto simp: write_engine_delta_for_apply_def delta_state_def Let_def)

lemma next_serial_above: "read_current_version_raw d sid = Some (t, trunk) \<Longrightarrow> t = max_serial d sid \<Longrightarrow> t < next_serial d sid"
  by (simp add: next_serial_def)

section \<open>The effect of a state-engine delta\<close>


section \<open>Outputs\<close>

text \<open>The outputs as Terraform compares them: canonical value and type, and the sensitive flag.\<close>

definition outputs_view :: "(string \<times> tf_output) list \<Rightarrow> (string \<rightharpoonup> json \<times> json \<times> bool)" where
  "outputs_view outs n = map_option output_bytes (map_of outs n)"

lemma trimmed_clean: "(\<And>s. s \<in> set ss \<Longrightarrow> trim_space s = s \<and> s \<noteq> []) \<Longrightarrow> trimmed ss = set ss"
  by (induction ss) auto

lemma map_of_filter_key: "map_of (filter (\<lambda>(n, v). P n) kvs) n = (if P n then map_of kvs n else None)"
  by (induction kvs) auto

lemma map_of_updates:
  "distinct (map fst kvs) \<Longrightarrow> map_of (foldl (\<lambda>m (n, v). AList.update n v m) m kvs) n =
   (case map_of kvs n of None \<Rightarrow> map_of m n | Some v \<Rightarrow> Some v)"
proof (induction kvs arbitrary: m)
  case (Cons kv kvs)
  have "map_of kvs (fst kv) = None" using Cons.prems by (simp add: map_of_eq_None_iff)
  then show ?case using Cons by (cases kv) (auto simp: update_conv' split: option.split)
qed simp

lemma merge_output_delta_lookup:
  assumes "distinct (map fst written)" and "\<forall>n \<in> fst ` set written. trim_space n = n \<and> n \<noteq> []"
  shows "map_of (merge_output_delta current written deletes) n =
    (case map_of written n of None \<Rightarrow> (if n \<in> trimmed deletes then None else map_of current n) | Some v \<Rightarrow> Some v)"
proof -
  have "map (\<lambda>(n, v). (trim_space n, v)) written = written"
    using assms(2) by (intro map_idI) auto
  moreover have "filter (\<lambda>(n, v). n \<noteq> []) written = written"
    using assms(2) by (force simp: filter_id_conv)
  ultimately show ?thesis
    using map_of_filter_key[of "\<lambda>n. n \<notin> trimmed deletes" current n]
    by (simp add: merge_output_delta_def Let_def map_of_updates[OF assms(1)] split: option.split)
qed

lemma distinct_map_fst_filter: "distinct (map fst kvs) \<Longrightarrow> distinct (map fst (filter P kvs))"
  by (induction kvs) auto

lemma map_of_filter_val:
  "distinct (map fst kvs) \<Longrightarrow> map_of (filter P kvs) n = (case map_of kvs n of None \<Rightarrow> None | Some v \<Rightarrow> if P (n, v) then Some v else None)"
  by (induction kvs) (auto simp: map_of_eq_None_iff image_iff split: option.splits dest: map_of_SomeD)

text \<open>The output delta is a faithful diff. For outputs with distinct, trimmed, non-empty names, applying
  the delta that DetectOutputDelta computes between the trunk and the post-apply outputs to the trunk's
  outputs gives the post-apply outputs, up to the canonical form of values.\<close>

theorem output_delta_replays:
  assumes "distinct (map fst trunk)" and "distinct (map fst post)"
    and "\<forall>n \<in> fst ` set trunk \<union> fst ` set post. trim_space n = n \<and> n \<noteq> []"
    and "detect_output_delta trunk post = (ws, ds)"
  shows "outputs_view (merge_output_delta trunk ws ds) = outputs_view post"
proof
  fix n
  let ?P = "\<lambda>(n, p). case map_of trunk n of None \<Rightarrow> True | Some t \<Rightarrow> output_bytes t \<noteq> output_bytes p"
  have ws: "ws = filter ?P post" and ds: "set ds = trimmed (map fst (filter (\<lambda>(n, t). map_of post n = None) trunk))"
    using assms(4) by (auto simp: detect_output_delta_def)
  have names: "\<forall>n \<in> fst ` set ws. trim_space n = n \<and> n \<noteq> []" using assms(3) ws by auto
  let ?gone = "map fst (filter (\<lambda>(n, t). map_of post n = None) trunk)"
  have gone: "set ?gone = {m. map_of trunk m \<noteq> None \<and> map_of post m = None}"
    by (auto simp: map_of_eq_None_iff image_iff split_beta)
  have "trimmed ds = trimmed ?gone" using assms(4) by (auto simp: detect_output_delta_def)
  also have "\<dots> = set ?gone" by (rule trimmed_clean) (use assms(3) in auto)
  finally have "n \<in> trimmed ds \<longleftrightarrow> map_of trunk n \<noteq> None \<and> map_of post n = None" unfolding gone by simp
  moreover have "map_of ws n = (case map_of post n of None \<Rightarrow> None | Some v \<Rightarrow> if ?P (n, v) then Some v else None)"
    unfolding ws by (rule map_of_filter_val[OF assms(2)])
  moreover have "distinct (map fst ws)" unfolding ws by (rule distinct_map_fst_filter[OF assms(2)])
  ultimately show "outputs_view (merge_output_delta trunk ws ds) n = outputs_view post n"
    using merge_output_delta_lookup[OF _ names, of trunk ds n]
    by (cases "map_of post n"; cases "map_of trunk n") (simp_all add: outputs_view_def)
qed

section \<open>Quotas\<close>

lemma hard_quota_bounds: "0 < soft \<Longrightarrow> soft < hard_quota_from_soft soft \<and> hard_quota_from_soft soft \<le> 2 * soft"
  by (auto simp: hard_quota_from_soft_def)

lemma limits_keep:
  assumes "enforce_state_limits p d sid name s = Inr ()" and "trim_space (pr_tenant p) \<noteq> []"
    and "db_tenants d (pr_tenant p) = Some q"
  shows "0 < tn_max_state_resources q \<Longrightarrow> count_managed s \<le> hard_quota_from_soft (tn_max_state_resources q)"
    "0 < tn_max_environment_resources q \<Longrightarrow>
      other_resources d (pr_tenant p) sid (environment_state_prefix p name) + count_managed s
        \<le> hard_quota_from_soft (tn_max_environment_resources q)"
  using assms hard_quota_bounds[of "tn_max_state_resources q"] hard_quota_bounds[of "tn_max_environment_resources q"]
  by (auto simp: enforce_state_limits_def Let_def split: if_splits)

lemma other_resources_current:
  "db_ledger d' = L \<Longrightarrow> db_states d' = db_states (set_current sid' vid d) \<Longrightarrow>
   other_resources d' tenant sid prefix' = other_resources (d\<lparr>db_ledger := L\<rparr>) tenant sid prefix'"
proof -
  assume a: "db_ledger d' = L" "db_states d' = db_states (set_current sid' vid d)"
  have "state_by_id d' i = map_option (\<lambda>r. if i = sid' then r\<lparr>sr_current := Some vid\<rparr> else r) (state_by_id d i)" for i
    using a(2) state_by_id_update[where sid = sid' and f = "\<lambda>r. r\<lparr>sr_current := Some vid\<rparr>" and d = d and i = i]
    unfolding set_current_def by (simp add: state_by_id_def)
  moreover have "state_by_id (d\<lparr>db_ledger := L\<rparr>) i = state_by_id d i" for i by (simp add: state_by_id_def)
  ultimately have "(case state_by_id d' i of None \<Rightarrow> False
      | Some s \<Rightarrow> sr_tenant s = tenant \<and> sr_status s = ''active'' \<and> like (prefix' @ ''%'') (sr_name s)) =
     (case state_by_id (d\<lparr>db_ledger := L\<rparr>) i of None \<Rightarrow> False
      | Some s \<Rightarrow> sr_tenant s = tenant \<and> sr_status s = ''active'' \<and> like (prefix' @ ''%'') (sr_name s))" for i
    by (simp split: option.split)
  then show ?thesis unfolding other_resources_def using a(1) by simp
qed

text \<open>C35: Hard quotas bound what a state-engine commit stores. After a successful
  WriteStateEngineDeltaForApply of an existing state, in a tenant with soft limits on a state's and on an
  environment's resources, the managed resources of the stored document stay within the hard limit of a
  state, and together with the live managed rows of the environment's other states within the hard limit
  of an environment; a hard limit lies between the soft one and its double.\<close>

theorem engine_delta_within_quota:
  assumes "db_ok d" and "find_state d (pr_tenant p) name = Some r" and "trim_space (pr_tenant p) \<noteq> []"
    and "db_tenants d (pr_tenant p) = Some q" and "0 < tn_max_state_resources q" and "0 < tn_max_environment_resources q"
    and "write_engine_delta_for_apply js sha p name apply_id base_serial delta source actor d = Inr d'"
  shows "\<exists>stored. read_current_version_raw d' (sr_id r) = Some (next_serial d (sr_id r), stored) \<and>
     count_managed stored \<le> hard_quota_from_soft (tn_max_state_resources q) \<and>
     other_resources d' (pr_tenant p) (sr_id r) (environment_state_prefix p name) + count_managed stored
       \<le> hard_quota_from_soft (tn_max_environment_resources q) \<and>
     hard_quota_from_soft (tn_max_state_resources q) \<in> {tn_max_state_resources q <.. 2 * tn_max_state_resources q}"
  using assms(7)
proof (cases rule: write_engine_deltaE)
  case (1 sid d1 current)
  note k = upsert_known[OF assms(1,2) 1(1)]
  have sid: "sid \<in> state_ids d1" using k(2) upsert_state_frame(6)[OF 1(1)] by blast
  have ok: "db_ok d1" using upsert_state_ok[OF assms(1) 1(1)] by blast
  have ser: "next_serial d1 sid = next_serial d sid" using k(5) by (simp add: next_serial_def max_serial_def)
  show ?thesis using 1(3)
  proof (cases rule: commit_deltaE)
    case e: (1 rows L resources v)
    have q: "db_tenants (d1\<lparr>db_ledger := L\<rparr>) (pr_tenant p) = Some q"
      using assms(4) upsert_state_frame(5)[OF 1(1)] by simp
    have "read_current_version_raw d' (sr_id r) = Some (next_serial d (sr_id r), vr_raw v)"
      using read_current_added[OF ok e(11,5,13) sid] e(7) k(1) ser by simp
    then show ?thesis
      using limits_keep[OF e(4) assms(3) q] assms(5,6) e(8) k(1) other_resources_current[OF e(10,13)]
        hard_quota_bounds[OF assms(5)] by simp
  qed
qed

section \<open>Deletion\<close>

lemma drop_state_others:
  assumes "db_ok d" and ne: "i \<noteq> sid"
  shows "state_by_id (drop_state sid d) i = state_by_id d i" "locks_of (drop_state sid d) i = locks_of d i"
    "state_serials (drop_state sid d) i = state_serials d i"
    "rows_of i (db_ledger (drop_state sid d)) = rows_of i (db_ledger d)"
    "read_current_version_raw (drop_state sid d) i = read_current_version_raw d i"
proof -
  have find_filter: "find P (filter Q xs) = find P xs" if "\<And>x. P x \<Longrightarrow> x \<in> set xs \<Longrightarrow> Q x" for P Q and xs :: "'a list"
    using that by (induction xs) auto
  show s: "state_by_id (drop_state sid d) i = state_by_id d i"
    unfolding state_by_id_def drop_state_def using ne by (simp add: find_filter)
  show "locks_of (drop_state sid d) i = locks_of d i" "state_serials (drop_state sid d) i = state_serials d i"
    "rows_of i (db_ledger (drop_state sid d)) = rows_of i (db_ledger d)"
    unfolding locks_of_def state_serials_def rows_of_def drop_state_def using ne
    by (auto intro!: filter_cong arg_cong[where f = "map vr_serial"])
  have "current_version (drop_state sid d) r = current_version d r" if r: "state_by_id d i = Some r" for r
  proof (cases "sr_current r")
    case (Some vid)
    have rr: "r \<in> set (db_states d)" "sr_id r = i" using state_by_id_SomeD[OF r] by simp_all
    then obtain v where v: "v \<in> set (db_versions d)" "vr_state_id v = i" "vr_id v = vid"
      using assms(1) Some by (fastforce simp: db_ok_def current_ok_def)
    have "vr_state_id w = i" if "w \<in> set (db_versions d)" "vr_id w = vid" for w
      using that v assms(1) by (auto simp: db_ok_def versions_ok_def distinct_map inj_on_def)
    then show ?thesis
      using Some ne by (auto simp: current_version_def version_by_id_def drop_state_def intro!: find_filter)
  qed (simp add: current_version_def)
  then show "read_current_version_raw (drop_state sid d) i = read_current_version_raw d i"
    by (simp add: read_current_version_raw_def s split: option.split)
qed

lemma match_any_lifecycle_SomeD:
  assumes "match_any_lifecycle d tenant name = Some r"
  shows "r \<in> set (db_states d) \<and> sr_tenant r = tenant"
proof -
  let ?rows = "filter (\<lambda>r. sr_tenant r = tenant \<and> (sr_name r = name \<or>
      sr_status r = ''archived'' \<and> like (archived_pattern name) (sr_name r))) (db_states d)"
  have "r \<in> set ?rows"
    using assms unfolding match_any_lifecycle_def pick_named_def
    by (auto simp del: set_filter split: option.splits list.splits simp: find_Some_iff dest: nth_mem)
  then show ?thesis by simp
qed


section \<open>The run, continued by a delta\<close>

text \<open>On the merged state, a delta writes \<open>t.a\<close>, deletes \<open>t.b\<close> and sets one output.\<close>

definition run_delta :: delta_commit where
  "run_delta = \<lparr>dc_terraform_version = ''1'', dc_lineage = ''l'', dc_check_results = None,
     dc_resources = [run_resource ''a'' 9], dc_write_set = [''t.a''], dc_delete_set = [''t.b''],
     dc_output_writes = [(''o'', \<lparr>o_value = Some (JNum 1), o_type = Some (JStr ''number''), o_sensitive = False\<rparr>)],
     dc_output_delete_set = []\<rparr>"

definition run_quota_db :: db where
  "run_quota_db = run_before\<lparr>db_tenants := [''t'' \<mapsto> \<lparr>tn_status = ''active'', tn_max_state_resources = 2,
     tn_max_environment_resources = 4\<rparr>]\<rparr>"

definition run_commit :: "db \<Rightarrow> (store_error, db) result" where
  "run_commit d = write_engine_delta_for_apply (\<lambda>j. case j of JNum n \<Rightarrow> show_int n | _ \<Rightarrow> []) id run_principal ''s'' ''x'' 2
     run_delta ''kl_apply'' ''ann'' d"

lemma run_trim: "trim_space ''a'' = ''a''" "trim_space ''b'' = ''b''" "trim_space ''c'' = ''c''" "trim_space ''o'' = ''o''"
  by code_simp+

lemma run_commit_ok: "\<not> isl (run_commit run_before)" "\<not> isl (run_commit run_quota_db)"
  unfolding run_quota_db_def run_before_def by code_simp+

lemma run_delta_values:
  "(case run_commit run_before of Inl e \<Rightarrow> [] | Inr d \<Rightarrow> map (\<lambda>v. (vr_serial v, map fst (st_outputs (vr_raw v)),
     map (\<lambda>p. i_attributes (snd p)) (state_instances (vr_raw v)))) (db_versions d)) =
   [(1, [], [Some (JNum 1), Some (JNum 1)]), (2, [], [Some (JNum 1), Some (JNum 2)]), (3, [''o''], [Some (JNum 9)])]"
  unfolding run_before_def by code_simp


definition run_output :: "int \<Rightarrow> tf_output" where
  "run_output n = \<lparr>o_value = Some (JNum n), o_type = None, o_sensitive = False\<rparr>"

theorem output_delta_replays_witness:
  "outputs_view (merge_output_delta [(''a'', run_output 1), (''b'', run_output 1)]
     [(''a'', run_output 2), (''c'', run_output 1)] [''b'']) = outputs_view [(''a'', run_output 2), (''c'', run_output 1)]"
proof (rule output_delta_replays)
  show "detect_output_delta [(''a'', run_output 1), (''b'', run_output 1)] [(''a'', run_output 2), (''c'', run_output 1)] =
    ([(''a'', run_output 2), (''c'', run_output 1)], [''b''])" by code_simp
qed (auto simp: run_trim)

theorem engine_delta_within_quota_witness:
  "\<exists>d' stored. run_commit run_quota_db = Inr d' \<and> read_current_version_raw d' ''0'' = Some (3, stored) \<and> count_managed stored \<le> 3"
proof -
  have ok: "db_ok run_quota_db"
    using run_before_ok(1) unfolding db_ok_defs by (simp add: run_quota_db_def state_ids_def issued_def)
  have "find_state run_quota_db (pr_tenant run_principal) ''s'' = find_state run_before (pr_tenant run_principal) ''s''"
    by (simp add: find_state_def run_quota_db_def)
  then obtain r where r: "find_state run_quota_db (pr_tenant run_principal) ''s'' = Some r" "sr_id r = ''0''"
    using run_before_state(1) by (auto simp: run_tenant)
  obtain d' where d': "run_commit run_quota_db = Inr d'" using run_commit_ok(2) not_isl_Inr by blast
  have n: "next_serial run_quota_db ''0'' = 3"
    using run_before_state(2) by (simp add: next_serial_def max_serial_def state_serials_def run_quota_db_def)
  have "trim_space (pr_tenant run_principal) \<noteq> []" by code_simp
  from engine_delta_within_quota[OF ok r(1) this _ _ _ d'[unfolded run_commit_def]] show ?thesis
    using d' r(2) n by (auto simp: run_quota_db_def run_tenant hard_quota_from_soft_def)
qed


end
