(* ===== verification/StateCodec.thy ===== *)
theory StateCodec
  imports EngineDelta
begin

text \<open>
  The two decoded forms of one state document: \<^verbatim>\<open>tfstate.State\<close> (\<^verbatim>\<open>internal/tfstate/types.go\<close>), which the
  store keeps, and \<^verbatim>\<open>slice.TrunkState\<close> (\<^verbatim>\<open>internal/slice/slice.go\<close>), which an apply works on and whose
  instances and outputs are raw JSON. The document has the typed fields of both, and a field that is absent
  is left out, as \<^verbatim>\<open>omitempty\<close> does.
\<close>

section \<open>Objects with optional fields\<close>

definition opt_fields :: "(string \<times> raw) list \<Rightarrow> (string \<times> json) list" where
  "opt_fields fs = concat (map (\<lambda>(k, v). case v of None \<Rightarrow> [] | Some x \<Rightarrow> [(k, x)]) fs)"

lemma opt_fields_simps [simp]:
  "opt_fields [] = []"
  "opt_fields ((k, v) # fs) = (case v of None \<Rightarrow> [] | Some x \<Rightarrow> [(k, x)]) @ opt_fields fs"
  by (simp_all add: opt_fields_def)

lemma opt_fields_keys: "fst ` set (opt_fields fs) \<subseteq> fst ` set fs"
proof (induction fs)
  case (Cons f fs)
  then show ?case by (cases f; cases "snd f") auto
qed simp

lemma json_field_opt:
  "distinct (map fst fs) \<Longrightarrow> json_field k (opt_fields fs) = (case map_of fs k of None \<Rightarrow> None | Some v \<Rightarrow> v)"
proof (induction fs)
  case (Cons f fs)
  obtain k' v where f: "f = (k', v)" by (cases f)
  have none: "json_field k' (opt_fields fs) = None"
    using Cons.prems opt_fields_keys[of fs] by (auto simp: json_field_def f map_of_eq_None_iff)
  have nk: "map_of fs k' = None" using Cons.prems by (simp add: f map_of_eq_None_iff)
  show ?case
  proof (cases "k = k'")
    case True
    then show ?thesis using none nk by (cases v) (simp_all add: f json_field_def map_add_def)
  next
    case False
    then show ?thesis using Cons by (cases v) (simp_all add: f json_field_def map_add_def split: option.split)
  qed
qed (simp add: json_field_def)

definition int_field :: "int \<Rightarrow> raw" where "int_field n = (if n = 0 then None else Some (JNum n))"

definition bool_field :: "bool \<Rightarrow> raw" where "bool_field b = (if b then Some (JBool True) else None)"

definition string_field :: "string \<Rightarrow> raw" where "string_field s = (if s = [] then None else Some (JStr s))"

definition strings_field :: "string list \<Rightarrow> raw" where
  "strings_field ss = (if ss = [] then None else Some (JArr (map JStr ss)))"

lemma decode_fields [simp]:
  "int64_range n \<Longrightarrow> decode_int (int_field n) = Some n" "decode_bool (bool_field b) = Some b"
  "decode_string (string_field s) = Some s"
  by (simp_all add: int_field_def decode_int_def bool_field_def decode_bool_def string_field_def decode_string_def)

lemma decode_all_map: "(\<And>x. x \<in> set xs \<Longrightarrow> g (f x) = Some x) \<Longrightarrow> decode_all g (map f xs) = Some xs"
  by (induction xs) auto

lemma decode_strings_field [simp]: "decode_strings (strings_field ss) = Some ss"
  by (auto simp: strings_field_def decode_strings_def decode_string_def intro!: decode_all_map)

section \<open>Instances, outputs, documents\<close>

definition encode_instance :: "resource_instance \<Rightarrow> json" where
  "encode_instance i = JObj (opt_fields
     [(''schema_version'', int_field (i_schema_version i)), (''attributes'', i_attributes i),
      (''sensitive_attributes'', i_sensitive_attributes i), (''dependencies'', strings_field (i_dependencies i)),
      (''index_key'', i_index_key i), (''create_before_destroy'', bool_field (i_create_before_destroy i)),
      (''tainted'', bool_field (i_tainted i)), (''private'', string_field (i_private i)),
      (''status'', string_field (i_status i))])"

lemma decode_encode_instance: "int64_range (i_schema_version i) \<Longrightarrow> decode_instance (encode_instance i) = Some i"
  unfolding decode_instance_def encode_instance_def json.case by (subst json_field_opt, simp)+ simp

definition encode_output :: "tf_output \<Rightarrow> json" where
  "encode_output out = JObj (opt_fields [(''value'', o_value out), (''type'', o_type out), (''sensitive'', bool_field (o_sensitive out))])"

lemma decode_encode_output: "decode_output (encode_output out) = Some out"
  unfolding decode_output_def encode_output_def json.case by (subst json_field_opt, simp)+ simp

definition trunk_resource_of :: "tf_resource \<Rightarrow> trunk_resource" where
  "trunk_resource_of r = \<lparr>tr_module = r_module r, tr_mode = r_mode r, tr_type = r_type r, tr_name = r_name r,
     tr_provider = r_provider r, tr_each = [], tr_instances = Some (JArr (map encode_instance (r_instances r)))\<rparr>"

text \<open>\<^verbatim>\<open>ParseTrunkState\<close> of a stored document.\<close>

definition trunk_of_state :: "tf_state \<Rightarrow> trunk_state" where
  "trunk_of_state s = \<lparr>ts_version = st_version s, ts_terraform_version = st_terraform_version s,
     ts_serial = st_serial s, ts_lineage = st_lineage s,
     ts_outputs = Some (JObj (map (\<lambda>(n, out). (n, encode_output out)) (st_outputs s))),
     ts_check_results = st_check_results s, ts_resources = map trunk_resource_of (st_resources s)\<rparr>"

text \<open>\<^verbatim>\<open>tfstate.Parse\<close> of a marshalled trunk state; \<open>None\<close> when a part does not decode.\<close>

definition state_of_trunk :: "trunk_state \<Rightarrow> tf_state option" where
  "state_of_trunk t =
     (case (extract_outputs t, map_result slice_resource_to_tfstate (ts_resources t)) of
        (Inr outs, Inr rs) \<Rightarrow> Some \<lparr>st_version = ts_version t, st_terraform_version = ts_terraform_version t,
          st_serial = ts_serial t, st_lineage = ts_lineage t, st_outputs = outs, st_resources = rs,
          st_check_results = ts_check_results t\<rparr>
      | _ \<Rightarrow> None)"

text \<open>What a document that Go decoded satisfies: schema versions fit their type, output names are distinct.\<close>

definition codec_ok :: "tf_state \<Rightarrow> bool" where
  "codec_ok s \<longleftrightarrow> distinct (map fst (st_outputs s)) \<and>
     (\<forall>r \<in> set (st_resources s). \<forall>i \<in> set (r_instances r). int64_range (i_schema_version i))"

lemma last_fields_map: "last_fields (map (\<lambda>(n, v). (n, f v)) kvs) = map (\<lambda>(n, v). (n, f v)) (last_fields kvs)"
proof -
  have keys: "map fst (map (\<lambda>(n, v). (n, f v)) kvs) = map fst kvs" by (simp add: comp_def case_prod_beta)
  have get: "map_of (rev (map (\<lambda>(n, v). (n, f v)) kvs)) k = map_option f (map_of (rev kvs) k)" for k
    by (simp add: rev_map map_of_map)
  have "the (map_option f (map_of (rev kvs) k)) = f (the (map_of (rev kvs) k))" if "k \<in> fst ` set kvs" for k
    using that map_of_eq_None_iff[of "rev kvs" k] by (cases "map_of (rev kvs) k") auto
  then show ?thesis unfolding last_fields_def keys get by auto
qed

lemma resource_roundtrip:
  assumes "\<forall>i \<in> set (r_instances r). int64_range (i_schema_version i)"
  shows "slice_resource_to_tfstate (trunk_resource_of r) = Inr r"
proof -
  have "decode_all decode_instance (map encode_instance (r_instances r)) = Some (r_instances r)"
    using assms decode_encode_instance by (intro decode_all_map) blast
  then show ?thesis by (simp add: slice_resource_to_tfstate_def trunk_resource_of_def decode_instances_def)
qed

lemma map_result_map: "(\<And>x. x \<in> set xs \<Longrightarrow> g (f x) = Inr x) \<Longrightarrow> map_result g (map f xs) = Inr xs"
  by (induction xs) auto

lemma outputs_roundtrip: "extract_outputs (trunk_of_state s) = Inr (last_fields (st_outputs s))"
proof -
  have "decode_all (\<lambda>(k, v). map_option (\<lambda>out. (k, out)) (decode_output v))
      (map (\<lambda>(n, out). (n, encode_output out)) outs) = Some outs" for outs
    by (rule decode_all_map) (auto simp: decode_encode_output)
  note eq = this[of "last_fields (st_outputs s)"]
  show ?thesis
    unfolding extract_outputs_def trunk_of_state_def by (simp add: last_fields_map eq)
qed



end
