(* ===== verification/ApplyRuns.thy ===== *)
theory ApplyRuns
  imports Prelude
begin

text \<open>
  The audit table of apply runs (\<^verbatim>\<open>pkg/store/apply_runs.go\<close>): a run begins as running and is finished once,
  as committed, failed or aborted. The two CHECK constraints of the table are \<open>run_ok\<close>; that the client-side
  checks imply them is proved, so the database never refuses a finish for them.

  \<open>states\<close> and \<open>versions\<close> are the ids that the foreign keys may name, and \<open>now\<close> is the database's clock.
\<close>

section \<open>The table\<close>

datatype apply_run_status = ApplyRunRunning | ApplyRunCommitted | ApplyRunFailed | ApplyRunAborted

definition is_terminal :: "apply_run_status \<Rightarrow> bool" where
  "is_terminal s = (case s of ApplyRunCommitted \<Rightarrow> True | ApplyRunFailed \<Rightarrow> True | ApplyRunAborted \<Rightarrow> True | _ \<Rightarrow> False)"

record apply_run =
  ar_id :: nat
  ar_tenant :: string
  ar_state_id :: string
  ar_from_version :: string
  ar_to_version :: "string option"
  ar_source_serial :: int
  ar_committed_serial :: "int option"
  ar_actor :: "string option"
  ar_started :: nat
  ar_finished :: "nat option"
  ar_planned :: "int option"
  ar_applied :: "int option"
  ar_failed :: "int option"
  ar_status :: apply_run_status
  ar_error :: "string option"

record run_table =
  rn_rows :: "apply_run list"
  rn_next :: nat

datatype run_error =
    EmptyStateID
  | EmptyFromVersionID
  | NegativeSourceSerial
  | BadReference
  | EmptyRunID
  | StatusNotTerminal
  | CommittedWithoutSerial
  | SerialWithoutCommit
  | NegativeCounter
  | ApplyRunNotFound
  | ApplyRunAlreadyFinished

text \<open>\<^verbatim>\<open>NULLIF(x, '')\<close>.\<close>

definition null_if_empty :: "string \<Rightarrow> string option" where
  "null_if_empty s = (if s = [] then None else Some s)"

section \<open>Begin, finish, abort\<close>

definition begin_apply_run ::
    "string set \<Rightarrow> string set \<Rightarrow> nat \<Rightarrow> string \<Rightarrow> string \<Rightarrow> string \<Rightarrow> string \<Rightarrow> int \<Rightarrow> run_table \<Rightarrow>
     (run_error, nat \<times> run_table) result" where
  "begin_apply_run states versions now tenant state_id from_version actor source_serial t =
     (if state_id = [] then Inl EmptyStateID
      else if from_version = [] then Inl EmptyFromVersionID
      else if source_serial < 0 then Inl NegativeSourceSerial
      else if state_id \<notin> states \<or> from_version \<notin> versions then Inl BadReference
      else Inr (rn_next t, \<lparr>rn_rows = rn_rows t @ [\<lparr>ar_id = rn_next t, ar_tenant = tenant, ar_state_id = state_id,
             ar_from_version = from_version, ar_to_version = None, ar_source_serial = source_serial,
             ar_committed_serial = None, ar_actor = null_if_empty actor, ar_started = now, ar_finished = None,
             ar_planned = None, ar_applied = None, ar_failed = None, ar_status = ApplyRunRunning, ar_error = None\<rparr>],
           rn_next = Suc (rn_next t)\<rparr>))"

record finish_input =
  fi_status :: apply_run_status
  fi_to_version :: string
  fi_committed_serial :: "int option"
  fi_planned :: int
  fi_applied :: int
  fi_failed :: int
  fi_error :: string

definition find_run :: "run_table \<Rightarrow> nat \<Rightarrow> apply_run option" where
  "find_run t i = find (\<lambda>r. ar_id r = i) (rn_rows t)"

definition finish_row :: "nat \<Rightarrow> finish_input \<Rightarrow> apply_run \<Rightarrow> apply_run" where
  "finish_row now inp r = r\<lparr>ar_status := fi_status inp, ar_to_version := null_if_empty (fi_to_version inp),
     ar_committed_serial := fi_committed_serial inp, ar_planned := Some (fi_planned inp),
     ar_applied := Some (fi_applied inp), ar_failed := Some (fi_failed inp),
     ar_error := null_if_empty (fi_error inp), ar_finished := Some now\<rparr>"

definition finish_apply_run ::
    "string set \<Rightarrow> nat \<Rightarrow> nat option \<Rightarrow> finish_input \<Rightarrow> run_table \<Rightarrow> (run_error, run_table) result" where
  "finish_apply_run versions now id0 inp t =
     (case id0 of None \<Rightarrow> Inl EmptyRunID
      | Some i \<Rightarrow>
          if \<not> is_terminal (fi_status inp) then Inl StatusNotTerminal
          else if fi_status inp = ApplyRunCommitted \<and> fi_committed_serial inp = None then Inl CommittedWithoutSerial
          else if fi_status inp \<noteq> ApplyRunCommitted \<and> fi_committed_serial inp \<noteq> None then Inl SerialWithoutCommit
          else if fi_planned inp < 0 \<or> fi_applied inp < 0 \<or> fi_failed inp < 0 then Inl NegativeCounter
          else (case find_run t i of
              None \<Rightarrow> Inl ApplyRunNotFound
            | Some r \<Rightarrow>
                if is_terminal (ar_status r) then Inl ApplyRunAlreadyFinished
                else if fi_to_version inp \<noteq> [] \<and> fi_to_version inp \<notin> versions then Inl BadReference
                else Inr (t\<lparr>rn_rows := map (\<lambda>r. if ar_id r = i then finish_row now inp r else r) (rn_rows t)\<rparr>)))"

definition abort_input :: "string \<Rightarrow> finish_input" where
  "abort_input reason0 =
     (let reason = (if trim_space reason0 = [] then ''aborted by operator'' else trim_space reason0)
      in \<lparr>fi_status = ApplyRunAborted, fi_to_version = [], fi_committed_serial = None, fi_planned = 0,
          fi_applied = 0, fi_failed = 0, fi_error = reason\<rparr>)"

definition abort_apply_run ::
    "string set \<Rightarrow> nat \<Rightarrow> nat option \<Rightarrow> string \<Rightarrow> run_table \<Rightarrow> (run_error, run_table) result" where
  "abort_apply_run versions now id0 reason t = finish_apply_run versions now id0 (abort_input reason) t"

definition get_apply_run :: "nat option \<Rightarrow> run_table \<Rightarrow> (run_error, apply_run) result" where
  "get_apply_run id0 t = (case id0 of None \<Rightarrow> Inl EmptyRunID
     | Some i \<Rightarrow> (case find_run t i of None \<Rightarrow> Inl ApplyRunNotFound | Some r \<Rightarrow> Inr r))"

definition get_apply_run_status :: "nat option \<Rightarrow> run_table \<Rightarrow> (run_error, apply_run_status) result" where
  "get_apply_run_status id0 t = bind_result (get_apply_run id0 t) (\<lambda>r. Inr (ar_status r))"

text \<open>The newest runs of a state first; a limit that is not positive is 100.\<close>

definition list_apply_runs :: "string set \<Rightarrow> int \<Rightarrow> run_table \<Rightarrow> apply_run list" where
  "list_apply_runs state_ids limit0 t =
     (let limit = (if limit0 \<le> 0 then 100 else limit0)
      in take (nat limit) (rev (sort_key ar_started (filter (\<lambda>r. ar_state_id r \<in> state_ids) (rn_rows t)))))"

section \<open>The constraints\<close>

definition run_ok :: "apply_run \<Rightarrow> bool" where
  "run_ok r \<longleftrightarrow> (ar_status r = ApplyRunRunning \<longleftrightarrow> ar_finished r = None) \<and>
     (ar_committed_serial r \<noteq> None \<longleftrightarrow> ar_status r = ApplyRunCommitted)"

definition runs_ok :: "run_table \<Rightarrow> bool" where
  "runs_ok t \<longleftrightarrow> distinct (map ar_id (rn_rows t)) \<and> (\<forall>r \<in> set (rn_rows t). run_ok r \<and> ar_id r < rn_next t)"

datatype run_op =
    BeginOp nat string string string string int
  | FinishOp nat "nat option" finish_input
  | AbortOp nat "nat option" string

definition run_step :: "string set \<Rightarrow> string set \<Rightarrow> run_op \<Rightarrow> run_table \<Rightarrow> run_table" where
  "run_step states versions op t =
     (case (case op of
         BeginOp now tenant sid from_v actor src \<Rightarrow>
           bind_result (begin_apply_run states versions now tenant sid from_v actor src t) (\<lambda>(i, t). Inr t)
       | FinishOp now i inp \<Rightarrow> finish_apply_run versions now i inp t
       | AbortOp now i reason \<Rightarrow> abort_apply_run versions now i reason t)
      of Inl e \<Rightarrow> t | Inr t' \<Rightarrow> t')"

lemma find_run_SomeD: "find_run t i = Some r \<Longrightarrow> r \<in> set (rn_rows t) \<and> ar_id r = i"
  by (auto simp: find_run_def find_Some_iff)

lemma finish_apply_runE:
  assumes "finish_apply_run versions now id0 inp t = Inr t'"
  obtains i r where "id0 = Some i" "find_run t i = Some r" "\<not> is_terminal (ar_status r)" "is_terminal (fi_status inp)"
    "fi_committed_serial inp \<noteq> None \<longleftrightarrow> fi_status inp = ApplyRunCommitted"
    "t' = t\<lparr>rn_rows := map (\<lambda>r. if ar_id r = i then finish_row now inp r else r) (rn_rows t)\<rparr>"
  using assms that unfolding finish_apply_run_def by (auto split: option.splits if_splits)

lemma finish_row_ok:
  "is_terminal (fi_status inp) \<Longrightarrow> (fi_committed_serial inp \<noteq> None \<longleftrightarrow> fi_status inp = ApplyRunCommitted) \<Longrightarrow>
   run_ok (finish_row now inp r)"
  by (auto simp: run_ok_def finish_row_def is_terminal_def)

lemma finish_row_id [simp]: "ar_id (finish_row now inp r) = ar_id r"
  by (simp add: finish_row_def)

lemma finish_runs_ok:
  assumes "runs_ok t" and "finish_apply_run versions now id0 inp t = Inr t'"
  shows "runs_ok t'"
  using assms(2)
proof (cases rule: finish_apply_runE)
  case (1 i r)
  have "map ar_id (rn_rows t') = map ar_id (rn_rows t)" by (simp add: 1(6) comp_def if_distrib cong: if_cong)
  moreover have "\<forall>r \<in> set (rn_rows t'). run_ok r \<and> ar_id r < rn_next t'"
    using assms(1) finish_row_ok[OF 1(4,5)] by (auto simp: 1(6) runs_ok_def)
  ultimately show ?thesis using assms(1) by (simp add: runs_ok_def)
qed

lemma find_run_snoc: "find (\<lambda>r. ar_id r = j) (rs @ [r]) =
    (case find (\<lambda>r. ar_id r = j) rs of None \<Rightarrow> if ar_id r = j then Some r else None | Some x \<Rightarrow> Some x)"
  by (induction rs) auto

lemma begin_runs_ok:
  assumes "runs_ok t" and "begin_apply_run states versions now tenant sid v actor src t = Inr (i, t')"
  shows "runs_ok t'" "i = rn_next t" "find_run t' i \<noteq> None" "j \<noteq> i \<Longrightarrow> find_run t' j = find_run t j"
    "map_option ar_status (find_run t' i) = Some ApplyRunRunning"
proof -
  have t': "i = rn_next t" and rows: "\<exists>r. rn_rows t' = rn_rows t @ [r] \<and> ar_id r = i \<and> run_ok r \<and> ar_status r = ApplyRunRunning \<and> rn_next t' = Suc i"
    using assms(2) by (auto simp: begin_apply_run_def run_ok_def split: if_splits)
  then obtain r where r: "rn_rows t' = rn_rows t @ [r]" "ar_id r = i" "run_ok r" "ar_status r = ApplyRunRunning" "rn_next t' = Suc i"
    by blast
  have new: "i \<notin> ar_id ` set (rn_rows t)" using assms(1) t' by (auto simp: runs_ok_def)
  then have "distinct (map ar_id (rn_rows t'))" using assms(1) r by (auto simp: runs_ok_def)
  moreover have "\<forall>r \<in> set (rn_rows t'). run_ok r \<and> ar_id r < rn_next t'"
    using assms(1) r(1-3,5) t' by (auto simp: runs_ok_def less_Suc_eq)
  ultimately show "runs_ok t'" by (simp add: runs_ok_def)
  show "i = rn_next t" by (rule t')
  have snoc: "find_run t' j = (case find_run t j of None \<Rightarrow> if ar_id r = j then Some r else None | Some x \<Rightarrow> Some x)" for j
    unfolding find_run_def r(1) by (rule find_run_snoc)
  have "find_run t i = None" using new by (auto simp: find_run_def find_None_iff)
  then have "find_run t' i = Some r" using snoc[of i] r(2) by simp
  then show "find_run t' i \<noteq> None" "map_option ar_status (find_run t' i) = Some ApplyRunRunning" using r(4) by simp_all
  show "find_run t' j = find_run t j" if "j \<noteq> i" using snoc[of j] r(2) that by (simp split: option.split)
qed

lemma find_finished:
  "find (\<lambda>r. ar_id r = j) (map (\<lambda>r. if ar_id r = i then finish_row now inp r else r) rs) =
   map_option (\<lambda>r. if j = i then finish_row now inp r else r) (find (\<lambda>r. ar_id r = j) rs)"
  by (induction rs) auto

lemma finish_find_run:
  assumes "finish_apply_run versions now (Some i) inp t = Inr t'"
  shows "find_run t' j = map_option (\<lambda>r. if j = i then finish_row now inp r else r) (find_run t j)"
  using assms by (cases rule: finish_apply_runE) (simp add: find_run_def find_finished)

lemma run_step_cases:
  obtains (same) "run_step states versions op t = t"
    | (began) now tenant sid v actor src i where
        "begin_apply_run states versions now tenant sid v actor src t = Inr (i, run_step states versions op t)"
    | (finished) now id0 inp where "finish_apply_run versions now id0 inp t = Inr (run_step states versions op t)"
proof (cases op)
  case (BeginOp now tenant sid v actor src)
  then show ?thesis using same began
    by (cases "begin_apply_run states versions now tenant sid v actor src t") (auto simp: run_step_def)
next
  case (FinishOp now id0 inp)
  then show ?thesis using same finished by (cases "finish_apply_run versions now id0 inp t") (auto simp: run_step_def)
next
  case (AbortOp now id0 reason)
  then show ?thesis using same finished[of now id0 "abort_input reason"]
    by (cases "finish_apply_run versions now id0 (abort_input reason) t") (auto simp: run_step_def abort_apply_run_def)
qed

lemma run_step_ok: "runs_ok t \<Longrightarrow> runs_ok (run_step states versions op t)"
  by (cases rule: run_step_cases[of states versions op t]) (auto dest: begin_runs_ok(1) finish_runs_ok)

section \<open>A finished run is final\<close>

text \<open>
  The contract of a log of runs, as the orchestrator relies on it: entries are never lost, and an entry that
  is final never changes again.
\<close>

locale run_log =
  fixes entry :: "'t \<Rightarrow> 'i \<Rightarrow> 'r option"
    and final :: "'r \<Rightarrow> bool"
    and step :: "'op \<Rightarrow> 't \<Rightarrow> 't"
    and good :: "'t \<Rightarrow> bool"
  assumes good_step: "good t \<Longrightarrow> good (step p t)"
    and entry_kept: "good t \<Longrightarrow> entry t i \<noteq> None \<Longrightarrow> entry (step p t) i \<noteq> None"
    and final_kept: "good t \<Longrightarrow> entry t i = Some r \<Longrightarrow> final r \<Longrightarrow> entry (step p t) i = Some r"
begin

definition after :: "'op list \<Rightarrow> 't \<Rightarrow> 't" where
  "after ps t = foldl (\<lambda>t p. step p t) t ps"

lemma after_good: "good t \<Longrightarrow> good (after ps t)"
  unfolding after_def by (induction ps arbitrary: t) (auto intro: good_step)

lemma after_kept: "good t \<Longrightarrow> entry t i \<noteq> None \<Longrightarrow> entry (after ps t) i \<noteq> None"
  unfolding after_def by (induction ps arbitrary: t) (use good_step entry_kept in auto)

lemma after_final: "good t \<Longrightarrow> entry t i = Some r \<Longrightarrow> final r \<Longrightarrow> entry (after ps t) i = Some r"
  unfolding after_def by (induction ps arbitrary: t) (use good_step final_kept in auto)

end

lemma finish_kept:
  assumes "finish_apply_run versions now id0 inp t = Inr t'"
  shows "find_run t j \<noteq> None \<Longrightarrow> find_run t' j \<noteq> None"
    "find_run t j = Some r \<Longrightarrow> is_terminal (ar_status r) \<Longrightarrow> find_run t' j = Some r"
  using assms by (cases rule: finish_apply_runE; use assms finish_find_run[of versions now _ inp t t' j] in auto)+

interpretation runs: run_log find_run "\<lambda>r. is_terminal (ar_status r)" "run_step states versions" runs_ok for states versions
proof
  fix t p i r
  assume ok: "runs_ok t"
  show "runs_ok (run_step states versions p t)" by (rule run_step_ok[OF ok])
  have fresh: "find_run t (rn_next t) = None" using ok by (force simp: find_run_def find_None_iff runs_ok_def)
  show "find_run (run_step states versions p t) i \<noteq> None" if "find_run t i \<noteq> None"
  proof (cases rule: run_step_cases[of states versions p t])
    case (began now tenant sid v actor src j)
    then show ?thesis using that begin_runs_ok(3,4)[OF ok began] by (cases "i = j") auto
  qed (use that finish_kept(1) in auto)
  show "find_run (run_step states versions p t) i = Some r" if "find_run t i = Some r" "is_terminal (ar_status r)"
  proof (cases rule: run_step_cases[of states versions p t])
    case (began now tenant sid v actor src j)
    then show ?thesis using that begin_runs_ok(2,4)[OF ok began] fresh by (cases "i = j") auto
  qed (use that finish_kept(2) in auto)
qed

section \<open>Typed and final\<close>

lemma run_steps_foldl: "runs.after states versions ops t = foldl (\<lambda>t op. run_step states versions op t) t ops"
  by (simp add: runs.after_def)

text \<open>C38: Every row of the audit table is well-typed. Starting from an empty table, after any sequence of
  begin, finish and abort calls, a run is running exactly when it has no finish time, it has a committed
  serial exactly when it is committed, and its id is unique.\<close>

theorem apply_runs_well_typed:
  "runs_ok (foldl (\<lambda>t op. run_step states versions op t) \<lparr>rn_rows = [], rn_next = 0\<rparr> ops)"
proof -
  have "runs_ok \<lparr>rn_rows = [], rn_next = 0\<rparr>" by (simp add: runs_ok_def)
  from runs.after_good[OF this] show ?thesis by (simp add: run_steps_foldl)
qed

text \<open>C37: A finished run is final. Once a run is committed, failed or aborted, no later begin, finish or abort
  call of any client changes any column of its row.\<close>

theorem finished_run_final:
  assumes "runs_ok t" and "find_run t i = Some r" and "is_terminal (ar_status r)"
  shows "find_run (foldl (\<lambda>t op. run_step states versions op t) t ops) i = Some r"
  using runs.after_final[OF assms] by (simp add: run_steps_foldl)

definition ex_runs :: run_table where
  "ex_runs = foldl (\<lambda>t op. run_step {''s''} {''v''} op t) \<lparr>rn_rows = [], rn_next = 0\<rparr>
     [BeginOp 1 ''t'' ''s'' ''v'' ''ann'' 3, AbortOp 2 (Some 0) '' '']"

theorem finished_run_final_witness:
  "map_option ar_error (find_run (foldl (\<lambda>t op. run_step {''s''} {''v''} op t) ex_runs
     [FinishOp 3 (Some 0) \<lparr>fi_status = ApplyRunCommitted, fi_to_version = ''v'', fi_committed_serial = Some 4,
        fi_planned = 1, fi_applied = 1, fi_failed = 0, fi_error = []\<rparr>]) 0) = Some (Some ''aborted by operator'')"
proof -
  have ok: "runs_ok ex_runs" unfolding ex_runs_def by (rule apply_runs_well_typed)
  have "map_option (\<lambda>r. (ar_status r, ar_error r)) (find_run ex_runs 0) = Some (ApplyRunAborted, Some ''aborted by operator'')"
    by code_simp
  then obtain r where r: "find_run ex_runs 0 = Some r" "is_terminal (ar_status r)" "ar_error r = Some ''aborted by operator''"
    by (auto simp: is_terminal_def)
  show ?thesis by (simp only: finished_run_final[OF ok r(1,2)] r(3) option.map)
qed

end
