(* ===== verification/Orchestrator.thy ===== *)
theory Orchestrator
  imports StoreDelta StateCodec ApplyRuns Reservations
begin

text \<open>
  The apply orchestrator (\<^verbatim>\<open>internal/apply/orchestrator.go\<close>): one \<^verbatim>\<open>kl apply\<close> from the options to the audit
  row, as a client of the store.

  Everything the store keeps is one \<open>world\<close>. Between two calls other clients run; what they do to the world at
  each point is the argument \<open>others\<close>, a function of the point. Terraform, the clock, and the cancellation of
  the context are arguments too. Times are nanoseconds.
\<close>

section \<open>Options and the footprint\<close>

record apply_options =
  op_spec :: "plan_spec option"
  op_state_name :: string
  op_actor :: string
  op_work_dir :: string
  op_lease :: int
  op_wait :: int
  op_state_engine :: bool

datatype option_error = NoSpec | SpecVersion string | NoStateName | NoActor | NoWorkDir

definition validate_options :: "apply_options \<Rightarrow> (option_error, plan_spec) result" where
  "validate_options opts =
     (case op_spec opts of None \<Rightarrow> Inl NoSpec
      | Some spec \<Rightarrow>
          if sp_format_version spec \<noteq> current_spec_format_version then Inl (SpecVersion (sp_format_version spec))
          else if op_state_name opts = [] then Inl NoStateName
          else if op_actor opts = [] then Inl NoActor
          else if op_work_dir opts = [] then Inl NoWorkDir
          else Inr spec)"

definition second :: int where "second = 1000000000"

definition default_lease :: int where "default_lease = 15 * 60 * second"

definition effective_footprint :: "plan_spec \<Rightarrow> string set" where
  "effective_footprint spec =
     (let footprint = index_footprint_by_group (sp_hcl_footprint spec)
      in case sp_state_engine spec of None \<Rightarrow> footprint
         | Some se \<Rightarrow> footprint \<union> trimmed (se_fetch_addresses se) \<union> trimmed (se_config_required_nodes se) \<union>
             trimmed (se_removed_config_nodes se))"

text \<open>A mode that is not one of the two is refused by the table's CHECK constraint.\<close>

definition mode_of_text :: "string \<Rightarrow> reservation_mode option" where
  "mode_of_text m = (if m = ''read'' then Some ReservationRead else if m = ''write'' then Some ReservationWrite else None)"

definition reservations_from_spec :: "plan_spec \<Rightarrow> reservation list option" where
  "reservations_from_spec spec =
     decode_all (\<lambda>r. map_option (\<lambda>m. \<lparr>w_glob = pr_address r, w_mode = m\<rparr>) (mode_of_text (pr_mode r))) (sp_reservations spec)"

section \<open>Waiting for reservations\<close>

definition backoffs :: "int list" where
  "backoffs = [1 * second, 2 * second, 4 * second, 8 * second, 10 * second]"

definition backoff :: "nat \<Rightarrow> int" where
  "backoff iter = (let idx = iter - 1; idx = (if idx \<ge> length backoffs then length backoffs - 1 else idx) in backoffs ! idx)"

record wait_event =
  we_iteration :: nat
  we_elapsed :: int
  we_remaining :: int
  we_conflicts :: "active_reservation list"
  we_next_retry :: int

datatype acquire_outcome =
    Acquired
  | AcquireFailed reservation_error
  | AcquireCancelled

lemma backoff_bounds: "second \<le> backoff iter" "backoff iter \<le> 10 * second"
proof -
  have "(if iter - 1 \<ge> length backoffs then length backoffs - 1 else iter - 1) < length backoffs"
    by (simp add: backoffs_def)
  then have "backoff iter \<in> set backoffs" unfolding backoff_def Let_def by (rule nth_mem)
  then show "second \<le> backoff iter" "backoff iter \<le> 10 * second" by (auto simp: backoffs_def second_def)
qed

lemma wait_progress: "0 < deadline - now \<Longrightarrow> 0 < min (backoff iter) (deadline - now)"
  using backoff_bounds(1)[of iter] by (simp add: second_def)

lemma wait_progress_delay: "\<not> deadline \<le> now \<Longrightarrow> - min (backoff iter) (deadline - now) < int d"
  using wait_progress[of deadline now iter] by simp

text \<open>
  The loop after the first conflict. \<open>attempt iter now w\<close> is the call of the store at time \<open>now\<close>, \<open>delay iter\<close>
  how much later than its timer the sleep of this iteration ends (timers never fire early), and \<open>cancelled iter\<close>
  whether the context ends first. The result lists the progress events, one per iteration.
\<close>

function acquire_loop ::
    "(nat \<Rightarrow> int \<Rightarrow> 'w \<Rightarrow> (reservation_error, unit) result \<times> 'w) \<Rightarrow> (nat \<Rightarrow> nat) \<Rightarrow> (nat \<Rightarrow> bool) \<Rightarrow> int \<Rightarrow> int \<Rightarrow>
     nat \<Rightarrow> int \<Rightarrow> active_reservation list \<Rightarrow> 'w \<Rightarrow> acquire_outcome \<times> wait_event list \<times> 'w" where
  "acquire_loop attempt delay cancelled start deadline iter now conflicts w =
     (let remaining = deadline - now;
          sleep = min (backoff iter) remaining;
          event = \<lparr>we_iteration = iter, we_elapsed = now - start, we_remaining = remaining,
            we_conflicts = conflicts, we_next_retry = sleep\<rparr>
      in if remaining \<le> 0 then (AcquireFailed (ReservationConflict conflicts), [event], w)
         else if cancelled iter then (AcquireCancelled, [event], w)
         else
           (let now' = now + sleep + int (delay iter)
            in case attempt iter now' w of
                 (Inr u, w') \<Rightarrow> (Acquired, [event], w')
               | (Inl (ReservationConflict cs), w') \<Rightarrow>
                   (case acquire_loop attempt delay cancelled start deadline (Suc iter) now' cs w' of
                      (out, events, w'') \<Rightarrow> (out, event # events, w''))
               | (Inl e, w') \<Rightarrow> (AcquireFailed e, [event], w')))"
  by pat_completeness auto

termination
  by (relation "measure (\<lambda>(attempt, delay, cancelled, start, deadline, iter, now, conflicts, w). nat (deadline - now))")
    (auto simp: wait_progress_delay)

declare acquire_loop.simps [simp del]

definition acquire_with_wait ::
    "(nat \<Rightarrow> int \<Rightarrow> 'w \<Rightarrow> (reservation_error, unit) result \<times> 'w) \<Rightarrow> (nat \<Rightarrow> nat) \<Rightarrow> (nat \<Rightarrow> bool) \<Rightarrow> int \<Rightarrow> int \<Rightarrow> 'w \<Rightarrow>
     acquire_outcome \<times> wait_event list \<times> 'w" where
  "acquire_with_wait attempt delay cancelled wait start w =
     (case attempt 0 start w of
        (Inr u, w') \<Rightarrow> (Acquired, [], w')
      | (Inl e, w') \<Rightarrow>
          if wait \<le> 0 then (AcquireFailed e, [], w')
          else (case e of
              ReservationConflict cs \<Rightarrow> acquire_loop attempt delay cancelled start (start + wait) 1 start cs w'
            | _ \<Rightarrow> (AcquireFailed e, [], w')))"

text \<open>
  A wait that fails with a conflict has waited the whole budget: its last event has no time left. It has a
  bounded number of iterations, numbered from the first one, and every sleep it announces is at most ten
  seconds and ends at the deadline.
\<close>

lemma acquire_loop_cases:
  assumes "acquire_loop attempt delay cancelled start deadline iter now cs w = (out, events, w')"
  obtains (timeout) e where "deadline - now \<le> 0" "out = AcquireFailed (ReservationConflict cs)" "events = [e]"
      "we_remaining e = deadline - now" "we_iteration e = iter" "we_next_retry e = min (backoff iter) (deadline - now)"
    | (stop) e where "0 < deadline - now" "events = [e]" "out \<noteq> AcquireFailed (ReservationConflict cs')"
      "we_remaining e = deadline - now" "we_iteration e = iter" "we_next_retry e = min (backoff iter) (deadline - now)"
    | (again) e cs1 w1 evs now' where "0 < deadline - now" "events = e # evs"
      "now' = now + min (backoff iter) (deadline - now) + int (delay iter)"
      "acquire_loop attempt delay cancelled start deadline (Suc iter) now' cs1 w1 = (out, evs, w')"
      "we_remaining e = deadline - now" "we_iteration e = iter" "we_next_retry e = min (backoff iter) (deadline - now)"
proof -
  let ?now = "now + min (backoff iter) (deadline - now) + int (delay iter)"
  let ?e = "\<lparr>we_iteration = iter, we_elapsed = now - start, we_remaining = deadline - now, we_conflicts = cs,
    we_next_retry = min (backoff iter) (deadline - now)\<rparr>"
  note u = assms[unfolded acquire_loop.simps[of attempt delay cancelled start deadline iter now cs w] Let_def]
  show thesis
  proof (cases "deadline - now \<le> 0 \<or> cancelled iter")
    case True
    then show thesis using u timeout[of ?e] stop[of ?e] by (auto split: if_splits)
  next
    case False
    obtain r w1 where r: "attempt iter ?now w = (r, w1)" by (cases "attempt iter ?now w")
    show thesis
    proof (cases "\<exists>cs1. r = Inl (ReservationConflict cs1)")
      case True
      then obtain cs1 where cs1: "r = Inl (ReservationConflict cs1)" by blast
      obtain o1 evs w2 where rec: "acquire_loop attempt delay cancelled start deadline (Suc iter) ?now cs1 w1 = (o1, evs, w2)"
        by (cases "acquire_loop attempt delay cancelled start deadline (Suc iter) ?now cs1 w1")
      show thesis using u False r cs1 rec again[of ?e evs ?now cs1 w1] by simp
    next
      case other: False
      then show thesis using u False r stop[of ?e] by (auto split: sum.splits reservation_error.splits)
    qed
  qed
qed

lemma later_nearer: "0 < deadline - now \<Longrightarrow> now' = now + min (backoff iter) (deadline - now) + int d \<Longrightarrow>
    nat (deadline - now') < nat (deadline - now)"
  using wait_progress[of deadline now iter] by simp

lemma acquire_loop_patient:
  "acquire_loop attempt delay cancelled start deadline iter now cs w = (AcquireFailed (ReservationConflict cs'), events, w') \<Longrightarrow>
   events \<noteq> [] \<and> we_remaining (last events) \<le> 0"
proof (induction "nat (deadline - now)" arbitrary: now iter cs w events rule: less_induct)
  case less
  from less.prems show ?case
  proof (cases rule: acquire_loop_cases[where cs' = cs'])
    case (again e cs1 w1 evs now')
    then show ?thesis using less.hyps[OF later_nearer[OF again(1,3)] again(4)] by simp
  qed simp_all
qed

lemma acquire_loop_events:
  "acquire_loop attempt delay cancelled start deadline iter now cs w = (out, events, w') \<Longrightarrow>
   map we_iteration events = [iter ..< iter + length events] \<and>
   (\<forall>e \<in> set events. we_next_retry e \<le> 10 * second \<and> we_next_retry e \<le> we_remaining e) \<and>
   int (length events) * second \<le> (if deadline - now \<le> 0 then second else deadline - now + 2 * second)"
proof (induction "nat (deadline - now)" arbitrary: now iter cs w events rule: less_induct)
  case less
  have sec: "0 < second" by (simp add: second_def)
  from less.prems show ?case
  proof (cases rule: acquire_loop_cases[where cs' = cs])
    case (again e cs1 w1 evs now')
    note ih = less.hyps[OF later_nearer[OF again(1,3)] again(4)]
    have "int (length events) * second \<le> deadline - now + 2 * second"
    proof (cases "deadline - now \<le> backoff iter")
      case True
      then have "deadline - now' \<le> 0" using again(3) by simp
      then have "int (length evs) * second \<le> second" using ih by simp
      then show ?thesis using again(1,2) by (simp add: algebra_simps)
    next
      case False
      then have "now' = now + backoff iter + int (delay iter)" "second < deadline - now"
        using again(3) backoff_bounds(1)[of iter] by simp_all
      then have "deadline - now' \<le> deadline - now - second" "0 \<le> deadline - now - second"
        using backoff_bounds(1)[of iter] by simp_all
      then have "int (length evs) * second \<le> deadline - now - second + 2 * second" using ih sec by (auto split: if_splits)
      then show ?thesis using again(2) by (simp add: algebra_simps)
    qed
    moreover have "[iter ..< iter + length events] = iter # [Suc iter ..< Suc iter + length evs]"
      using again(2) by (simp add: upt_conv_Cons del: upt_Suc)
    ultimately show ?thesis
      using ih again(1,2,5-7) backoff_bounds(2)[of iter] by (auto simp: min_def)
  qed (use sec backoff_bounds(2)[of iter] in \<open>auto simp: min_def\<close>)
qed

text \<open>C39: The reservation wait is bounded and patient. With a positive budget the loop ends, after at most
  budget + 2 seconds' worth of iterations of at least a second, which it reports numbered from 1, each with a
  next retry within ten seconds and within the remaining time; and it gives up with a conflict only after an
  attempt at or after the deadline, whatever the store answers and however late the timers fire.\<close>

theorem acquire_wait_bounded:
  assumes "acquire_with_wait attempt delay cancelled wait start w = (out, events, w')" and "0 < wait"
  shows "map we_iteration events = [1 ..< Suc (length events)] \<and>
     (\<forall>e \<in> set events. we_next_retry e \<le> 10 * second \<and> we_next_retry e \<le> we_remaining e) \<and>
     int (length events) * second \<le> wait + 2 * second \<and>
     (\<forall>cs. out = AcquireFailed (ReservationConflict cs) \<longrightarrow> events \<noteq> [] \<and> we_remaining (last events) \<le> 0)"
proof -
  obtain r w1 where r: "attempt 0 start w = (r, w1)" by (cases "attempt 0 start w")
  have sec: "0 < second" by (simp add: second_def)
  show ?thesis
  proof (cases "\<exists>cs. r = Inl (ReservationConflict cs)")
    case True
    then obtain cs where "r = Inl (ReservationConflict cs)" by blast
    then have l: "acquire_loop attempt delay cancelled start (start + wait) 1 start cs w1 = (out, events, w')"
      using assms r by (simp add: acquire_with_wait_def)
    show ?thesis
      using acquire_loop_events[OF l] acquire_loop_patient[of attempt delay cancelled start "start + wait" 1 start cs w1] l assms(2)
      by auto
  next
    case False
    then have "events = []" "\<forall>cs. out \<noteq> AcquireFailed (ReservationConflict cs)"
      using assms r by (auto simp: acquire_with_wait_def split: sum.splits reservation_error.splits)
    then show ?thesis using sec assms(2) by simp
  qed
qed

definition ex_conflict :: active_reservation where
  "ex_conflict = \<lparr>a_id = 0, a_state_id = ''s'', a_glob = ''*'', a_mode = ReservationWrite, a_holder = ''bob'',
     a_apply_id = ''p2'', a_acquired_at = 0, a_expires_at = 100 * second\<rparr>"

theorem acquire_wait_bounded_witness:
  "case acquire_with_wait (\<lambda>iter now w. (Inl (ReservationConflict [ex_conflict]), w)) (\<lambda>iter. 0) (\<lambda>iter. False) (5 * second) 0 () of
     (out, events, w') \<Rightarrow> length events \<le> 7 \<and> we_remaining (last events) \<le> 0"
proof -
  obtain out events w' where e: "acquire_with_wait (\<lambda>iter now w. (Inl (ReservationConflict [ex_conflict]), w)) (\<lambda>iter. 0)
      (\<lambda>iter. False) (5 * second) 0 () = (out, events, w')" by (metis prod_cases3)
  moreover have "out = AcquireFailed (ReservationConflict [ex_conflict])"
    using e by (simp add: acquire_with_wait_def acquire_loop.simps second_def backoff_def backoffs_def Let_def)
  moreover note acquire_wait_bounded[OF e]
  ultimately show ?thesis by (auto simp: second_def)
qed

section \<open>The heartbeat\<close>

definition heartbeat_interval :: "int \<Rightarrow> int" where
  "heartbeat_interval lease =
     (let interval = lease div 3
      in if interval \<le> 0 then second else if interval > 30 * second then 30 * second
         else if interval < second then second else interval)"

lemma heartbeat_interval_bounds: "second \<le> heartbeat_interval lease \<and> heartbeat_interval lease \<le> 30 * second"
  by (simp add: heartbeat_interval_def second_def Let_def)

lemma heartbeat_before_expiry: "3 * second \<le> lease \<Longrightarrow> 3 * heartbeat_interval lease \<le> lease"
  by (auto simp: heartbeat_interval_def second_def Let_def)

end
