(* ===== verification/Evolution.thy ===== *)
theory Evolution
  imports StoreDelta
begin

text \<open>
  How the store evolves under all clients together, seen from one state: nothing that deletes states, and
  writes that bring a serial bring the next one (as every commit of the apply orchestrator does). Rows keep
  their identity, versions are only appended, and the first version that anyone appends to a state has the
  next serial. This is what makes the serial a compare-and-swap.
\<close>

section \<open>The steps of other clients\<close>

definition serial_next :: "principal \<Rightarrow> string \<Rightarrow> tf_state \<Rightarrow> db \<Rightarrow> bool" where
  "serial_next p name s d \<longleftrightarrow> st_serial s \<le> 0 \<or> (\<forall>r \<in> set (db_states d).
     sr_tenant r = pr_tenant p \<and> sr_name r = name \<longrightarrow> st_serial s = next_serial d (sr_id r))"

inductive evolves :: "(json \<Rightarrow> string) \<Rightarrow> (string \<Rightarrow> string) \<Rightarrow> (instance_map \<Rightarrow> instance_map) \<Rightarrow> db \<Rightarrow> db \<Rightarrow> bool"
  for js sha iter d0 where
  Refl: "evolves js sha iter d0 d0"
| Lock: "evolves js sha iter d0 d \<Longrightarrow> run_lock_op js op d = Inr d' \<Longrightarrow> evolves js sha iter d0 d'"
| Write: "evolves js sha iter d0 d \<Longrightarrow> plain_resources (st_resources s) \<Longrightarrow>
    write_state js sha iter p name lock_id (Some s) source actor d = Inr d' \<Longrightarrow> evolves js sha iter d0 d'"
| Apply: "evolves js sha iter d0 d \<Longrightarrow> plain_resources (st_resources s) \<Longrightarrow> serial_next p name s d \<Longrightarrow>
    write_state_for_apply js sha iter p name a b (Some s) source actor d = Inr d' \<Longrightarrow> evolves js sha iter d0 d'"
| Delta: "evolves js sha iter d0 d \<Longrightarrow> plain_resources (st_resources s) \<Longrightarrow> serial_next p name s d \<Longrightarrow>
    write_state_delta_for_apply js sha p name a b (Some s) source actor changed d = Inr d' \<Longrightarrow> evolves js sha iter d0 d'"
| EngineDelta: "evolves js sha iter d0 d \<Longrightarrow> plain_resources (dc_resources delta) \<Longrightarrow>
    write_engine_delta_for_apply js sha p name a b delta source actor d = Inr d' \<Longrightarrow> evolves js sha iter d0 d'"
| Ensure: "evolves js sha iter d0 d \<Longrightarrow> ensure_current_state_info js sha p name d = Inr (info, d') \<Longrightarrow> evolves js sha iter d0 d'"
| Exclusive: "evolves js sha iter d0 d \<Longrightarrow> set_exclusive_locks p name on d = Inr d' \<Longrightarrow> evolves js sha iter d0 d'"
| Coexistence: "evolves js sha iter d0 d \<Longrightarrow> set_coexistence_mode p name m d = Inr d' \<Longrightarrow> evolves js sha iter d0 d'"
| Rollback: "evolves js sha iter d0 d \<Longrightarrow> replay_version js sha p tags name ref actor d = Inr (vi, d') \<Longrightarrow> evolves js sha iter d0 d'"
| Remove: "evolves js sha iter d0 d \<Longrightarrow> docs_addressed d \<Longrightarrow>
    apply_remove p name a actor id d = Inr (vo, preview, d') \<Longrightarrow> evolves js sha iter d0 d'"
| ResourceRollback: "evolves js sha iter d0 d \<Longrightarrow> docs_addressed d \<Longrightarrow> hash_separates (db_ledger d) \<Longrightarrow> trim_space a = a \<Longrightarrow> a \<noteq> [] \<Longrightarrow>
    (\<And>r v. find_state d (pr_tenant p) name = Some r \<Longrightarrow> resolve_version d tags (pr_tenant p) (sr_id r) ref = Inr v \<Longrightarrow> vr_serial v > 0) \<Longrightarrow>
    replay_resource_version p tags name a ref actor id d = Inr (vo, rp, d') \<Longrightarrow> evolves js sha iter d0 d'"

section \<open>Identity of rows\<close>

definition state_keys :: "db \<Rightarrow> (string \<times> string \<times> string \<times> string) set" where
  "state_keys d = (\<lambda>r. (sr_id r, sr_tenant r, sr_name r, sr_status r)) ` set (db_states d)"

lemma state_keys_update:
  assumes "same_keys f"
  shows "state_keys (update_state sid f d) = state_keys d"
proof -
  let ?g = "\<lambda>r. if sr_id r = sid then f r else r" and ?k = "\<lambda>r. (sr_id r, sr_tenant r, sr_name r, sr_status r)"
  have "?k (?g r) = ?k r" for r using assms by (simp add: same_keys_def)
  then have e: "map ?k (map ?g (db_states d)) = map ?k (db_states d)" by simp
  have u: "db_states (update_state sid f d) = map ?g (db_states d)" by (simp add: update_state_def)
  show ?thesis unfolding state_keys_def u using arg_cong[OF e, of set] by (simp only: set_map)
qed

lemma state_keys_cong: "db_states d' = db_states d \<Longrightarrow> state_keys d' = state_keys d"
  by (simp add: state_keys_def)

lemma state_keys_set_current: "db_states d' = db_states (set_current sid vid d) \<Longrightarrow> state_keys d' = state_keys d"
  using state_keys_cong[of d' "set_current sid vid d"] state_keys_update[of "\<lambda>r. r\<lparr>sr_current := Some vid\<rparr>" sid d]
  by (simp add: set_current_def same_keys_def)

lemma state_keys_upsert:
  assumes "upsert_state p name l c d = Inr (sid, d')"
  shows "state_keys d \<subseteq> state_keys d'"
  using assms
proof (cases rule: upsert_state_cases)
  case (old r)
  then show ?thesis using state_keys_update by (simp add: same_keys_def)
next
  case (new r)
  then show ?thesis by (auto simp: state_keys_def add_state_def)
qed

lemma find_state_keys:
  assumes "db_ok d'" and "state_keys d \<subseteq> state_keys d'" and "find_state d tenant name = Some r"
  shows "\<exists>r'. find_state d' tenant name = Some r' \<and> sr_id r' = sr_id r"
proof -
  have "(sr_id r, tenant, name, ''active'') \<in> state_keys d"
    unfolding state_keys_def using find_state_SomeD[OF assms(3)] by (intro image_eqI[of _ _ r]) simp_all
  then have "(sr_id r, tenant, name, ''active'') \<in> state_keys d'" using assms(2) by blast
  then obtain r' where r': "r' \<in> set (db_states d')" "sr_id r' = sr_id r" "sr_tenant r' = tenant" "sr_name r' = name"
    "sr_status r' = ''active''" unfolding state_keys_def by (elim imageE) simp
  then show ?thesis using find_state_mem[of d' r'] assms(1) by (auto simp: db_ok_def)
qed

section \<open>One step appends at most one version, at the next serial\<close>

definition serials_ok :: "db \<Rightarrow> bool" where
  "serials_ok d \<longleftrightarrow> (\<forall>v \<in> set (db_versions d). 0 \<le> vr_serial v)"

definition appends :: "db \<Rightarrow> db \<Rightarrow> bool" where
  "appends d d' \<longleftrightarrow> state_keys d \<subseteq> state_keys d' \<and>
     (db_versions d' = db_versions d \<or> (\<exists>v. db_versions d' = db_versions d @ [v] \<and>
        (0 \<le> vr_serial v \<or> vr_serial v = next_serial d (vr_state_id v)) \<and>
        (state_serials d (vr_state_id v) \<noteq> [] \<longrightarrow> vr_serial v = next_serial d (vr_state_id v))))"

lemma next_serial_nonneg: "serials_ok d \<Longrightarrow> 0 \<le> next_serial d sid"
proof (cases "state_serials d sid = []")
  case False
  moreover assume "serials_ok d"
  moreover have "max_serial d sid \<in> set (state_serials d sid)"
    unfolding max_serial_Max[OF False] using False by (intro Max_in) simp_all
  ultimately have "0 \<le> max_serial d sid" by (auto simp: serials_ok_def state_serials_def)
  then show ?thesis by (simp add: next_serial_def)
qed (simp add: next_serial_def max_serial_def)

lemma appends_serials: "serials_ok d \<Longrightarrow> appends d d' \<Longrightarrow> serials_ok d'"
  using next_serial_nonneg by (fastforce simp: appends_def serials_ok_def)

lemma appends_quiet: "state_keys d \<subseteq> state_keys d' \<Longrightarrow> db_versions d' = db_versions d \<Longrightarrow> appends d d'"
  by (simp add: appends_def)

lemma serials_cong: "db_versions d' = db_versions d \<Longrightarrow> state_serials d' i = state_serials d i \<and> next_serial d' i = next_serial d i"
  by (simp add: state_serials_def next_serial_def max_serial_def)

lemma upsert_appends: "upsert_state p name l c d = Inr (sid, d') \<Longrightarrow> appends d d' \<and> db_versions d' = db_versions d"
  using state_keys_upsert upsert_state_frame(1) appends_quiet by metis

lemma lock_op_appends:
  assumes "run_lock_op js op d = Inr d'"
  shows "appends d d'"
proof (cases op)
  case (LockOp p name info now)
  then have "acquire_lock p name info now d = Inr d'" using assms by simp
  then show ?thesis
  proof (cases rule: acquire_lockE)
    case (1 sid d1 src)
    then show ?thesis using upsert_appends[OF 1(1)] state_keys_cong[of d' d1] by (simp add: appends_def)
  qed
next
  case (EngineLockOp p name a h sc cr now)
  then have "acquire_engine_lock js p name a h sc cr now d = Inr d'" using assms by simp
  then show ?thesis
  proof (cases rule: acquire_engine_lockE)
    case (held sid e)
    then show ?thesis using upsert_appends by blast
  next
    case (taken sid d1 info)
    then show ?thesis using upsert_appends[OF taken(1)] state_keys_cong[of d' d1] by (simp add: appends_def)
  qed
qed (use assms in \<open>auto intro!: appends_quiet simp: release_lock_def force_release_lock_def release_engine_lock_def
    Let_def state_keys_def split: option.splits if_splits\<close>)

lemma upsert_then_append:
  assumes "upsert_state p name l c d = Inr (sid, d1)" and "db_versions d' = db_versions d1 @ [v]" and "vr_state_id v = sid"
    and "db_states d' = db_states (set_current sid vid d1)"
    and "state_serials d sid \<noteq> [] \<Longrightarrow> vr_serial v = next_serial d1 sid"
    and "0 \<le> vr_serial v \<or> vr_serial v = next_serial d1 sid"
  shows "appends d d'"
proof -
  have "db_versions d1 = db_versions d" "state_keys d \<subseteq> state_keys d1" using upsert_appends[OF assms(1)] by (simp_all add: appends_def)
  then show ?thesis
    using assms(2,3,5,6) state_keys_set_current[OF assms(4)] serials_cong[of d1 d sid] by (simp add: appends_def)
qed

lemma serial_next_upsert:
  assumes "serial_next p name s d" and "st_serial s > 0" and "upsert_state p name l c d = Inr (sid, d1)"
    and "db_ok d" and "state_serials d sid \<noteq> []"
  shows "st_serial s = next_serial d1 sid"
  using assms(3)
proof (cases rule: upsert_state_cases)
  case (old r)
  have "db_versions d1 = db_versions d" using upsert_appends[OF assms(3)] by simp
  then show ?thesis using assms(1,2) old(1-4) serials_cong[of d1 d sid] by (auto simp: serial_next_def)
next
  case (new r)
  then show ?thesis using no_state_no_serials[OF assms(4)] fresh_not_state[OF assms(4)] assms(5) by simp
qed

lemma write_appends:
  assumes ok: "db_ok d" and w: "write_state_internal js sha iter p name lock_id (Some s) source actor bypass d = Inr d'"
    and n: "bypass \<Longrightarrow> serial_next p name s d"
  shows "appends d d'"
  using w
proof (rule write_state_internalE)
  fix parsed sid d1 stored v
  assume e: "parse_state (Some s) = Inr parsed"
    "upsert_state p name (st_lineage parsed) (creator_of source) d = Inr (sid, d1)"
    "route_write iter d1 sid lock_id bypass parsed = Inr stored"
    "vr_serial v = assign_serial d1 sid bypass stored" "full_write js sha d1 sid v d'"
  have p: "parsed = s" using parse_state_version[OF e(1)] by simp
  have "vr_serial v = next_serial d1 sid" if "state_serials d sid \<noteq> []"
  proof (cases "bypass \<and> st_serial stored > 0")
    case True
    then have "stored = s" using e(3) p by (simp add: route_write_def)
    then show ?thesis using True e(4) serial_next_upsert[OF n _ e(2) ok that] by (simp add: assign_serial_def)
  qed (use e(4) in \<open>auto simp: assign_serial_def\<close>)
  moreover have "0 \<le> vr_serial v \<or> vr_serial v = next_serial d1 sid" using e(4) by (simp add: assign_serial_def)
  ultimately show ?thesis
    using upsert_then_append[OF e(2), of d' v "vr_id v"] e(5) by (simp add: full_write_def)
qed

lemma commit_delta_appends:
  assumes "upsert_state p name l c d = Inr (sid, d1)"
    and "commit_delta js sha p name sid serial parsed changed source actor d1 = Inr d'"
    and "state_serials d sid \<noteq> [] \<Longrightarrow> serial = next_serial d1 sid" and "0 \<le> serial \<or> serial = next_serial d1 sid"
  shows "appends d d'"
  using assms(2)
proof (cases rule: commit_deltaE)
  case (1 rows L resources v)
  then show ?thesis using upsert_then_append[OF assms(1) 1(11,6,13)] assms(3,4) 1(7) by simp
qed

lemma delta_appends:
  assumes ok: "db_ok d" and w: "write_state_delta_for_apply js sha p name a b (Some s) source actor changed d = Inr d'"
    and n: "serial_next p name s d"
  shows "appends d d'"
proof -
  obtain parsed where 1: "parse_state (Some s) = Inr parsed" using w by (auto simp: write_state_delta_for_apply_def)
  have p: "parsed = s" using parse_state_version[OF 1] by simp
  obtain sid d1 where 2: "upsert_state p name (st_lineage s) (creator_of source) d = Inr (sid, d1)"
    using w 1 p by (auto simp: write_state_delta_for_apply_def)
  have "commit_delta js sha p name sid (if st_serial s > 0 then st_serial s else next_serial d1 sid) s (dedupe_sorted changed) source actor d1 = Inr d'"
    using w 1 2 p by (auto simp: write_state_delta_for_apply_def Let_def)
  then show ?thesis using commit_delta_appends[OF 2] serial_next_upsert[OF n _ 2 ok] by simp
qed

lemma engine_delta_appends:
  assumes "write_engine_delta_for_apply js sha p name a b delta source actor d = Inr d'"
  shows "appends d d'"
  using assms
proof (cases rule: write_engine_deltaE)
  case (1 sid d1 current)
  then show ?thesis using commit_delta_appends[OF 1(1,3)] by simp
qed

lemma ensure_appends:
  assumes inv: "store_inv js sha d" and w: "ensure_current_state_info js sha p name d = Inr (info, d')"
  shows "appends d d'"
proof (cases "get_current_state_info d (pr_tenant p) name")
  case (Inr i)
  then show ?thesis using w appends_quiet[of d d] by (simp add: ensure_current_state_info_def)
next
  case (Inl e)
  obtain sid d1 where u: "upsert_state p name [] CreatorKL d = Inr (sid, d1)"
    using w Inl by (auto simp: ensure_current_state_info_def split: if_splits)
  obtain r where r: "state_by_id d1 sid = Some r"
    using w Inl u by (auto simp: ensure_current_state_info_def split: if_splits option.splits)
  show ?thesis
  proof (cases "current_version d1 r")
    case (Some v)
    then show ?thesis using w Inl u r upsert_appends[OF u] by (auto simp: ensure_current_state_info_def split: if_splits)
  next
    case None
    let ?e = "empty_state []"
    obtain vid d2 d3 where w2: "insert_version p sid 0 (st_terraform_version ?e) ?e ''genesis'' ''system'' d1 = Inr (vid, d2)"
      "normalize_state js sha (pr_tenant p) sid vid 0 ?e d2 = Inr d3" "d' = set_current sid vid d3"
      using w Inl u r None by (auto simp: ensure_current_state_info_def Let_def split: if_splits)
    from w2(1) obtain v where v0: "vr_serial v = 0" and v: "vr_state_id v = sid" "d2 = d1\<lparr>db_versions := db_versions d1 @ [v], db_next := Suc (db_next d1)\<rparr>"
      by (rule insert_versionE)
    from w2(2) have n: "db_versions d3 = db_versions d2" "db_states d3 = db_states d2" by (rule normalize_stateE; simp)+
    have "store_inv js sha d1" using quiet_inv[OF inv quiet_upsert[OF _ u]] inv by (simp add: store_inv_def store_ok_def)
    then have "state_serials d sid = []"
      using no_current_no_serials[OF _ r None] upsert_appends[OF u] serials_cong[of d1 d sid] by simp
    then show ?thesis
      using upsert_then_append[OF u, of d' v vid] v n w2(3) v0 set_current_states[of d3 d1 sid vid] by simp
  qed
qed

lemma next_version_appends:
  assumes "db_versions d' = db_versions d @ [v]" and "vr_serial v = next_serial d (vr_state_id v)"
    and "db_states d' = db_states (set_current sid vid d)"
  shows "appends d d'"
  using assms(1,2) state_keys_set_current[OF assms(3)] by (simp add: appends_def)

lemma derived_appends: "derived_version p sid (next_serial d sid) patched source actor ids ins d = Inr d' \<Longrightarrow> appends d d'"
proof (erule derived_versionE)
  fix L v
  assume "vr_state_id v = sid" "vr_serial v = next_serial d sid" "db_versions d' = db_versions d @ [v]"
    "db_states d' = db_states (set_current sid (vr_id v) d)"
  then show "appends d d'" using next_version_appends[of d' d v sid "vr_id v"] by simp
qed

lemma replay_version_appends: "replay_version js sha p tags name ref actor d = Inr (vi, d') \<Longrightarrow> appends d d'"
  by (erule replay_versionE) (rule next_version_appends, auto simp: full_write_def)

lemma remove_appends:
  assumes "apply_remove p name a actor id d = Inr (vo, preview, d')"
  shows "appends d d'"
proof -
  have "d' = d \<or> (\<exists>sid s. apply_remove_delta p name (trim_space a) actor id d = Inr (sid, s, d'))"
    using assms by (auto simp: apply_remove_def split: if_splits)
  then show ?thesis
  proof (elim disjE exE)
    fix sid s assume "apply_remove_delta p name (trim_space a) actor id d = Inr (sid, s, d')"
    then show ?thesis by (rule apply_remove_deltaE) (simp_all add: appends_quiet derived_appends)
  qed (simp add: appends_quiet)
qed

lemma resource_rollback_appends: "replay_resource_version p tags name a ref actor id d = Inr (vo, rp, d') \<Longrightarrow> appends d d'"
  by (erule replay_resource_versionE) (simp add: appends_quiet, rule derived_appends)

lemma serial_next_ahead: "serial_next p name s d \<Longrightarrow> serial_ahead p name s d"
  using next_serial_fresh by (auto simp: serial_next_def serial_ahead_def)

lemma store_inv_db_ok: "store_inv js sha d \<Longrightarrow> db_ok d"
  by (simp add: store_inv_def store_ok_def)

text \<open>Every step of another client keeps the store's invariant and appends.\<close>

lemma evolves_induct:
  assumes "evolves js sha iter d0 d" and "store_inv js sha d0" and v: "visits iter" and "P d0"
    and step: "\<And>d d'. store_inv js sha d \<Longrightarrow> appends d d' \<Longrightarrow> P d \<Longrightarrow> P d'"
  shows "store_inv js sha d \<and> P d"
  using assms(1)
proof (induction rule: evolves.induct)
  case Refl
  then show ?case using assms(2,4) by simp
next
  case (Lock d op d')
  have "store_inv js sha d'"
    using Lock.IH quiet_inv[OF _ quiet_lock_op[OF _ Lock.hyps(2)]] store_inv_db_ok by blast
  then show ?case using step[OF _ lock_op_appends[OF Lock.hyps(2)]] Lock.IH by blast
next
  case (Write d s p name lock_id source actor d')
  have ok: "db_ok d" using Write.IH store_inv_db_ok by blast
  have "store_inv js sha d'"
    by (rule write_state_internal_inv[OF _ Write.hyps(3)[unfolded write_state_def] v]) (use Write in auto)
  moreover have "appends d d'" by (rule write_appends[OF ok Write.hyps(3)[unfolded write_state_def]]) simp
  ultimately show ?case using step Write.IH by blast
next
  case (Apply d s p name a b source actor d')
  have ok: "db_ok d" using Apply.IH store_inv_db_ok by blast
  have "store_inv js sha d'"
    by (rule write_state_internal_inv[OF _ Apply.hyps(4)[unfolded write_state_for_apply_def] v]) (use Apply serial_next_ahead in auto)
  moreover have "appends d d'" by (rule write_appends[OF ok Apply.hyps(4)[unfolded write_state_for_apply_def] Apply.hyps(3)])
  ultimately show ?case using step Apply.IH by blast
next
  case (Delta d s p name a b source actor changed d')
  have ok: "db_ok d" using Delta.IH store_inv_db_ok by blast
  have "store_inv js sha d'" by (rule write_state_delta_inv[OF _ Delta.hyps(4)]) (use Delta serial_next_ahead in auto)
  then show ?case using step[OF _ delta_appends[OF ok Delta.hyps(4,3)]] Delta.IH by blast
next
  case (EngineDelta d delta p name a b source actor d')
  then show ?case
    using step[OF _ engine_delta_appends[OF EngineDelta.hyps(3)]] write_engine_delta_inv[OF _ EngineDelta.hyps(3,2)] by blast
next
  case (Ensure d p name info d')
  then have inv: "store_inv js sha d" by blast
  then show ?case using step[OF inv ensure_appends[OF inv Ensure.hyps(2)]] ensure_current_inv[OF inv Ensure.hyps(2)] Ensure.IH by blast
next
  case (Exclusive d p name on d')
  have "appends d d'"
    using Exclusive.hyps(2) by (auto simp: set_exclusive_locks_def Let_def same_keys_def state_keys_update
        split: if_splits option.splits intro!: appends_quiet)
  then show ?case using step modes_inv(1)[OF _ Exclusive.hyps(2)] Exclusive.IH by blast
next
  case (Coexistence d p name m d')
  have "appends d d'"
    using Coexistence.hyps(2) by (auto simp: set_coexistence_mode_def Let_def same_keys_def state_keys_update
        split: if_splits option.splits intro!: appends_quiet)
  then show ?case using step modes_inv(2)[OF _ Coexistence.hyps(2)] Coexistence.IH by blast
next
  case (Rollback d p tags name ref actor vi d')
  then show ?case using step[OF _ replay_version_appends[OF Rollback.hyps(2)]] replay_version_inv[OF _ Rollback.hyps(2)] by blast
next
  case (Remove d p name a actor vo preview d')
  then show ?case using step[OF _ remove_appends[OF Remove.hyps(3)]] apply_remove_inv[OF _ Remove.hyps(2,3)] by blast
next
  case (ResourceRollback d a p name tags ref actor vo rp d')
  have inv: "store_inv js sha d" and Pd: "P d" using ResourceRollback.IH by blast+
  have "store_inv js sha d'" by (rule replay_resource_inv[OF inv ResourceRollback.hyps(2-5,7,6)])
  then show ?case using step[OF inv resource_rollback_appends[OF ResourceRollback.hyps(7)] Pd] by blast
qed

lemma evolves_keys:
  "evolves js sha iter d0 d \<Longrightarrow> store_inv js sha d0 \<Longrightarrow> visits iter \<Longrightarrow> store_inv js sha d \<and> state_keys d0 \<subseteq> state_keys d"
  by (erule evolves_induct) (auto simp: appends_def)

section \<open>Compare and swap\<close>

definition grows :: "string \<Rightarrow> db \<Rightarrow> db \<Rightarrow> bool" where
  "grows sid d0 d \<longleftrightarrow> (\<exists>vs. db_versions d = db_versions d0 @ vs \<and>
     (filter (\<lambda>v. vr_state_id v = sid) vs = [] \<or> next_serial d0 sid \<in> vr_serial ` set (filter (\<lambda>v. vr_state_id v = sid) vs)))"

lemma grows_append:
  assumes "grows sid d0 d" and "appends d d'" and "state_serials d0 sid \<noteq> []"
  shows "grows sid d0 d'"
proof -
  obtain vs where vs: "db_versions d = db_versions d0 @ vs"
    "filter (\<lambda>v. vr_state_id v = sid) vs = [] \<or> next_serial d0 sid \<in> vr_serial ` set (filter (\<lambda>v. vr_state_id v = sid) vs)"
    using assms(1) by (auto simp: grows_def)
  show ?thesis
  proof (cases "db_versions d' = db_versions d")
    case True
    then show ?thesis using assms(1) by (simp add: grows_def)
  next
    case False
    then obtain v where v: "db_versions d' = db_versions d @ [v]"
      "state_serials d (vr_state_id v) \<noteq> [] \<longrightarrow> vr_serial v = next_serial d (vr_state_id v)"
      using assms(2) by (auto simp: appends_def)
    have "next_serial d0 sid \<in> vr_serial ` set (filter (\<lambda>v. vr_state_id v = sid) (vs @ [v]))"
      if "vr_state_id v = sid" "filter (\<lambda>v. vr_state_id v = sid) vs = []"
    proof -
      have "state_serials d sid = state_serials d0 sid" using vs(1) that(2) by (simp add: state_serials_def)
      then have "vr_serial v = next_serial d0 sid" using v(2) that(1) assms(3) by (simp add: next_serial_def max_serial_def)
      then show ?thesis using that(1) by simp
    qed
    then have "grows sid d0 d'" unfolding grows_def
      using vs v(1) by (intro exI[of _ "vs @ [v]"]) auto
    then show ?thesis .
  qed
qed

lemma evolves_grows:
  assumes "evolves js sha iter d0 d" and "store_inv js sha d0" and "visits iter" and "state_serials d0 sid \<noteq> []"
  shows "grows sid d0 d"
proof -
  have "grows sid d0 d0" by (simp add: grows_def)
  then show ?thesis
    using evolves_induct[OF assms(1-3), of "grows sid d0"] grows_append assms(4) by blast
qed

text \<open>As long as nobody has taken the serial after the one that was read, the trunk is still the one that was read.\<close>

lemma evolves_cas:
  assumes ev: "evolves js sha iter d0 d" and inv: "store_inv js sha d0" and v: "visits iter"
    and cur: "read_current_version_raw d0 sid = Some (t, raw)" and free: "t + 1 \<notin> set (state_serials d sid)"
  shows "read_current_version_raw d sid = Some (t, raw) \<and> next_serial d sid = t + 1"
proof -
  obtain r0 where r0: "r0 \<in> set (db_states d0)" "sr_id r0 = sid"
    using cur state_by_id_SomeD[of d0 sid] by (auto simp: read_current_version_raw_def split: option.splits)
  obtain u where u: "u \<in> set (db_versions d0)" "vr_serial u = t" "vr_raw u = raw" "vr_state_id u = sid" "t = max_serial d0 sid"
    using read_currentD[OF inv r0(1)] cur r0(2) by metis
  have ne: "state_serials d0 sid \<noteq> []" using u(1,4) by (auto simp: state_serials_def filter_empty_conv)
  have n0: "next_serial d0 sid = t + 1" by (simp add: next_serial_def u(5))
  obtain vs where vs: "db_versions d = db_versions d0 @ vs" "filter (\<lambda>v. vr_state_id v = sid) vs = []"
    using evolves_grows[OF ev inv v ne] free n0 by (auto simp: grows_def state_serials_def)
  have same: "state_serials d sid = state_serials d0 sid" using vs by (simp add: state_serials_def)
  have inv': "store_inv js sha d" and keys: "state_keys d0 \<subseteq> state_keys d" using evolves_keys[OF ev inv v] by blast+
  have "sr_id r0 \<in> (\<lambda>(i, t, n, s). i) ` state_keys d0" using r0(1) by (force simp: state_keys_def)
  then have "sid \<in> (\<lambda>(i, t, n, s). i) ` state_keys d" using keys r0(2) by blast
  then obtain r where r: "r \<in> set (db_states d)" "sr_id r = sid" by (auto simp: state_keys_def)
  have ok: "db_ok d" and cl: "current_latest d r" using inv' r(1) by (simp_all add: store_inv_def store_ok_def)
  obtain c where c: "c \<in> set (db_versions d)" "sr_current r = Some (vr_id c)" "vr_state_id c = sid" "vr_serial c = max_serial d sid"
    using cl r(2) same ne by (auto simp: current_latest_def)
  have mx: "max_serial d sid = t" using same u(5) by (simp add: max_serial_def)
  have "u \<in> set (db_versions d)" using u(1) vs(1) by simp
  then have "c = u"
    using ok c(1,3,4) u(2,4) mx by (auto simp: db_ok_def versions_ok_def distinct_map inj_on_def)
  moreover have "state_by_id d sid = Some r" using state_by_id_mem[of d r] r ok by (simp add: db_ok_def)
  moreover have "version_by_id d (vr_id c) = Some c"
    using find_distinct_key[of vr_id "db_versions d" c] c(1) ok by (simp add: version_by_id_def db_ok_def versions_ok_def)
  ultimately show ?thesis
    using c(2) u(2,3) same n0 by (simp add: read_current_version_raw_def current_version_def next_serial_def max_serial_def)
qed

lemma evolves_serials:
  "evolves js sha iter d0 d \<Longrightarrow> store_inv js sha d0 \<Longrightarrow> visits iter \<Longrightarrow> serials_ok d0 \<Longrightarrow> serials_ok d"
  using evolves_induct[of js sha iter d0 d serials_ok] appends_serials by blast

end
