(* ===== verification/ApplyFlow.thy ===== *)
theory ApplyFlow
  imports Orchestrator Evolution
begin

text \<open>
  The run of one apply (\<^verbatim>\<open>Run\<close> and \<^verbatim>\<open>runInner\<close> of \<^verbatim>\<open>internal/apply/orchestrator.go\<close>) against the store, with other
  clients acting between any two of its calls. The outcome of Terraform, of the working directory and of the
  heartbeat's clock are arguments; the local files are not modelled.
\<close>

section \<open>The world of an apply\<close>

record world =
  w_db :: db
  w_runs :: run_table
  w_res :: reservation_table

datatype point =
    AtBegin
  | AtLock
  | AtAcquire nat
  | AtGuard
  | AtTick nat
  | AtStatus
  | AtRead nat
  | AtWrite nat
  | AtLookup
  | AtFinish

datatype run_failure =
    BadOptions option_error
  | TrunkUnreadable store_error
  | BeginFailed run_error
  | CoarseLockFailed store_error
  | BadReservations
  | ReservationsFailed reservation_error
  | WaitCancelled
  | LeaseLost nat
  | AbortedInHeartbeat
  | WrongState
  | GuardUnreadable store_error
  | GuardFailed staleness_error
  | PlanStale "string list"
  | TerraformFailed bool
  | AbortedByOperator
  | Surprises "string list"
  | MergeRefused commit_error
  | IntentRefused intent_error
  | DeltaRefused delta_error
  | WriteFailed store_error
  | RetriesExhausted
  | VersionUnknown store_error

record apply_env =
  en_js :: "json \<Rightarrow> string"
  en_sha :: "string \<Rightarrow> string"
  en_iter :: "instance_map \<Rightarrow> instance_map"
  en_principal :: principal
  en_others :: "point \<Rightarrow> world \<Rightarrow> world"
  en_now :: "point \<Rightarrow> int"
  en_delay :: "nat \<Rightarrow> nat"
  en_cancelled :: "nat \<Rightarrow> bool"
  en_ticks :: nat
  en_terraform :: "trunk_state \<Rightarrow> (bool, trunk_state \<times> terraform_run_intent option) result"
  en_error_text :: "run_failure \<Rightarrow> string"

section \<open>The heartbeat\<close>

text \<open>
  One tick per interval while Terraform runs: an aborted run or a lost lease ends the apply. The ticks are
  numbered, and the heartbeat stops when Terraform has ended after \<open>n\<close> of them.
\<close>

fun heartbeat :: "apply_env \<Rightarrow> nat \<Rightarrow> int \<Rightarrow> nat \<Rightarrow> nat \<Rightarrow> nat \<Rightarrow> world \<Rightarrow> (run_failure, unit) result \<times> world" where
  "heartbeat E run_id lease expected 0 k w = (Inr (), w)"
| "heartbeat E run_id lease expected (Suc n) k w0 =
     (let w = en_others E (AtTick k) w0
      in if get_apply_run_status (Some run_id) (w_runs w) = Inr ApplyRunAborted then (Inl AbortedInHeartbeat, w)
         else
           (case renew_reservations (en_now E (AtTick k)) (en_now E (AtTick k)) (show_nat run_id) lease (w_res w) of
              (renewed, res) \<Rightarrow>
                let w = w\<lparr>w_res := res\<rparr>
                in if renewed < expected then (Inl (LeaseLost renewed), w)
                   else heartbeat E run_id lease expected n (Suc k) w))"

definition renew_leases :: "apply_env \<Rightarrow> nat \<Rightarrow> int \<Rightarrow> nat \<Rightarrow> world \<Rightarrow> (run_failure, unit) result \<times> world" where
  "renew_leases E run_id lease expected w =
     (if expected = 0 then (Inr (), w) else heartbeat E run_id lease expected (en_ticks E) 0 w)"

section \<open>Reading the trunk\<close>

definition read_trunk ::
    "apply_env \<Rightarrow> string \<Rightarrow> world \<Rightarrow> (run_failure, (string \<times> string \<times> int \<times> tf_state) \<times> world) result" where
  "read_trunk E name w =
     (case ensure_current_state_info (en_js E) (en_sha E) (en_principal E) name (w_db w) of
        Inl e \<Rightarrow> Inl (TrunkUnreadable e)
      | Inr (info, d) \<Rightarrow> Inr (info, w\<lparr>w_db := d\<rparr>))"

text \<open>The staleness guard: with a plan made at \<open>source\<close>, nothing of the read set may have changed since.\<close>

definition staleness_guard ::
    "apply_env \<Rightarrow> string \<Rightarrow> plan_spec \<Rightarrow> int \<Rightarrow> tf_state \<Rightarrow> db \<Rightarrow> (run_failure, unit) result" where
  "staleness_guard E name spec serial raw d =
     (case sp_source_serial spec of None \<Rightarrow> Inr ()
      | Some source \<Rightarrow>
          if source \<le> 0 then Inr ()
          else if serial < source then Inl WrongState
          else if serial > source then
            (case get_state_raw_at_serial d (pr_tenant (en_principal E)) name source of
               Inl e \<Rightarrow> Inl (GuardUnreadable e)
             | Inr base \<Rightarrow>
                 (case changed_read_set_addresses (Some (trunk_of_state base)) (Some (trunk_of_state raw)) (sp_read_set spec) of
                    Inl e \<Rightarrow> Inl (GuardFailed e)
                  | Inr changed \<Rightarrow> if changed \<noteq> [] then Inl (PlanStale changed) else Inr ()))
          else Inr ())"

section \<open>The commit loop\<close>

datatype commit_payload =
    Snapshot merge_result
  | Native int terraform_run_intent delta_commit

definition payload_serial :: "commit_payload \<Rightarrow> int" where
  "payload_serial c = (case c of Snapshot m \<Rightarrow> mr_new_serial m | Native s i delta \<Rightarrow> s)"

definition payload_applied :: "commit_payload \<Rightarrow> string list" where
  "payload_applied c = (case c of Snapshot m \<Rightarrow> mr_applied m | Native s i delta \<Rightarrow> ti_exact_write_set i)"

definition prepare_commit ::
    "bool \<Rightarrow> plan_spec \<Rightarrow> string set \<Rightarrow> trunk_state \<Rightarrow> terraform_run_intent option \<Rightarrow> int \<Rightarrow> trunk_state \<Rightarrow>
     (run_failure, commit_payload) result" where
  "prepare_commit engine spec footprint post intent fresh_serial fresh =
     (if engine then
        bind_result (lift_error IntentRefused (validate_trusted_intent (sp_write_set spec) intent)) (\<lambda>_.
        bind_result (lift_error DeltaRefused (build_delta_commit post (ti_exact_write_set (the intent)) (ti_delete_set (the intent)))) (\<lambda>delta.
        bind_result (lift_error DeltaRefused (attach_output_delta delta fresh post)) (\<lambda>delta.
          Inr (Native (fresh_serial + 1) (the intent) delta))))
      else
        bind_result (lift_error MergeRefused (build_merged_state fresh post (sp_write_set spec) footprint)) (\<lambda>m. Inr (Snapshot m)))"

definition send_commit ::
    "apply_env \<Rightarrow> string \<Rightarrow> string \<Rightarrow> string \<Rightarrow> int \<Rightarrow> commit_payload \<Rightarrow> db \<Rightarrow> (store_error, db) result" where
  "send_commit E name actor apply_id fresh_serial payload d =
     (case payload of
        Snapshot m \<Rightarrow> write_state_for_apply (en_js E) (en_sha E) (en_iter E) (en_principal E) name apply_id fresh_serial
          (state_of_trunk (mr_merged m)) ''apply'' actor d
      | Native s i delta \<Rightarrow> write_engine_delta_for_apply (en_js E) (en_sha E) (en_principal E) name apply_id fresh_serial
          delta ''state-engine-apply'' actor d)"

definition max_commit_retries :: nat where "max_commit_retries = 8"

fun commit_loop ::
    "apply_env \<Rightarrow> string \<Rightarrow> string \<Rightarrow> string \<Rightarrow> (int \<Rightarrow> trunk_state \<Rightarrow> (run_failure, commit_payload) result) \<Rightarrow> nat \<Rightarrow> nat \<Rightarrow>
     world \<Rightarrow> (run_failure, commit_payload) result \<times> world" where
  "commit_loop E name actor apply_id prepare 0 attempt w = (Inl RetriesExhausted, w)"
| "commit_loop E name actor apply_id prepare (Suc n) attempt w0 =
     (let w1 = en_others E (AtRead attempt) w0
      in case read_trunk E name w1 of
           Inl e \<Rightarrow> (Inl e, w1)
         | Inr ((sid, vid, serial, raw), w2) \<Rightarrow>
             (case prepare serial (trunk_of_state raw) of
                Inl e \<Rightarrow> (Inl e, w2)
              | Inr payload \<Rightarrow>
                  (let w3 = en_others E (AtWrite attempt) w2
                   in case send_commit E name actor apply_id serial payload (w_db w3) of
                        Inr d \<Rightarrow> (Inr payload, w3\<lparr>w_db := d\<rparr>)
                      | Inl e \<Rightarrow>
                          if e = SerialConflict then commit_loop E name actor apply_id prepare n (Suc attempt) w3
                          else (Inl (WriteFailed e), w3))))"

section \<open>What a read of the trunk tells\<close>

lemma ensure_reads:
  assumes inv: "store_inv js sha d0" and w: "ensure_current_state_info js sha p name d0 = Inr ((sid, vid, serial, raw), d')"
  shows "read_current_version_raw d' sid = Some (serial, raw) \<and> (\<exists>r. find_state d' (pr_tenant p) name = Some r \<and> sr_id r = sid)"
proof (cases "get_current_state_info d0 (pr_tenant p) name")
  case (Inr i)
  then have d: "d' = d0" "i = (sid, vid, serial, raw)" using w by (simp_all add: ensure_current_state_info_def)
  then obtain r v where r: "find_state d0 (pr_tenant p) name = Some r" "current_version d0 r = Some v" "sr_id r = sid"
    "vr_serial v = serial" "vr_raw v = raw"
    using Inr by (auto simp: get_current_state_info_def split: option.splits)
  have "state_by_id d0 sid = Some r"
    using state_by_id_mem[of d0 r] find_state_SomeD[OF r(1)] store_inv_db_ok[OF inv] r(3) by (auto simp: db_ok_def)
  then show ?thesis using r d(1) by (simp add: read_current_version_raw_def)
next
  case (Inl e)
  have db0: "db_ok d0" by (rule store_inv_db_ok[OF inv])
  obtain i d where u: "upsert_state p name [] CreatorKL d0 = Inr (i, d)"
    using w Inl by (auto simp: ensure_current_state_info_def split: if_splits)
  have db: "db_ok d" using upsert_state_ok[OF db0 u] by blast
  obtain r where f: "find_state d (pr_tenant p) name = Some r" "sr_id r = i" using upsert_find_state[OF db0 u] by blast
  have s: "state_by_id d i = Some r"
    using state_by_id_mem[of d r] find_state_SomeD[OF f(1)] db f(2) by (auto simp: db_ok_def)
  show ?thesis
  proof (cases "current_version d r")
    case (Some v)
    then have "d' = d" "sid = i" "vr_serial v = serial" "vr_raw v = raw"
      using w Inl u s by (auto simp: ensure_current_state_info_def split: if_splits)
    then show ?thesis using f s Some by (simp add: read_current_version_raw_def)
  next
    case None
    let ?e = "empty_state []"
    obtain vid' d2 d3 where w2: "insert_version p i 0 (st_terraform_version ?e) ?e ''genesis'' ''system'' d = Inr (vid', d2)"
      "normalize_state js sha (pr_tenant p) i vid' 0 ?e d2 = Inr d3" "d' = set_current i vid' d3"
      "sid = i" "serial = 0" "raw = ?e"
      using w Inl u s None by (auto simp: ensure_current_state_info_def Let_def split: if_splits)
    from w2(1) obtain v where v: "vr_id v = fresh_id d" "vr_serial v = 0" "vr_raw v = ?e" "vid' = fresh_id d"
      "d2 = d\<lparr>db_versions := db_versions d @ [v], db_next := Suc (db_next d)\<rparr>" by (rule insert_versionE)
    from w2(2) have n: "db_versions d3 = db_versions d2" "db_states d3 = db_states d2" by (rule normalize_stateE; simp)+
    have st: "db_states d' = db_states (set_current i (vr_id v) d)"
      using set_current_states[of d3 d i vid'] n(2) v by (simp add: w2(3))
    have "i \<in> state_ids d" using upsert_state_ok[OF db0 u] by blast
    then have "read_current_version_raw d' i = Some (0, ?e)"
      using read_current_added[OF db _ v(1) st] n(1) v by (simp add: w2(3))
    moreover have "find_state d' (pr_tenant p) name = find_state (set_current i (vr_id v) d) (pr_tenant p) name"
      by (simp add: find_state_def st)
    moreover have "db_ok d'" using ensure_current_inv[OF inv w] by (rule store_inv_db_ok)
    ultimately show ?thesis
      using find_state_keys[OF _ _ f(1), of d'] state_keys_set_current[OF st] f(2) w2(4-6) by auto
  qed
qed

lemma read_trunkD:
  assumes "store_inv (en_js E) (en_sha E) (w_db w)" and "read_trunk E name w = Inr ((sid, vid, serial, raw), w2)"
  shows "store_inv (en_js E) (en_sha E) (w_db w2)" "read_current_version_raw (w_db w2) sid = Some (serial, raw)"
    "\<exists>r. find_state (w_db w2) (pr_tenant (en_principal E)) name = Some r \<and> sr_id r = sid" "st_serial raw = serial"
    "evolves (en_js E) (en_sha E) (en_iter E) (w_db w) (w_db w2)"
proof -
  have e: "ensure_current_state_info (en_js E) (en_sha E) (en_principal E) name (w_db w) = Inr ((sid, vid, serial, raw), w_db w2)"
    using assms(2) by (auto simp: read_trunk_def split: sum.splits)
  show inv: "store_inv (en_js E) (en_sha E) (w_db w2)" by (rule ensure_current_inv[OF assms(1) e])
  show cur: "read_current_version_raw (w_db w2) sid = Some (serial, raw)"
    "\<exists>r. find_state (w_db w2) (pr_tenant (en_principal E)) name = Some r \<and> sr_id r = sid"
    using ensure_reads[OF assms(1) e] by blast+
  obtain v where "v \<in> set (db_versions (w_db w2))" "vr_raw v = raw" "vr_serial v = serial" using read_current_mem[OF cur(1)] by blast
  then show "st_serial raw = serial" using inv by (auto simp: store_inv_def faithful_def shows_version_def)
  show "evolves (en_js E) (en_sha E) (en_iter E) (w_db w) (w_db w2)" by (rule evolves.Ensure[OF evolves.Refl e])
qed

lemma evolves_trans: "evolves js sha iter d1 d2 \<Longrightarrow> evolves js sha iter d0 d1 \<Longrightarrow> evolves js sha iter d0 d2"
  by (induction rule: evolves.induct) (blast intro: evolves.intros)+

section \<open>The commit loop\<close>

text \<open>Other clients act on the store only through its operations.\<close>

definition others_ok :: "apply_env \<Rightarrow> bool" where
  "others_ok E \<longleftrightarrow> visits (en_iter E) \<and> (\<forall>pt w. evolves (en_js E) (en_sha E) (en_iter E) (w_db w) (w_db (en_others E pt w)))"

lemma commit_loop_success:
  assumes o: "others_ok E"
  shows "commit_loop E name actor apply_id prepare n k w0 = (Inr payload, w') \<Longrightarrow> store_inv (en_js E) (en_sha E) (w_db w0) \<Longrightarrow>
    \<exists>attempt sid vid serial raw w1 w2 d3. read_trunk E name w1 = Inr ((sid, vid, serial, raw), w2) \<and>
      store_inv (en_js E) (en_sha E) (w_db w1) \<and> evolves (en_js E) (en_sha E) (en_iter E) (w_db w0) (w_db w1) \<and>
      prepare serial (trunk_of_state raw) = Inr payload \<and> d3 = w_db (en_others E (AtWrite attempt) w2) \<and>
      send_commit E name actor apply_id serial payload d3 = Inr (w_db w')"
proof (induction n arbitrary: k w0)
  case (Suc n)
  let ?w1 = "en_others E (AtRead k) w0"
  have v: "visits (en_iter E)" and ev: "evolves (en_js E) (en_sha E) (en_iter E) (w_db w) (w_db (en_others E pt w))" for pt w
    using o by (simp_all add: others_ok_def)
  have inv1: "store_inv (en_js E) (en_sha E) (w_db ?w1)" using evolves_keys[OF ev Suc.prems(2) v] by blast
  obtain sid vid serial raw w2 where r: "read_trunk E name ?w1 = Inr ((sid, vid, serial, raw), w2)"
    using Suc.prems(1) by (auto simp: Let_def split: sum.splits)
  note rd = read_trunkD[OF inv1 r]
  obtain pl where pl: "prepare serial (trunk_of_state raw) = Inr pl"
    using Suc.prems(1) r by (auto simp: Let_def split: sum.splits)
  let ?w3 = "en_others E (AtWrite k) w2"
  show ?case
  proof (cases "send_commit E name actor apply_id serial pl (w_db ?w3)")
    case (Inr d)
    then show ?thesis using Suc.prems(1) r pl inv1 ev[of w0 "AtRead k"]
      by (intro exI[of _ k] exI[of _ sid] exI[of _ vid] exI[of _ serial] exI[of _ raw] exI[of _ ?w1] exI[of _ w2]
          exI[of _ "w_db ?w3"]) (auto simp: Let_def)
  next
    case (Inl e)
    then have rec: "commit_loop E name actor apply_id prepare n (Suc k) ?w3 = (Inr payload, w')"
      using Suc.prems(1) r pl by (auto simp: Let_def split: if_splits)
    have inv3: "store_inv (en_js E) (en_sha E) (w_db ?w3)" using evolves_keys[OF ev rd(1) v] by blast
    have "evolves (en_js E) (en_sha E) (en_iter E) (w_db w0) (w_db ?w3)"
      using evolves_trans[OF ev[of w2 "AtWrite k"] evolves_trans[OF rd(5) ev[of w0 "AtRead k"]]] .
    then show ?thesis using Suc.IH[OF rec inv3] evolves_trans by blast
  qed
qed simp

text \<open>A write of a snapshot at the serial after the trunk's directly follows that trunk.\<close>

lemma snapshot_sent:
  assumes inv: "store_inv (en_js E) (en_sha E) d2" and v: "visits (en_iter E)"
    and ev: "evolves (en_js E) (en_sha E) (en_iter E) d2 d3" and pos: "0 < t + 1" and ser: "ts_serial (mr_merged m) = t + 1"
    and cur: "read_current_version_raw d2 sid = Some (t, trunk)"
    and f: "\<exists>r. find_state d2 (pr_tenant (en_principal E)) name = Some r \<and> sr_id r = sid"
    and sent: "send_commit E name actor a t (Snapshot m) d3 = Inr d'"
  shows "\<exists>stored. read_current_version_raw d3 sid = Some (t, trunk) \<and>
     read_current_version_raw d' sid = Some (t + 1, stored) \<and> state_of_trunk (mr_merged m) = Some stored"
proof -
  have inv3: "store_inv (en_js E) (en_sha E) d3" and keys: "state_keys d2 \<subseteq> state_keys d3"
    using evolves_keys[OF ev inv v] by blast+
  have db3: "db_ok d3" by (rule store_inv_db_ok[OF inv3])
  obtain r where r: "find_state d3 (pr_tenant (en_principal E)) name = Some r" "sr_id r = sid"
    using find_state_keys[OF db3 keys] f by metis
  obtain parsed where p: "state_of_trunk (mr_merged m) = Some parsed"
    using sent by (cases "state_of_trunk (mr_merged m)") (simp_all add: send_commit_def write_state_for_apply_def
        write_state_internal_def parse_state_def)
  have ps: "st_serial parsed = t + 1" using p ser by (auto simp: state_of_trunk_def split: sum.splits)
  have w: "write_state_internal (en_js E) (en_sha E) (en_iter E) (en_principal E) name [] (Some parsed) ''apply'' actor True d3 = Inr d'"
    using sent p by (simp add: send_commit_def write_state_for_apply_def)
  show ?thesis using db3 r(1) w
  proof (cases rule: write_stateE)
    case (1 d1 stored v1)
    note k = upsert_known[OF db3 r(1) 1(1)]
    have st: "stored = parsed" using 1(3) by (simp add: route_write_def)
    then have vs: "vr_serial v1 = t + 1" using 1(5) ps pos by (simp add: assign_serial_def)
    have fw: "db_versions d' = db_versions d1 @ [v1]" "vr_id v1 = fresh_id d1"
      "db_states d' = db_states (set_current sid (vr_id v1) d1)" "t + 1 \<notin> set (state_serials d1 sid)"
      using 1(7) r(2) vs by (simp_all add: full_write_def)
    have "sid \<in> state_ids d1" using k(2) upsert_state_frame(6)[OF 1(1)] r(2) by blast
    then have "read_current_version_raw d' sid = Some (t + 1, vr_raw v1)"
      using read_current_added[OF 1(2) fw(1-3)] vs by simp
    moreover have "vr_raw v1 = parsed" using 1(6) st vs ps by simp
    moreover have "read_current_version_raw d3 sid = Some (t, trunk)"
      using evolves_cas[OF ev inv v cur] fw(4) k(5) r(2) by simp
    ultimately show ?thesis using p by simp
  qed
qed

text \<open>C2: No lost update in a parallel apply. When the commit loop of a snapshot apply succeeds, with any
  number of other clients writing between its reads and its writes, then the version it stored directly
  follows the trunk it was merged from: the trunk before the write is the one that was read, the new serial is
  one above it and is the serial the apply reports, and the stored document has the post-apply row at every
  group of the write set and the trunk's own row everywhere else.\<close>

theorem apply_commit_no_lost_update:
  assumes "others_ok E" and "store_inv (en_js E) (en_sha E) (w_db w0)" and "serials_ok (w_db w0)"
    and "commit_loop E name actor apply_id (\<lambda>serial fresh. prepare_commit False spec footprint post intent serial fresh) n k w0
      = (Inr payload, w')"
  shows "\<exists>before sid t trunk m stored. payload = Snapshot m \<and> payload_serial payload = t + 1 \<and>
     evolves (en_js E) (en_sha E) (en_iter E) (w_db w0) before \<and>
     send_commit E name actor apply_id t payload before = Inr (w_db w') \<and>
     read_current_version_raw before sid = Some (t, trunk) \<and>
     read_current_version_raw (w_db w') sid = Some (t + 1, stored) \<and> state_of_trunk (mr_merged m) = Some stored \<and>
     (\<forall>a. index_resources (ts_resources (mr_merged m)) a =
        (if a \<in> index_footprint_by_group (sp_write_set spec) then index_resources (ts_resources post) a
         else index_resources (ts_resources (trunk_of_state trunk)) a))"
proof -
  obtain attempt sid vid t trunk w1 w2 d3 where s: "read_trunk E name w1 = Inr ((sid, vid, t, trunk), w2)"
    "store_inv (en_js E) (en_sha E) (w_db w1)" "evolves (en_js E) (en_sha E) (en_iter E) (w_db w0) (w_db w1)"
    "prepare_commit False spec footprint post intent t (trunk_of_state trunk) = Inr payload"
    "d3 = w_db (en_others E (AtWrite attempt) w2)" "send_commit E name actor apply_id t payload d3 = Inr (w_db w')"
    using commit_loop_success[OF assms(1,4,2)] by auto
  have v: "visits (en_iter E)" and ev: "evolves (en_js E) (en_sha E) (en_iter E) (w_db w2) d3"
    using assms(1) s(5) by (simp_all add: others_ok_def)
  note rd = read_trunkD[OF s(2,1)]
  obtain m where m: "payload = Snapshot m" "build_merged_state (trunk_of_state trunk) post (sp_write_set spec) footprint = Inr m"
    using s(4) by (auto simp: prepare_commit_def)
  note rows = merged_rows[OF m(2)]
  have ser: "ts_serial (mr_merged m) = t + 1" "mr_new_serial m = t + 1"
    using rows rd(4) by (simp_all add: trunk_of_state_def)
  have "serials_ok (w_db w2)"
    using evolves_serials[OF evolves_trans[OF rd(5) s(3)] assms(2) v assms(3)] .
  moreover obtain u where "u \<in> set (db_versions (w_db w2))" "vr_serial u = t" using read_current_mem[OF rd(2)] by blast
  ultimately have pos: "0 < t + 1" by (auto simp: serials_ok_def)
  from snapshot_sent[OF rd(1) v ev pos ser(1) rd(2,3) s(6)[unfolded m(1)]] obtain stored where
    "read_current_version_raw d3 sid = Some (t, trunk)" "read_current_version_raw (w_db w') sid = Some (t + 1, stored)"
    "state_of_trunk (mr_merged m) = Some stored" by blast
  then show ?thesis
    using m s(6) ser(2) rows evolves_trans[OF ev evolves_trans[OF rd(5) s(3)]]
    by (intro exI[of _ d3] exI[of _ sid] exI[of _ t] exI[of _ trunk] exI[of _ m] exI[of _ stored])
      (simp add: payload_serial_def)
qed

text \<open>A run where another client's write lands between the first read and the first write.\<close>

definition flow_start :: world where
  "flow_start = \<lparr>w_db = projr (run_write [] (run_doc 1 1) empty_db), w_runs = \<lparr>rn_rows = [], rn_next = 0\<rparr>,
     w_res = empty_reservations\<rparr>"

definition flow_others :: "point \<Rightarrow> world \<Rightarrow> world" where
  "flow_others pt w = (if pt = AtWrite 0 then
     (case run_write [] (run_doc 1 2) (w_db w) of Inl e \<Rightarrow> w | Inr d \<Rightarrow> w\<lparr>w_db := d\<rparr>) else w)"

definition flow_env :: apply_env where
  "flow_env = \<lparr>en_js = (\<lambda>j. case j of JNum n \<Rightarrow> show_int n | _ \<Rightarrow> []), en_sha = id, en_iter = id,
     en_principal = run_principal, en_others = flow_others, en_now = (\<lambda>pt. 0), en_delay = (\<lambda>i. 0),
     en_cancelled = (\<lambda>i. False), en_ticks = 1,
     en_terraform = (\<lambda>sl. Inr (trunk_of_state (run_doc 9 1), None)), en_error_text = (\<lambda>e. ''failed'')\<rparr>"

definition flow_spec :: plan_spec where
  "flow_spec = (build_spec \<lparr>pf_format_version = ''1.2'', pf_terraform_version = ''1.9.0'', pf_resource_changes = [],
     pf_planned_root = PlannedModule [] [], pf_config_root = ConfigModule [] [], pf_variables = []\<rparr>
     \<lparr>in_config_dir = ''d'', in_state_name = ''s'', in_source_serial = None, in_explicit_vars = [], in_pin_all_vars = False\<rparr>)
     \<lparr>sp_write_set := [''t.a''], sp_hcl_footprint := [''t.a'', ''t.b''],
      sp_reservations := [\<lparr>pr_address = ''t.a'', pr_mode = ''write''\<rparr>]\<rparr>"

definition flow_commit :: "(run_failure, commit_payload) result \<times> world" where
  "flow_commit = commit_loop flow_env ''s'' ''ann'' ''0''
     (\<lambda>serial fresh. prepare_commit False flow_spec {''t.a'', ''t.b''} (trunk_of_state (run_doc 9 1)) None serial fresh) 8 0 flow_start"

lemma flow_commit_values: "\<not> isl (fst flow_commit)"
  "run_values (Inr (w_db (snd flow_commit))) = [(1, [Some (JNum 1), Some (JNum 1)]), (2, [Some (JNum 1), Some (JNum 2)]),
     (3, [Some (JNum 9), Some (JNum 2)])]"
  by code_simp+

lemma flow_others_ok: "others_ok flow_env"
proof -
  have "evolves (en_js flow_env) (en_sha flow_env) (en_iter flow_env) (w_db w) (w_db (flow_others pt w))" for pt w
  proof (cases "pt = AtWrite 0 \<and> \<not> isl (run_write [] (run_doc 1 2) (w_db w))")
    case True
    then obtain d where d: "run_write [] (run_doc 1 2) (w_db w) = Inr d" using not_isl_Inr by blast
    have "evolves (en_js flow_env) (en_sha flow_env) (en_iter flow_env) (w_db w) d"
      using evolves.Write[OF evolves.Refl run_doc_plain d[unfolded run_write_def]] by (simp add: flow_env_def)
    then show ?thesis using True d by (simp add: flow_others_def)
  next
    case False
    then have "flow_others pt w = w"
      by (cases "run_write [] (run_doc 1 2) (w_db w)") (auto simp: flow_others_def)
    then show ?thesis by (simp add: evolves.Refl)
  qed
  then show ?thesis by (simp add: others_ok_def flow_env_def visits_def)
qed

lemma flow_start_ok: "store_inv (en_js flow_env) (en_sha flow_env) (w_db flow_start)" "serials_ok (w_db flow_start)"
proof -
  have "\<not> isl (run_write [] (run_doc 1 1) empty_db)" by code_simp
  then have d: "run_write [] (run_doc 1 1) empty_db = Inr (w_db flow_start)" using not_isl_Inr by (simp add: flow_start_def)
  show "store_inv (en_js flow_env) (en_sha flow_env) (w_db flow_start)"
    using reachable_inv[OF run_write_reachable[OF empty_db_reachable run_doc_plain d]] by (simp add: flow_env_def visits_def)
  have "list_all (\<lambda>v. 0 \<le> vr_serial v) (db_versions (w_db flow_start))" by code_simp
  then show "serials_ok (w_db flow_start)" by (simp add: serials_ok_def list_all_iff)
qed

theorem apply_commit_no_lost_update_witness:
  "\<exists>m. fst flow_commit = Inr (Snapshot m) \<and>
     index_resources (ts_resources (mr_merged m)) ''t.a'' = index_resources (ts_resources (trunk_of_state (run_doc 9 1))) ''t.a''"
proof -
  obtain payload w' where c: "flow_commit = (Inr payload, w')"
    using not_isl_Inr[OF flow_commit_values(1)] by (metis prod.collapse)
  have fp: "index_footprint_by_group (sp_write_set flow_spec) = {''t.a''}" by code_simp
  from apply_commit_no_lost_update[OF flow_others_ok flow_start_ok c[unfolded flow_commit_def]] obtain trunk m where
    "payload = Snapshot m" "\<forall>a. index_resources (ts_resources (mr_merged m)) a =
      (if a \<in> {''t.a''} then index_resources (ts_resources (trunk_of_state (run_doc 9 1))) a
       else index_resources (ts_resources (trunk_of_state trunk)) a)"
    unfolding fp by blast
  then have "index_resources (ts_resources (mr_merged m)) ''t.a'' = index_resources (ts_resources (trunk_of_state (run_doc 9 1))) ''t.a''"
    and "payload = Snapshot m" by simp_all
  then show ?thesis unfolding c by (intro exI[of _ m]) simp
qed

section \<open>The run\<close>

definition reserve_step ::
    "apply_env \<Rightarrow> string \<Rightarrow> string \<Rightarrow> string \<Rightarrow> reservation list \<Rightarrow> int \<Rightarrow> nat \<Rightarrow> int \<Rightarrow> world \<Rightarrow>
     (reservation_error, unit) result \<times> world" where
  "reserve_step E sid apply_id actor want lease k now w0 =
     (let w = en_others E (AtAcquire k) w0
      in case acquire_reservations (state_ids (w_db w)) now now sid apply_id actor want lease (w_res w) of
           (r, res) \<Rightarrow> (r, w\<lparr>w_res := res\<rparr>))"

definition reserve ::
    "apply_env \<Rightarrow> apply_options \<Rightarrow> plan_spec \<Rightarrow> string \<Rightarrow> string \<Rightarrow> int \<Rightarrow> world \<Rightarrow> (run_failure, nat) result \<times> world" where
  "reserve E opts spec sid apply_id lease w =
     (case reservations_from_spec spec of
        None \<Rightarrow> (Inl BadReservations, w)
      | Some want \<Rightarrow>
          (case acquire_with_wait (reserve_step E sid apply_id (op_actor opts) want lease) (en_delay E) (en_cancelled E)
                  (op_wait opts) (en_now E (AtAcquire 0)) w of
             (Acquired, events, w') \<Rightarrow> (Inr (length want), w')
           | (AcquireFailed e, events, w') \<Rightarrow> (Inl (ReservationsFailed e), w')
           | (AcquireCancelled, events, w') \<Rightarrow> (Inl WaitCancelled, w')))"

text \<open>From the working directory to the state Terraform leaves behind.\<close>

definition run_terraform ::
    "apply_env \<Rightarrow> nat \<Rightarrow> int \<Rightarrow> nat \<Rightarrow> trunk_state \<Rightarrow> world \<Rightarrow>
     (run_failure, trunk_state \<times> terraform_run_intent option) result \<times> world" where
  "run_terraform E run_id lease expected sl w0 =
     (case renew_leases E run_id lease expected w0 of
        (Inl e, w) \<Rightarrow> (Inl e, w)
      | (Inr u, w) \<Rightarrow>
          (case en_terraform E sl of
             Inl cancelled \<Rightarrow> (Inl (TerraformFailed cancelled), w)
           | Inr r \<Rightarrow>
               (let w = en_others E AtStatus w
                in if get_apply_run_status (Some run_id) (w_runs w) = Inr ApplyRunAborted then (Inl AbortedByOperator, w)
                   else (Inr r, w))))"

definition run_inner ::
    "apply_env \<Rightarrow> apply_options \<Rightarrow> plan_spec \<Rightarrow> string \<Rightarrow> nat \<Rightarrow> int \<Rightarrow> world \<Rightarrow>
     (run_failure, commit_payload \<times> string) result \<times> world" where
  "run_inner E opts spec sid run_id lease w0 =
     (let name = op_state_name opts; apply_id = show_nat run_id
      in case reserve E opts spec sid apply_id lease w0 of
        (Inl e, w) \<Rightarrow> (Inl e, w)
      | (Inr expected, w) \<Rightarrow>
        (let w = en_others E AtGuard w
         in case read_trunk E name w of
           Inl e \<Rightarrow> (Inl e, w)
         | Inr ((sid', vid', serial, raw), w) \<Rightarrow>
           (case staleness_guard E name spec serial raw (w_db w) of
              Inl e \<Rightarrow> (Inl e, w)
            | Inr u \<Rightarrow>
              (let footprint = effective_footprint spec
               in case run_terraform E run_id lease expected (build_slice (trunk_of_state raw) footprint) w of
                 (Inl e, w) \<Rightarrow> (Inl e, w)
               | (Inr (post, intent), w) \<Rightarrow>
                 if post_apply_surprises post footprint \<noteq> [] then (Inl (Surprises (post_apply_surprises post footprint)), w)
                 else
                   (case commit_loop E name (op_actor opts) apply_id
                           (prepare_commit (op_state_engine opts) spec footprint post intent) max_commit_retries 0 w of
                      (Inl e, w) \<Rightarrow> (Inl e, w)
                    | (Inr payload, w) \<Rightarrow>
                      (let w = en_others E AtLookup w
                       in case lookup_state_version_id (w_db w) sid (payload_serial payload) of
                            Inl e \<Rightarrow> (Inl (VersionUnknown e), w)
                          | Inr vid \<Rightarrow> (Inr (payload, vid), w)))))))"

text \<open>The audit row: committed on success, aborted when the context was cancelled, failed otherwise.\<close>

definition is_cancelled :: "run_failure \<Rightarrow> bool" where
  "is_cancelled e = (case e of WaitCancelled \<Rightarrow> True | TerraformFailed c \<Rightarrow> c | _ \<Rightarrow> False)"

definition finish_of :: "apply_env \<Rightarrow> nat \<Rightarrow> (run_failure, commit_payload \<times> string) result \<Rightarrow> finish_input" where
  "finish_of E planned r =
     (case r of
        Inr (payload, vid) \<Rightarrow> \<lparr>fi_status = ApplyRunCommitted, fi_to_version = vid,
          fi_committed_serial = Some (payload_serial payload), fi_planned = int planned,
          fi_applied = int (length (payload_applied payload)), fi_failed = 0, fi_error = []\<rparr>
      | Inl e \<Rightarrow> \<lparr>fi_status = (if is_cancelled e then ApplyRunAborted else ApplyRunFailed), fi_to_version = [],
          fi_committed_serial = None, fi_planned = int planned, fi_applied = 0, fi_failed = 0, fi_error = en_error_text E e\<rparr>)"

definition version_ids :: "db \<Rightarrow> string set" where
  "version_ids d = vr_id ` set (db_versions d)"

definition finalize_apply_run ::
    "apply_env \<Rightarrow> nat \<Rightarrow> nat \<Rightarrow> (run_failure, commit_payload \<times> string) result \<Rightarrow> world \<Rightarrow> world" where
  "finalize_apply_run E run_id planned r w0 =
     (let w = en_others E AtFinish w0
      in case finish_apply_run (version_ids (w_db w)) (nat (en_now E AtFinish)) (Some run_id) (finish_of E planned r) (w_runs w) of
           Inl e \<Rightarrow> w | Inr t \<Rightarrow> w\<lparr>w_runs := t\<rparr>)"

definition release_all :: "nat \<Rightarrow> world \<Rightarrow> world" where
  "release_all run_id w = w\<lparr>w_res := release_reservations (show_nat run_id) (w_res w)\<rparr>"

definition release_coarse_lock :: "apply_env \<Rightarrow> apply_options \<Rightarrow> nat \<Rightarrow> world \<Rightarrow> world" where
  "release_coarse_lock E opts run_id w =
     (if \<not> op_state_engine opts then w
      else (case release_engine_lock (en_principal E) (op_state_name opts) (show_nat run_id) (op_actor opts) (w_db w) of
          Inl e \<Rightarrow> w | Inr d \<Rightarrow> w\<lparr>w_db := d\<rparr>))"

definition acquire_coarse_lock ::
    "apply_env \<Rightarrow> apply_options \<Rightarrow> plan_spec \<Rightarrow> nat \<Rightarrow> world \<Rightarrow> (run_failure, unit) result \<times> world" where
  "acquire_coarse_lock E opts spec run_id w0 =
     (if \<not> op_state_engine opts then (Inr (), w0)
      else
        (let w = en_others E AtLock w0
         in case acquire_engine_lock (en_js E) (en_principal E) (op_state_name opts) (show_nat run_id) (op_actor opts)
                   (sp_write_set spec) (show_int (en_now E AtLock)) (nat (en_now E AtLock)) (w_db w) of
              Inl e \<Rightarrow> (Inl (CoarseLockFailed e), w) | Inr d \<Rightarrow> (Inr (), w\<lparr>w_db := d\<rparr>)))"

definition source_serial_of :: "plan_spec \<Rightarrow> int \<Rightarrow> int" where
  "source_serial_of spec serial = (case sp_source_serial spec of None \<Rightarrow> serial | Some s \<Rightarrow> if s > 0 then s else serial)"

definition run_apply ::
    "apply_env \<Rightarrow> apply_options \<Rightarrow> world \<Rightarrow> nat option \<times> (run_failure, commit_payload \<times> string) result \<times> world" where
  "run_apply E opts w0 =
     (case validate_options opts of
        Inl e \<Rightarrow> (None, Inl (BadOptions e), w0)
      | Inr spec \<Rightarrow>
        (let lease = (if op_lease opts \<le> 0 then default_lease else op_lease opts)
         in case read_trunk E (op_state_name opts) w0 of
           Inl e \<Rightarrow> (None, Inl e, w0)
         | Inr ((sid, vid, serial, raw), w1) \<Rightarrow>
           (let w2 = en_others E AtBegin w1
            in case begin_apply_run (state_ids (w_db w2)) (version_ids (w_db w2)) (nat (en_now E AtBegin))
                   (pr_tenant (en_principal E)) sid vid (op_actor opts) (source_serial_of spec serial) (w_runs w2) of
              Inl e \<Rightarrow> (None, Inl (BeginFailed e), w2)
            | Inr (run_id, t) \<Rightarrow>
              (let w3 = w2\<lparr>w_runs := t\<rparr>; planned = length (sp_write_set spec)
               in case acquire_coarse_lock E opts spec run_id w3 of
                 (Inl e, w4) \<Rightarrow> (Some run_id, Inl e, finalize_apply_run E run_id planned (Inl e) w4)
               | (Inr u, w4) \<Rightarrow>
                 (case run_inner E opts spec sid run_id lease w4 of
                    (r, w5) \<Rightarrow> (Some run_id, r, release_coarse_lock E opts run_id
                      (release_all run_id (finalize_apply_run E run_id planned r w5))))))))"

section \<open>Every run settles\<close>

text \<open>Other clients change the audit table only by its operations, too, and delete no versions.\<close>

definition others_log :: "apply_env \<Rightarrow> bool" where
  "others_log E \<longleftrightarrow> (\<forall>pt w. version_ids (w_db w) \<subseteq> version_ids (w_db (en_others E pt w)) \<and>
     (\<exists>states versions ops. w_runs (en_others E pt w) = foldl (\<lambda>t op. run_step states versions op t) (w_runs w) ops))"

definition log_after :: "nat \<Rightarrow> world \<Rightarrow> bool" where
  "log_after i w \<longleftrightarrow> runs_ok (w_runs w) \<and> find_run (w_runs w) i \<noteq> None"

lemma others_log_after:
  assumes "others_log E" and "log_after i w"
  shows "log_after i (en_others E pt w)"
proof -
  obtain states versions ops where e: "w_runs (en_others E pt w) = runs.after states versions ops (w_runs w)"
    using assms(1) unfolding others_log_def run_steps_foldl by metis
  show ?thesis
    using assms(2) runs.after_good[of "w_runs w"] runs.after_kept[of "w_runs w" i] unfolding log_after_def e by blast
qed

lemma log_after_cong: "w_runs w' = w_runs w \<Longrightarrow> log_after i w' = log_after i w"
  by (simp add: log_after_def)

lemma read_trunk_log: "read_trunk E name w = Inr (info, w') \<Longrightarrow> w_runs w' = w_runs w"
  by (auto simp: read_trunk_def split: sum.splits)

lemma heartbeat_log: "others_log E \<Longrightarrow> log_after i w \<Longrightarrow> log_after i (snd (heartbeat E run_id lease expected n k w))"
proof (induction n arbitrary: k w)
  case (Suc n)
  have l: "log_after i (en_others E (AtTick k) w)" by (rule others_log_after[OF Suc.prems])
  obtain m res where r: "renew_reservations (en_now E (AtTick k)) (en_now E (AtTick k)) (show_nat run_id) lease
      (w_res (en_others E (AtTick k) w)) = (m, res)" by (metis surj_pair)
  have "log_after i ((en_others E (AtTick k) w)\<lparr>w_res := res\<rparr>)" using l by (simp add: log_after_def)
  then show ?case using l r Suc.IH[OF Suc.prems(1)] by (simp add: Let_def)
qed simp

lemma commit_loop_log: "others_log E \<Longrightarrow> log_after i w \<Longrightarrow> log_after i (snd (commit_loop E name actor a prepare n k w))"
proof (induction n arbitrary: k w)
  case (Suc n)
  let ?w1 = "en_others E (AtRead k) w"
  have l1: "log_after i ?w1" by (rule others_log_after[OF Suc.prems])
  show ?case
  proof (cases "read_trunk E name ?w1")
    case (Inr x)
    obtain sid vid serial raw w2 where x: "x = ((sid, vid, serial, raw), w2)" by (metis surj_pair)
    have l2: "log_after i w2" using l1 read_trunk_log[OF Inr[unfolded x]] log_after_cong by blast
    have l3: "log_after i (en_others E (AtWrite k) w2)" by (rule others_log_after[OF Suc.prems(1) l2])
    have "log_after i ((en_others E (AtWrite k) w2)\<lparr>w_db := d\<rparr>)" for d using l3 by (simp add: log_after_def)
    then show ?thesis
      using Inr x l2 l3 Suc.IH[OF Suc.prems(1) l3] by (simp add: Let_def split: sum.split)
  qed (use l1 in \<open>simp add: Let_def\<close>)
qed simp

lemma acquire_loop_inv:
  assumes "\<And>k now w. P w \<Longrightarrow> P (snd (attempt k now w))"
  shows "P w \<Longrightarrow> P (snd (snd (acquire_loop attempt delay cancelled start deadline iter now cs w)))"
proof (induction "nat (deadline - now)" arbitrary: now iter cs w rule: less_induct)
  case less
  let ?now = "now + min (backoff iter) (deadline - now) + int (delay iter)"
  obtain r w1 where r: "attempt iter ?now w = (r, w1)" by (cases "attempt iter ?now w")
  have p1: "P w1" using assms[OF less.prems, of iter ?now] r by simp
  have "0 < deadline - now \<Longrightarrow> P (snd (snd (acquire_loop attempt delay cancelled start deadline (Suc iter) ?now cs1 w1)))" for cs1
    using less.hyps[OF later_nearer[OF _ refl] p1] .
  then show ?case
    using less.prems p1 r unfolding acquire_loop.simps[of attempt delay cancelled start deadline iter now cs w]
    by (auto simp: Let_def case_prod_beta split: sum.split reservation_error.split)
qed

lemma acquire_with_wait_inv:
  assumes "\<And>k now w. P w \<Longrightarrow> P (snd (attempt k now w))" and "P w"
  shows "P (snd (snd (acquire_with_wait attempt delay cancelled wait start w)))"
proof -
  obtain r w1 where r: "attempt 0 start w = (r, w1)" by (cases "attempt 0 start w")
  have "P w1" using assms(1)[OF assms(2), of 0 start] r by simp
  then show ?thesis
    using r acquire_loop_inv[of P attempt, OF assms(1)]
    by (auto simp: acquire_with_wait_def split: sum.split reservation_error.split)
qed

lemma reserve_log: "others_log E \<Longrightarrow> log_after i w \<Longrightarrow> log_after i (snd (reserve E opts spec sid a lease w))"
proof -
  assume o: "others_log E" and l: "log_after i w"
  have step: "log_after i (snd (reserve_step E sid a actor want lease k now w))" if "log_after i w" for actor want k now w
    using others_log_after[OF o that, of "AtAcquire k"]
    by (simp add: reserve_step_def log_after_def Let_def split: prod.split)
  show ?thesis
  proof (cases "reservations_from_spec spec")
    case (Some want)
    obtain out events w' where r: "acquire_with_wait (reserve_step E sid a (op_actor opts) want lease) (en_delay E) (en_cancelled E)
        (op_wait opts) (en_now E (AtAcquire 0)) w = (out, events, w')" by (metis prod_cases3)
    have "log_after i w'"
      using acquire_with_wait_inv[of "log_after i" "reserve_step E sid a (op_actor opts) want lease", OF step l] r by (metis snd_conv)
    then show ?thesis using r Some by (simp add: reserve_def split: acquire_outcome.split)
  qed (use l in \<open>simp add: reserve_def\<close>)
qed

lemma run_terraform_log:
  "others_log E \<Longrightarrow> log_after i w \<Longrightarrow> log_after i (snd (run_terraform E run_id lease expected sl w))"
proof -
  assume o: "others_log E" and l: "log_after i w"
  obtain r w1 where r: "renew_leases E run_id lease expected w = (r, w1)" by (cases "renew_leases E run_id lease expected w")
  have l1: "log_after i w1"
    using r l heartbeat_log[OF o l, of run_id lease expected "en_ticks E" 0] by (auto simp: renew_leases_def split: if_splits)
  then show ?thesis
    using r others_log_after[OF o l1] by (simp add: run_terraform_def Let_def split: sum.split)
qed

lemma run_inner_log: "others_log E \<Longrightarrow> log_after i w \<Longrightarrow> log_after i (snd (run_inner E opts spec sid run_id lease w))"
proof -
  assume o: "others_log E" and l: "log_after i w"
  obtain r1 w1 where r1: "reserve E opts spec sid (show_nat run_id) lease w = (r1, w1)" by (metis surj_pair)
  have l0: "log_after i w1" using reserve_log[OF o l, of opts spec sid "show_nat run_id" lease] r1 by simp
  have l1: "log_after i (en_others E AtGuard w1)" by (rule others_log_after[OF o l0])
  show ?thesis
  proof (cases "read_trunk E (op_state_name opts) (en_others E AtGuard w1)")
    case (Inr x)
    obtain sid' vid' serial raw w2 where x: "x = ((sid', vid', serial, raw), w2)" by (metis surj_pair)
    have l2: "log_after i w2" using l1 read_trunk_log[OF Inr[unfolded x]] log_after_cong by blast
    obtain r3 w3 where r3: "run_terraform E run_id lease (projr r1) (build_slice (trunk_of_state raw) (effective_footprint spec)) w2 = (r3, w3)"
      by (metis surj_pair)
    have l3: "log_after i w3"
      using run_terraform_log[OF o l2, of run_id lease "projr r1" "build_slice (trunk_of_state raw) (effective_footprint spec)"] r3 by simp
    let ?loop = "commit_loop E (op_state_name opts) (op_actor opts) (show_nat run_id) (prepare_commit (op_state_engine opts) spec
        (effective_footprint spec) (fst (projr r3)) (snd (projr r3))) max_commit_retries 0 w3"
    obtain r4 w4 where r4: "?loop = (r4, w4)" by (metis surj_pair)
    have "log_after i w4" using commit_loop_log[OF o l3] r4 by (metis snd_conv)
    note l4 = this others_log_after[OF o this, of AtLookup]
    show ?thesis
      using l0 l1 l2 l3 l4 r1 Inr x r3 r4
      by (cases r1; cases r3) (auto simp: run_inner_def Let_def case_prod_beta split: sum.split)
  qed (use l0 l1 r1 in \<open>auto simp: run_inner_def Let_def split: sum.split\<close>)
qed

lemma run_inner_version:
  assumes "run_inner E opts spec sid run_id lease w = (Inr (payload, vid), w')"
  shows "vid \<in> version_ids (w_db w')"
proof -
  have "lookup_state_version_id (w_db w') sid (payload_serial payload) = Inr vid"
    using assms by (auto simp: run_inner_def Let_def split: sum.splits prod.splits if_splits)
  then show ?thesis
    by (auto simp: lookup_state_version_id_def read_version_raw_at_serial_def version_ids_def find_Some_iff split: if_splits option.splits)
qed

lemma finalize_settles:
  assumes o: "others_log E" and l: "log_after i w"
    and vid: "\<And>payload vid. r = Inr (payload, vid) \<Longrightarrow> vid \<in> version_ids (w_db w)"
  shows "\<exists>row. find_run (w_runs (finalize_apply_run E i planned r w)) i = Some row \<and> is_terminal (ar_status row)"
    and "runs_ok (w_runs (finalize_apply_run E i planned r w))"
proof -
  let ?w = "en_others E AtFinish w"
  let ?inp = "finish_of E planned r" and ?vs = "version_ids (w_db ?w)"
  have l': "log_after i ?w" by (rule others_log_after[OF o l])
  then obtain row where row: "find_run (w_runs ?w) i = Some row" by (auto simp: log_after_def)
  have vs: "version_ids (w_db w) \<subseteq> ?vs" using o by (simp add: others_log_def)
  have inp: "is_terminal (fi_status ?inp)" "fi_status ?inp = ApplyRunCommitted \<longleftrightarrow> fi_committed_serial ?inp \<noteq> None"
    "0 \<le> fi_planned ?inp" "0 \<le> fi_applied ?inp" "0 \<le> fi_failed ?inp" "fi_to_version ?inp \<noteq> [] \<longrightarrow> fi_to_version ?inp \<in> ?vs"
    using vid vs by (auto simp: finish_of_def is_terminal_def split: sum.split prod.split)
  show "\<exists>row. find_run (w_runs (finalize_apply_run E i planned r w)) i = Some row \<and> is_terminal (ar_status row)"
  proof (cases "is_terminal (ar_status row)")
    case True
    then have "finish_apply_run ?vs (nat (en_now E AtFinish)) (Some i) ?inp (w_runs ?w) = Inl ApplyRunAlreadyFinished"
      using row inp by (simp add: finish_apply_run_def)
    then show ?thesis using True row by (simp add: finalize_apply_run_def Let_def)
  next
    case False
    then have "\<not> isl (finish_apply_run ?vs (nat (en_now E AtFinish)) (Some i) ?inp (w_runs ?w))"
      using row inp by (auto simp: finish_apply_run_def)
    then obtain t where t: "finish_apply_run ?vs (nat (en_now E AtFinish)) (Some i) ?inp (w_runs ?w) = Inr t" using not_isl_Inr by blast
    have "find_run t i = Some (finish_row (nat (en_now E AtFinish)) ?inp row)"
      using finish_find_run[OF t, of i] row by simp
    then show ?thesis using t inp(1) by (simp add: finalize_apply_run_def Let_def finish_row_def)
  qed
  show "runs_ok (w_runs (finalize_apply_run E i planned r w))"
    using l' finish_runs_ok[of "w_runs ?w"] by (auto simp: finalize_apply_run_def log_after_def Let_def split: sum.split)
qed

lemma others_log_ok: "others_log E \<Longrightarrow> runs_ok (w_runs w) \<Longrightarrow> runs_ok (w_runs (en_others E pt w))"
  using runs.after_good[of "w_runs w"] unfolding others_log_def run_steps_foldl by metis

lemma run_apply_begun:
  assumes "others_log E" and "runs_ok (w_runs w0)" and run: "run_apply E opts w0 = (Some i, r, w')"
  obtains (refused) e planned w4 where "log_after i w4" "r = Inl (CoarseLockFailed e)" "w' = finalize_apply_run E i planned r w4"
    | (ran) spec sid lease planned w4 w5 where "log_after i w4" "run_inner E opts spec sid i lease w4 = (r, w5)"
      "w' = release_coarse_lock E opts i (release_all i (finalize_apply_run E i planned r w5))"
proof -
  obtain spec where spec: "validate_options opts = Inr spec" using run by (cases "validate_options opts") (auto simp: run_apply_def)
  obtain info w1 where "read_trunk E (op_state_name opts) w0 = Inr (info, w1)"
    using run spec by (cases "read_trunk E (op_state_name opts) w0") (auto simp: run_apply_def Let_def)
  moreover obtain sid vid serial raw where "info = (sid, vid, serial, raw)" by (metis surj_pair)
  ultimately have rt: "read_trunk E (op_state_name opts) w0 = Inr ((sid, vid, serial, raw), w1)" by simp
  let ?w2 = "en_others E AtBegin w1"
  have ok2: "runs_ok (w_runs ?w2)" using others_log_ok[OF assms(1)] assms(2) read_trunk_log[OF rt] by metis
  obtain t where b: "begin_apply_run (state_ids (w_db ?w2)) (version_ids (w_db ?w2)) (nat (en_now E AtBegin))
      (pr_tenant (en_principal E)) sid vid (op_actor opts) (source_serial_of spec serial) (w_runs ?w2) = Inr (i, t)"
    using run spec rt by (auto simp: run_apply_def Let_def split: sum.splits prod.splits)
  let ?w3 = "?w2\<lparr>w_runs := t\<rparr>" and ?lease = "if op_lease opts \<le> 0 then default_lease else op_lease opts"
  have l3: "log_after i ?w3" using begin_runs_ok(1,3)[OF ok2 b] by (simp add: log_after_def)
  obtain c w4 where c: "acquire_coarse_lock E opts spec i ?w3 = (c, w4)" by (metis surj_pair)
  have l4: "log_after i w4"
    using c l3 others_log_after[OF assms(1) l3, of AtLock]
    by (auto simp: acquire_coarse_lock_def Let_def log_after_def split: if_splits sum.splits)
  show thesis
  proof (cases c)
    case (Inl e)
    then obtain e' where "e = CoarseLockFailed e'"
      using c by (auto simp: acquire_coarse_lock_def Let_def split: if_splits sum.splits)
    moreover have "run_apply E opts w0 = (Some i, Inl e, finalize_apply_run E i (length (sp_write_set spec)) (Inl e) w4)"
      using spec rt b c Inl by (simp add: run_apply_def Let_def)
    ultimately show thesis using refused[OF l4] run by simp
  next
    case (Inr u)
    obtain r5 w5 where r5: "run_inner E opts spec sid i ?lease w4 = (r5, w5)" by (metis surj_pair)
    then have "run_apply E opts w0 = (Some i, r5, release_coarse_lock E opts i (release_all i
        (finalize_apply_run E i (length (sp_write_set spec)) r5 w5)))"
      using spec rt b c Inr by (simp add: run_apply_def Let_def)
    then show thesis using ran[OF l4, of spec sid ?lease] r5 run by simp
  qed
qed


section \<open>The retries are enough\<close>

lemma insert_free: "serial \<notin> set (state_serials d sid) \<Longrightarrow> \<exists>vd. insert_version p sid serial tfv raw source actor d = Inr vd"
  by (simp add: insert_version_def)

lemma lift_error_no_conflict: "(\<And>x. f x \<noteq> SerialConflict) \<Longrightarrow> lift_error f r \<noteq> Inl SerialConflict"
  by (cases r) (auto simp: lift_error_def)

lemma commit_delta_no_conflict:
  assumes "serial \<notin> set (state_serials d sid)"
  shows "commit_delta js sha p name sid serial parsed changed source actor d \<noteq> Inl SerialConflict"
proof -
  have "serial \<notin> set (state_serials (d\<lparr>db_ledger := L\<rparr>) sid)" for L using assms by (simp add: state_serials_def)
  then have "insert_version p sid serial tfv raw source actor (d\<lparr>db_ledger := L\<rparr>) \<noteq> Inl SerialConflict" for tfv raw L
    using insert_free[of serial "d\<lparr>db_ledger := L\<rparr>" sid p tfv raw source actor] by auto
  then show ?thesis
    unfolding commit_delta_def Let_def case_prod_beta
    by (intro bind_result_noerr lift_error_no_conflict write_steps_no_serial_conflict) simp_all
qed

lemma send_no_conflict:
  assumes ok: "db_ok d" and r: "find_state d (pr_tenant (en_principal E)) name = Some r" and t: "next_serial d (sr_id r) = t + 1"
    and p: "\<And>m. payload = Snapshot m \<Longrightarrow> ts_serial (mr_merged m) = t + 1"
  shows "send_commit E name actor a serial payload d \<noteq> Inl SerialConflict"
proof (cases payload)
  case (Snapshot m)
  show ?thesis
  proof (cases "state_of_trunk (mr_merged m)")
    case None
    then show ?thesis
      using Snapshot by (simp add: send_commit_def write_state_for_apply_def write_state_internal_def parse_state_def)
  next
    case (Some s)
    have s: "st_serial s = t + 1" using Some p[OF Snapshot] by (auto simp: state_of_trunk_def split: sum.splits)
    have free: "insert_version pr sid (assign_serial d1 sid True stored) tfv raw source act d1 \<noteq> Inl SerialConflict"
      if u: "upsert_state (en_principal E) name (st_lineage s) c d = Inr (sid, d1)" and st: "stored = s"
      for pr sid d1 stored tfv raw source act c
    proof -
      note k = upsert_known[OF ok r u]
      have "next_serial d1 sid = t + 1" using k(1,5) t by (simp add: next_serial_def max_serial_def)
      then have "assign_serial d1 sid True stored = next_serial d1 sid" using s st by (simp add: assign_serial_def)
      then show ?thesis using insert_next_version[of pr sid d1 tfv raw source act] by auto
    qed
    have "parse_state (Some s) = Inr parsed \<Longrightarrow> parsed = s" for parsed using parse_state_version by blast
    then have "write_state_internal js sha iter (en_principal E) name lock_id (Some s) source act True d \<noteq> Inl SerialConflict"
      for js sha iter lock_id source act
      unfolding write_state_internal_def Let_def case_prod_beta
      by (intro bind_result_noerr write_steps_no_serial_conflict) (auto simp: route_write_def free)
    then show ?thesis using Snapshot Some by (simp add: send_commit_def write_state_for_apply_def)
  qed
next
  case (Native n i delta)
  have "commit_delta js sha q name sid (next_serial d1 sid) parsed changed source act d1 \<noteq> Inl SerialConflict"
    for js sha q sid d1 parsed changed source act
    using next_serial_fresh[of "next_serial d1 sid" d1 sid] by (intro commit_delta_no_conflict) auto
  moreover have "load_current_outputs d1 sid \<noteq> Inl SerialConflict" for d1 sid
    by (auto simp: load_current_outputs_def bind_result_eq_Inl parse_state_def split: option.splits if_splits)
  ultimately show ?thesis
    unfolding send_commit_def Native commit_payload.case write_engine_delta_for_apply_def Let_def case_prod_beta
    by (intro bind_result_noerr write_steps_no_serial_conflict) auto
qed

lemma prepare_not_exhausted: "prepare_commit engine spec fp post intent n fresh \<noteq> Inl RetriesExhausted"
  unfolding prepare_commit_def lift_error_def
  by (auto simp: bind_result_eq_Inl split: sum.splits)

lemma prepare_serial:
  "prepare_commit engine spec fp post intent n fresh = Inr (Snapshot m) \<Longrightarrow> ts_serial (mr_merged m) = ts_serial fresh + 1"
  using merged_rows by (fastforce simp: prepare_commit_def split: if_splits)

lemma read_trunk_failure: "read_trunk E name w = Inl e \<Longrightarrow> e \<noteq> RetriesExhausted"
  by (auto simp: read_trunk_def split: sum.splits)

lemma commit_loop_not_exhausted:
  assumes o: "others_ok E" and quiet: "\<And>w. w_db (en_others E (AtWrite j) w) = w_db w"
  shows "store_inv (en_js E) (en_sha E) (w_db w) \<Longrightarrow> k \<le> j \<Longrightarrow> j < k + n \<Longrightarrow>
    fst (commit_loop E name actor a (prepare_commit engine spec fp post intent) n k w) \<noteq> Inl RetriesExhausted"
proof (induction n arbitrary: k w)
  case (Suc n)
  let ?w1 = "en_others E (AtRead k) w"
  have v: "visits (en_iter E)" and ev: "evolves (en_js E) (en_sha E) (en_iter E) (w_db x) (w_db (en_others E pt x))" for pt x
    using o by (simp_all add: others_ok_def)
  have inv1: "store_inv (en_js E) (en_sha E) (w_db ?w1)" using evolves_keys[OF ev Suc.prems(1) v] by blast
  show ?case
  proof (cases "read_trunk E name ?w1")
    case (Inl e)
    then show ?thesis using read_trunk_failure by (simp add: Let_def)
  next
    case (Inr x)
    obtain sid vid serial raw w2 where x: "x = ((sid, vid, serial, raw), w2)" by (metis surj_pair)
    note rd = read_trunkD[OF inv1 Inr[unfolded x]]
    let ?w3 = "en_others E (AtWrite k) w2"
    have inv3: "store_inv (en_js E) (en_sha E) (w_db ?w3)" using evolves_keys[OF ev rd(1) v] by blast
    show ?thesis
    proof (cases "prepare_commit engine spec fp post intent serial (trunk_of_state raw)")
      case (Inl e)
      then show ?thesis using Inr x prepare_not_exhausted by (auto simp: Let_def)
    next
      case pl: (Inr payload)
      have "send_commit E name actor a serial payload (w_db ?w3) \<noteq> Inl SerialConflict" if "k = j"
      proof -
        obtain r where r: "find_state (w_db w2) (pr_tenant (en_principal E)) name = Some r" "sr_id r = sid" using rd(3) by blast
        have "serial = max_serial (w_db w2) (sr_id r)"
          using read_currentD[OF rd(1), of r] find_state_SomeD[OF r(1)] rd(2) r(2) by metis
        moreover have "w_db ?w3 = w_db w2" using quiet that by simp
        moreover have "ts_serial (mr_merged m) = serial + 1" if "payload = Snapshot m" for m
          using prepare_serial pl that rd(4) by (fastforce simp: trunk_of_state_def)
        ultimately show ?thesis
          using send_no_conflict[OF store_inv_db_ok[OF rd(1)] r(1), of serial payload] by (simp add: next_serial_def)
      qed
      moreover have "fst (commit_loop E name actor a (prepare_commit engine spec fp post intent) n (Suc k) ?w3) \<noteq> Inl RetriesExhausted"
        if "k \<noteq> j" using Suc.IH[OF inv3] Suc.prems(2,3) that by simp
      ultimately show ?thesis using Inr x pl by (auto simp: Let_def split: sum.split)
    qed
  qed
qed simp

text \<open>C9: The retries converge. Whatever other clients write, if in at least one of the eight attempts nobody
  else writes between the apply's read of the trunk and its write, then the loop does not exhaust its retries,
  in snapshot and in native mode.\<close>

theorem commit_loop_not_starved:
  assumes "others_ok E" and "store_inv (en_js E) (en_sha E) (w_db w0)" and "j < max_commit_retries"
    and "\<And>w. w_db (en_others E (AtWrite j) w) = w_db w"
  shows "fst (commit_loop E name actor apply_id (prepare_commit engine spec footprint post intent) max_commit_retries 0 w0)
     \<noteq> Inl RetriesExhausted"
  using commit_loop_not_exhausted[OF assms(1,4,2)] assms(3) by simp

theorem commit_loop_not_starved_witness:
  "fst (commit_loop flow_env ''s'' ''ann'' ''0'' (prepare_commit False flow_spec {''t.a'', ''t.b''} (trunk_of_state (run_doc 9 1)) None)
     max_commit_retries 0 flow_start) \<noteq> Inl RetriesExhausted"
  by (rule commit_loop_not_starved[OF flow_others_ok flow_start_ok(1), where j = 1])
    (simp_all add: max_commit_retries_def flow_env_def flow_others_def)

section \<open>Complete runs\<close>

definition flow_options :: "bool \<Rightarrow> apply_options" where
  "flow_options engine = \<lparr>op_spec = Some flow_spec, op_state_name = ''s'', op_actor = ''ann'', op_work_dir = ''d'', op_lease = 0,
     op_wait = 0, op_state_engine = engine\<rparr>"

text \<open>A run whose Terraform fails, alone on the store.\<close>

definition failing_env :: apply_env where
  "failing_env = flow_env\<lparr>en_terraform := (\<lambda>sl. Inl False), en_others := (\<lambda>pt w. w)\<rparr>"

definition failing_run :: "nat option \<times> (run_failure, commit_payload \<times> string) result \<times> world" where
  "failing_run = run_apply failing_env (flow_options False) flow_start"

lemma failing_run_values: "(fst failing_run, map ar_status (rn_rows (w_runs (snd (snd failing_run))))) = (Some 0, [ApplyRunFailed])"
  by code_simp


text \<open>
  A native run in the same race: the store commits it as version 3, and the run reports version 2, which is
  the version of the other client.
\<close>

definition native_commit :: "(run_failure, commit_payload) result \<times> world" where
  "native_commit = commit_loop flow_env ''s'' ''ann'' ''0'' (prepare_commit True flow_spec {''t.a'', ''t.b''}
     (trunk_of_state (run_doc 9 1)) (Some \<lparr>ti_exact_write_set = [''t.a''], ti_delete_set = []\<rparr>)) 8 0 flow_start"

lemma native_reports_other_version:
  "(case native_commit of (Inl e, w) \<Rightarrow> None
    | (Inr payload, w) \<Rightarrow> Some (payload_serial payload, map (\<lambda>v. (vr_serial v, vr_created_by v)) (db_versions (w_db w))))
   = Some (2, [(1, []), (2, []), (3, ''ann'')])"
  by code_simp

end
