(* ===== verification/ResourceHistory.thy ===== *)
theory ResourceHistory
  imports ReplayKeep
begin

text \<open>
  Reading the resources of a state: the live rows filtered by a pattern, one address, and the lives of an
  address (\<^verbatim>\<open>pkg/store/resource_history.go\<close>). Patterns are those of Go's \<^verbatim>\<open>path.Match\<close>, which is written out
  here for bytes; a malformed pattern matches nothing, as in \<^verbatim>\<open>matchAddressPattern\<close>.
\<close>

section \<open>path.Match\<close>

fun get_esc :: "string \<Rightarrow> (char \<times> string) option" where
  "get_esc [] = None"
| "get_esc (c # cs) =
     (if c = CHR ''-'' \<or> c = CHR '']'' then None
      else if c = CHR 0x5C then (case cs of [] \<Rightarrow> None | d # ds \<Rightarrow> if ds = [] then None else Some (d, ds))
      else if cs = [] then None else Some (c, cs))"

lemma get_esc_shorter: "get_esc p = Some (c, q) \<Longrightarrow> length q < length p"
  by (cases p) (auto split: if_splits list.splits)

function class_loop :: "char \<Rightarrow> bool \<Rightarrow> bool \<Rightarrow> string \<Rightarrow> (bool \<times> string) option" where
  "class_loop r seen matched p =
     (if seen \<and> p \<noteq> [] \<and> hd p = CHR '']'' then Some (matched, tl p)
      else (case get_esc p of None \<Rightarrow> None
        | Some (lo, p1) \<Rightarrow>
            if hd p1 = CHR ''-''
            then (case get_esc (tl p1) of None \<Rightarrow> None
              | Some (hi, p2) \<Rightarrow> class_loop r True (matched \<or> lo \<le> r \<and> r \<le> hi) p2)
            else class_loop r True (matched \<or> lo = r) p1))"
  by pat_completeness auto
termination
  by (relation "measure (\<lambda>(r, seen, matched, p). length p)")
    (auto dest!: get_esc_shorter)

declare class_loop.simps [simp del]

lemma class_loop_shorter: "class_loop r seen matched p = Some (m, q) \<Longrightarrow> length q < length p"
proof (induction r seen matched p rule: class_loop.induct)
  case (1 r seen matched p)
  show ?case
  proof (cases "seen \<and> p \<noteq> [] \<and> hd p = CHR '']''")
    case True
    then show ?thesis using 1(3) by (subst (asm) class_loop.simps) (cases p; simp)
  next
    case False
    obtain lo p1 where e: "get_esc p = Some (lo, p1)"
      using 1(3) False by (subst (asm) class_loop.simps) (auto split: option.splits)
    show ?thesis
    proof (cases "hd p1 = CHR ''-''")
      case True
      obtain hi p2 where h: "get_esc (tl p1) = Some (hi, p2)"
        using 1(3) False e True by (subst (asm) class_loop.simps) (auto split: option.splits)
      have "length q < length p2" using 1(1)[OF False e refl True h refl] 1(3) False e True h
        by (subst (asm) (2) class_loop.simps) simp
      then show ?thesis using get_esc_shorter[OF e] get_esc_shorter[OF h] by simp
    next
      case n: False
      have "length q < length p1" using 1(2)[OF False e refl n] 1(3) False e n
        by (subst (asm) (2) class_loop.simps) simp
      then show ?thesis using get_esc_shorter[OF e] by simp
    qed
  qed
qed

definition class_match :: "char \<Rightarrow> string \<Rightarrow> (bool \<times> string) option" where
  "class_match r p = (let negated = (p \<noteq> [] \<and> hd p = CHR ''^''); body = (if negated then tl p else p)
     in map_option (\<lambda>(m, rest). (m \<noteq> negated, rest)) (class_loop r False False body))"

lemma class_match_shorter: "class_match r p = Some (m, q) \<Longrightarrow> length q < length p"
  by (cases p) (auto simp: class_match_def Let_def dest!: class_loop_shorter split: if_splits)

function glob_match :: "string \<Rightarrow> string \<Rightarrow> bool" where
  "glob_match [] s = (s = [])"
| "glob_match (c # p) s =
     (if c = CHR ''*'' then
        (if glob_match p s then True else (case s of [] \<Rightarrow> False | d # s1 \<Rightarrow> if d = CHR ''/'' then False else glob_match (c # p) s1))
      else if c = CHR ''?'' then (case s of [] \<Rightarrow> False | d # s1 \<Rightarrow> if d = CHR ''/'' then False else glob_match p s1)
      else if c = CHR ''['' then
        (case s of [] \<Rightarrow> False | d # s1 \<Rightarrow>
           (case class_match d p of None \<Rightarrow> False | Some (m, p1) \<Rightarrow> if m then glob_match p1 s1 else False))
      else if c = CHR 0x5C then
        (case p of [] \<Rightarrow> False | e # p1 \<Rightarrow> (case s of [] \<Rightarrow> False | d # s1 \<Rightarrow> if d = e then glob_match p1 s1 else False))
      else (case s of [] \<Rightarrow> False | d # s1 \<Rightarrow> if d = c then glob_match p s1 else False))"
  by pat_completeness auto
termination
  by (relation "measure (\<lambda>(p, s). length p + length s)") (auto dest!: class_match_shorter)

definition match_address_pattern :: "string \<Rightarrow> string \<Rightarrow> bool" where
  "match_address_pattern pattern address =
     (let pattern = trim_space pattern in if pattern = [] then True else glob_match pattern address)"

definition literal_char :: "char \<Rightarrow> bool" where
  "literal_char c \<longleftrightarrow> c \<notin> {CHR ''*'', CHR ''?'', CHR ''['', CHR 0x5C}"

lemma glob_match_literal: "list_all literal_char p \<Longrightarrow> glob_match p s \<longleftrightarrow> p = s"
  by (induction p arbitrary: s) (auto simp: literal_char_def split: list.split)

section \<open>Reading\<close>

record resource_snapshot =
  sn_row :: resource_row
  sn_create :: int
  sn_delete :: "int option"

record history_entry =
  he_row :: resource_row
  he_create :: int
  he_create_version :: version_row
  he_delete :: "int option"
  he_delete_version :: "version_row option"

definition snapshot_of :: "ledger_row \<Rightarrow> resource_snapshot" where
  "snapshot_of r = \<lparr>sn_row = lr_row r, sn_create = lr_create r, sn_delete = lr_delete r\<rparr>"

text \<open>The limit is part of the query, the pattern is applied to what the query returns.\<close>

definition list_current_resources ::
    "db \<Rightarrow> string \<Rightarrow> string \<Rightarrow> string \<Rightarrow> int \<Rightarrow> (version_error, resource_snapshot list) result" where
  "list_current_resources d tenant name pattern limit =
     (case find_state d tenant name of None \<Rightarrow> Inl (StoreFailed StateNotFound)
      | Some st \<Rightarrow>
          (let rows = sort_key (\<lambda>r. lr_address r) (filter (is_open (sr_id st)) (ld_rows (db_ledger d)));
               rows = (if limit > 0 then take (nat limit) rows else rows)
           in Inr (map snapshot_of (filter (\<lambda>r. match_address_pattern (trim_space pattern) (lr_address r)) rows))))"

definition get_current_resource ::
    "db \<Rightarrow> string \<Rightarrow> string \<Rightarrow> string \<Rightarrow> (version_error, resource_snapshot) result" where
  "get_current_resource d tenant name address =
     bind_result (list_current_resources d tenant name address 0) (\<lambda>rows.
       case find (\<lambda>r. rr_address (sn_row r) = address) rows of
         None \<Rightarrow> Inl (StoreFailed StateNotFound) | Some r \<Rightarrow> Inr r)"

definition version_at :: "db \<Rightarrow> string \<Rightarrow> int \<Rightarrow> version_row option" where
  "version_at d sid serial = find (\<lambda>v. vr_state_id v = sid \<and> vr_serial v = serial) (db_versions d)"

definition list_resource_history ::
    "db \<Rightarrow> string \<Rightarrow> string \<Rightarrow> string \<Rightarrow> int \<Rightarrow> (mutation_error, history_entry list) result" where
  "list_resource_history d tenant name address limit =
     (if trim_space address = [] then Inl AddressRequired
      else (case find_state d tenant name of None \<Rightarrow> Inl (store_failed StateNotFound)
        | Some st \<Rightarrow>
            (let rows = filter (\<lambda>r. lr_state_id r = sr_id st \<and> lr_address r = trim_space address) (ld_rows (db_ledger d));
                 joined = concat (map (\<lambda>r. case version_at d (sr_id st) (lr_create r) of None \<Rightarrow> []
                   | Some v \<Rightarrow> [\<lparr>he_row = lr_row r, he_create = lr_create r, he_create_version = v, he_delete = lr_delete r,
                       he_delete_version = (case lr_delete r of None \<Rightarrow> None | Some s \<Rightarrow> version_at d (sr_id st) s)\<rparr>]) rows);
                 newest = rev (sort_key he_create joined)
             in Inr (if limit > 0 then take (nat limit) newest else newest))))"

text \<open>An address without pattern characters is found exactly when it is live.\<close>

lemma get_current_literal:
  assumes inv: "store_inv js sha d" and st: "find_state d tenant name = Some st"
    and a: "trim_space a = a" "a \<noteq> []" "list_all literal_char a"
  shows "get_current_resource d tenant name a =
     (case load_open_row (db_ledger d) (sr_id st) a of None \<Rightarrow> Inl (StoreFailed StateNotFound) | Some r \<Rightarrow> Inr (snapshot_of r))"
proof -
  let ?L = "db_ledger d"
  let ?rows = "filter (\<lambda>r. match_address_pattern (trim_space a) (lr_address r)) (sort_key (\<lambda>r. lr_address r) (filter (is_open (sr_id st)) (ld_rows ?L)))"
  have m: "match_address_pattern (trim_space a) b \<longleftrightarrow> b = a" for b
    using a glob_match_literal[OF a(3)] by (auto simp: match_address_pattern_def Let_def)
  have ok: "ledger_ok (sr_id st) (max_serial d (sr_id st)) ?L" using inv by (simp add: store_inv_def store_ok_def ledger_tracks_def)
  have mem: "r \<in> set ?rows \<longleftrightarrow> open_row (sr_id st) ?L a r" for r by (auto simp: m open_row_def)
  have g: "get_current_resource d tenant name a = (case find (\<lambda>r. rr_address (sn_row r) = a) (map snapshot_of ?rows) of
      None \<Rightarrow> Inl (StoreFailed StateNotFound) | Some r \<Rightarrow> Inr r)"
    using st by (simp add: get_current_resource_def list_current_resources_def Let_def)
  show ?thesis
  proof (cases "load_open_row ?L (sr_id st) a")
    case None
    then have "?rows = []" using mem load_open_row_iff[OF ok, of a] by (metis list.set_intros(1) neq_Nil_conv option.distinct(1))
    then show ?thesis using g None by simp
  next
    case (Some r)
    then have only: "x \<in> set ?rows \<longleftrightarrow> x = r" for x using mem[of x] load_open_row_iff[OF ok, of a x] by auto
    then have "?rows \<noteq> []" by (metis list.set(1) empty_iff)
    then obtain x xs where xs: "?rows = x # xs" by (cases ?rows) simp_all
    then have x: "x = r" using only[of x] by simp
    have "lr_address r = a" using only[of r] by (simp add: m)
    then show ?thesis using g Some unfolding xs x by (simp add: snapshot_of_def)
  qed
qed

text \<open>An address with a count index is a pattern that does not match itself.\<close>

lemma indexed_address_not_itself: "\<not> match_address_pattern ''t.a[0]'' ''t.a[0]''" "match_address_pattern ''t.a[0]'' ''t.a0''"
  by code_simp+

end
