(* ===== verification/Rollback.thy ===== *)
theory Rollback
  imports StoreDelta ResourceHistory
begin

text \<open>
  What the rollbacks, the tags and the exact-address remove promise: each is a property of every reachable
  database, stated over the ledger (what it shows at a serial) and the stored documents.
\<close>

section \<open>Rolling back a whole state\<close>

lemma lookup_state_Inr: "lookup_state_and_current d tenant name = Inr (sid, cur) \<longleftrightarrow>
    (\<exists>r. find_state d tenant name = Some r \<and> sr_id r = sid \<and> sr_current r = cur)"
  by (auto simp: lookup_state_and_current_def split: option.splits)

lemma read_after_version:
  assumes inv: "store_inv js sha d'" and v: "db_versions d' = db_versions d @ [v]" "vr_state_id v = sid" "vr_serial v = next_serial d sid"
    and sid: "sid \<in> state_ids d'"
  shows "read_current_version_raw d' sid = Some (vr_serial v, vr_raw v)"
proof -
  obtain r where r: "r \<in> set (db_states d')" "sr_id r = sid" using sid by (auto simp: state_ids_def)
  have ok: "db_ok d'" and cl: "current_latest d' r" using inv r(1) by (simp_all add: store_inv_def store_ok_def)
  have ser: "state_serials d' sid = state_serials d sid @ [vr_serial v]" using v by (simp add: state_serials_def)
  have top: "\<forall>x \<in> set (state_serials d sid). x < vr_serial v" using next_serial_fresh v(3) by simp
  have mx: "max_serial d' sid = vr_serial v" by (rule max_serial_snoc[OF ser top])
  obtain c where c: "c \<in> set (db_versions d')" "sr_current r = Some (vr_id c)" "vr_state_id c = sid" "vr_serial c = vr_serial v"
    using cl ser mx r(2) by (auto simp: current_latest_def)
  have "c = v"
    using ok c(1,3,4) v(1,2) by (auto simp: db_ok_def versions_ok_def distinct_map dest: inj_onD)
  moreover have "state_by_id d' sid = Some r" using state_by_id_mem[of d' r] r ok by (simp add: db_ok_def)
  moreover have "version_by_id d' (vr_id v) = Some v"
    using find_distinct_key[of vr_id "db_versions d'" v] ok v(1) by (simp add: version_by_id_def db_ok_def versions_ok_def)
  ultimately show ?thesis using c(2) by (simp add: read_current_version_raw_def current_version_def)
qed

lemma shows_same_rows:
  assumes "shows_version js sha L v" and "shows_version js sha L' w" and "st_resources (vr_raw w) = st_resources (vr_raw v)"
  shows "hash_at (vr_state_id w) L' (vr_serial w) a = hash_at (vr_state_id v) L (vr_serial v) a"
proof -
  have "build_resource_rows js sha (vr_raw w) = build_resource_rows js sha (vr_raw v)"
    using assms(3) by (simp add: build_resource_rows_def)
  then show ?thesis using assms(1,2) by (auto simp: shows_version_def)
qed


section \<open>Tags\<close>

lemma validate_tag_looks: "validate_tag_name tag = Inr u \<Longrightarrow> \<not> looks_like_uuid tag \<Longrightarrow> ref_looks_like_tag tag"
  by (auto simp: validate_tag_name_def ref_looks_like_tag_def list_ex_iff list_all_iff split: if_splits)

lemma resolve_tag_simps [simp]:
  "resolve_tag [] tenant sid t = Inl TagNotFound"
  "resolve_tag (x # ts) tenant sid t = (if tg_tenant x = tenant \<and> tg_state_id x = sid \<and> tg_tag x = t
     then Inr (tg_version_id x) else resolve_tag ts tenant sid t)"
  by (simp_all add: resolve_tag_def)

lemma resolve_tag_map:
  assumes "\<And>x. tg_tenant (f x) = tg_tenant x \<and> tg_state_id (f x) = tg_state_id x \<and> tg_tag (f x) = tg_tag x \<and> tg_version_id (f x) = vid"
  shows "resolve_tag (map (\<lambda>x. if tg_tenant x = tenant \<and> tg_state_id x = sid \<and> tg_tag x = tag then f x else x) ts) tenant sid t =
    (if t = tag \<and> list_ex (\<lambda>x. tg_tenant x = tenant \<and> tg_state_id x = sid \<and> tg_tag x = tag) ts then Inr vid
     else resolve_tag ts tenant sid t)"
  using assms by (induction ts) auto

lemma resolve_tag_append:
  "resolve_tag (ts @ [x]) tenant sid t = (case resolve_tag ts tenant sid t of Inr v \<Rightarrow> Inr v | Inl e \<Rightarrow> resolve_tag [x] tenant sid t)"
  by (induction ts) auto

lemma resolve_tag_none:
  "\<not> list_ex (\<lambda>x. tg_tenant x = tenant \<and> tg_state_id x = sid \<and> tg_tag x = tag) ts \<Longrightarrow> resolve_tag ts tenant sid tag = Inl TagNotFound"
  by (induction ts) auto

lemma resolve_tag_Inl: "resolve_tag ts tenant sid t = Inl e \<Longrightarrow> e = TagNotFound"
  by (induction ts) (auto split: if_splits)

lemma resolve_upsert:
  "resolve_tag (upsert_tag tenant sid vid tag description actor now tags) tenant sid t =
     (if t = tag then Inr vid else resolve_tag tags tenant sid t)"
proof (cases "list_ex (\<lambda>x. tg_tenant x = tenant \<and> tg_state_id x = sid \<and> tg_tag x = tag) tags")
  case True
  then show ?thesis unfolding upsert_tag_def Let_def by (subst if_P, assumption) (subst resolve_tag_map[where vid = vid], simp_all)
next
  case False
  show ?thesis
    using resolve_tag_none[OF False] unfolding upsert_tag_def Let_def if_not_P[OF False]
    by (auto simp: resolve_tag_append dest: resolve_tag_Inl split: sum.split)
qed

text \<open>Tagging a version and reading the tag back gives that version: for every reference that resolves, and
  every tag that does not have the shape of a UUID, the document the tag names after \<open>SetTag\<close> is the document the
  reference named, and the other tags of the state name what they named.\<close>

theorem tag_names_version:
  assumes "reachable js sha iter d" and "visits iter"
    and "set_tag p name ref tag description actor now (d, tags) = Inr (serial, d', tags')" and "\<not> looks_like_uuid tag"
  shows "get_version_raw d' tags' (pr_tenant p) name tag = get_version_raw d tags (pr_tenant p) name ref \<and>
     (\<exists>info raw. get_version_raw d tags (pr_tenant p) name ref = Inr (info, raw) \<and> vi_serial info = serial) \<and>
     (\<forall>sid cur other. lookup_state_and_current d (pr_tenant p) name = Inr (sid, cur) \<longrightarrow> other \<noteq> tag \<longrightarrow>
        resolve_tag tags' (pr_tenant p) sid other = resolve_tag tags (pr_tenant p) sid other)"
proof -
  obtain u sid cur v where e: "validate_tag_name tag = Inr u" "lookup_state_and_current d (pr_tenant p) name = Inr (sid, cur)"
    "resolve_version d tags (pr_tenant p) sid ref = Inr v" "serial = vr_serial v"
    "tags' = upsert_tag (pr_tenant p) sid (vr_id v) tag description actor now tags"
    using assms(3) unfolding set_tag_def by auto
  have same: "db_versions d' = db_versions d" "db_states d' = db_states d"
    using assms(3) e(1-3) by (auto simp: set_tag_def)
  have look: "lookup_state_and_current d' (pr_tenant p) name = Inr (sid, cur)"
    using e(2) same(2) by (simp add: lookup_state_and_current_def find_state_def)
  have ok: "db_ok d" using reachable_inv[OF assms(1,2)] by (simp add: store_inv_def store_ok_def)
  note v = resolve_version_mem[OF e(3)]
  have "find_version d sid (\<lambda>w. vr_id w = vr_id v) = Inr v" using find_version_serial(2)[OF ok] v by auto
  then have "find_version d' sid (\<lambda>w. vr_id w = vr_id v) = Inr v" using same(1) by (simp add: find_version_def)
  then have "resolve_version d' tags' (pr_tenant p) sid tag = Inr v"
    using validate_tag_looks[OF e(1) assms(4)] resolve_upsert by (simp add: resolve_version_def e(5))
  then show ?thesis
    using e(2-4) look resolve_upsert by (simp add: get_version_raw_def info_of_def e(5))
qed

section \<open>One address\<close>

definition shown_change :: "(json \<Rightarrow> string) \<Rightarrow> (string \<Rightarrow> string) \<Rightarrow> string \<Rightarrow> string \<Rightarrow> string option \<Rightarrow> db \<Rightarrow> db \<Rightarrow> bool" where
  "shown_change js sha sid a h d d' \<longleftrightarrow> (\<exists>v rows. db_versions d' = db_versions d @ [v] \<and> vr_state_id v = sid \<and>
     vr_serial v = next_serial d sid \<and> build_resource_rows js sha (vr_raw v) = Inr rows \<and>
     (\<forall>k. map_option rr_hash (parsed_map rows k) = hash_at sid (db_ledger d') (next_serial d sid) k \<and>
        hash_at sid (db_ledger d') (next_serial d sid) k = (if k = a then h else hash_at sid (db_ledger d) (max_serial d sid) k)))"

lemma changed_shown:
  assumes "changed_at js sha sid a h d d'"
  shows "shown_change js sha sid a h d d'"
proof -
  obtain v where v: "db_versions d' = db_versions d @ [v]" "vr_state_id v = sid" "vr_serial v = next_serial d sid"
    using assms by (auto simp: changed_at_def)
  have "shows_version js sha (db_ledger d') v"
    using assms v(1) by (simp add: changed_at_def store_inv_def faithful_def)
  then show ?thesis using assms v unfolding shown_change_def shows_version_def changed_at_def by metis
qed



section \<open>On the run of the store\<close>

text \<open>The versions 1 to 3 of \<open>run_final\<close> hold \<open>(a, b)\<close> as \<open>(1, 1)\<close>, \<open>(1, 2)\<close> and \<open>(2, 2)\<close>.\<close>

abbreviation run_js :: "json \<Rightarrow> string" where
  "run_js \<equiv> (\<lambda>j. case j of JNum n \<Rightarrow> show_int n | _ \<Rightarrow> [])"

lemma run_final_state: "lookup_state_and_current run_final ''t'' ''s'' = Inr (''0'', Some ''3'')" "next_serial run_final ''0'' = 4"
  "pr_tenant run_principal = ''t''"
  by code_simp+

lemma run_visits: "visits id"
  by (simp add: visits_def)

lemma run_final_docs: "docs_addressed run_final"
  by code_simp

lemma not_isl_pair: "\<not> isl r \<Longrightarrow> \<exists>a b. r = Inr (a, b)"
  by (cases r) auto

definition run_rollback :: "(version_error, version_info \<times> db) result" where
  "run_rollback = replay_version run_js id run_principal [] ''s'' ''1'' ''op'' run_final"

lemma run_rollback_Inr: "\<exists>info d'. run_rollback = Inr (info, d')"
proof -
  have "\<not> isl run_rollback" by code_simp
  then show ?thesis by (rule not_isl_pair)
qed


definition run_tag :: "(version_error, int \<times> db \<times> tag_row list) result" where
  "run_tag = set_tag run_principal ''s'' ''2'' ''good'' [] ''op'' 5 (run_final, [])"

theorem tag_names_version_witness:
  "\<exists>d' tags' info raw. run_tag = Inr (2, d', tags') \<and> get_version_raw d' tags' ''t'' ''s'' ''good'' = Inr (info, raw) \<and> vi_serial info = 2"
proof -
  have "\<not> isl run_tag" "fst (projr run_tag) = 2" by code_simp+
  then obtain d' tags' where r: "run_tag = Inr (2, d', tags')" using not_isl_Inr by (metis surj_pair fst_conv)
  have shape: "\<not> looks_like_uuid ''good''" by code_simp
  have "get_version_raw d' tags' (pr_tenant run_principal) ''s'' ''good'' = get_version_raw run_final [] (pr_tenant run_principal) ''s'' ''2'' \<and>
      (\<exists>info raw. get_version_raw run_final [] (pr_tenant run_principal) ''s'' ''2'' = Inr (info, raw) \<and> vi_serial info = 2)"
    using tag_names_version[OF run_final_reachable run_visits r[unfolded run_tag_def] shape] by blast
  then show ?thesis using r unfolding run_final_state(3) by metis
qed

definition run_remove :: "(mutation_error, version_info option \<times> mutation_preview \<times> db) result" where
  "run_remove = apply_remove run_principal ''s'' ''t.a'' ''op'' id run_final"


definition run_restore :: "(mutation_error, version_info option \<times> rollback_preview \<times> db) result" where
  "run_restore = replay_resource_version run_principal [] ''s'' ''t.a'' ''1'' ''op'' id run_final"

lemma run_final_separates: "hash_separates (db_ledger run_final)"
proof -
  have "distinct (map (\<lambda>r. (lr_address r, rr_hash (lr_row r))) (ld_rows (db_ledger run_final)))" by code_simp
  then have "r = t" if "r \<in> set (ld_rows (db_ledger run_final))" "t \<in> set (ld_rows (db_ledger run_final))"
    "lr_address r = lr_address t" "rr_hash (lr_row r) = rr_hash (lr_row t)" for r t
    using that by (auto simp: distinct_map inj_on_def)
  then show ?thesis unfolding hash_separates_def by blast
qed


section \<open>A commit in between is lost\<close>

text \<open>The exact-address operations read the document before they lock anything. When bob's write of \<open>b\<close> commits
  between the read and the insert, the new document brings the old value of \<open>b\<close> back, while the ledger shows
  bob's row: the two no longer agree.\<close>

definition run_lost :: "(mutation_error, version_info option \<times> mutation_preview \<times> db) result" where
  "run_lost = apply_remove run_principal ''s'' ''t.a'' ''op'' (\<lambda>d. projr (run_write ''bob'' (run_doc 1 5) d)) run_final"

lemma remove_loses_commit:
  "run_values (bind_result (lift_error (\<lambda>e. StateNotFound) run_lost) (\<lambda>(info, preview, d). Inr d)) =
     [(1, [Some (JNum 1), Some (JNum 1)]), (2, [Some (JNum 1), Some (JNum 2)]), (3, [Some (JNum 2), Some (JNum 2)]),
      (4, [Some (JNum 2), Some (JNum 5)]), (5, [Some (JNum 2)])] \<and>
   (case run_lost of Inl e \<Rightarrow> None | Inr (info, preview, d) \<Rightarrow>
      map_option rr_attributes (content_at ''0'' (db_ledger d) 5 ''t.b'')) = Some (JNum 5)"
  by code_simp

section \<open>Further runs\<close>

text \<open>A tag may have the shape of a UUID, and is then never looked up.\<close>

definition uuid_tag :: string where
  "uuid_tag = ''release0-2024-0115-0000-000000000000''"

lemma uuid_tag_unreachable:
  "\<not> isl (set_tag run_principal ''s'' ''2'' uuid_tag [] ''op'' 5 (run_final, [])) \<and>
   isl (get_version_raw (fst (snd (projr (set_tag run_principal ''s'' ''2'' uuid_tag [] ''op'' 5 (run_final, [])))))
     (snd (snd (projr (set_tag run_principal ''s'' ''2'' uuid_tag [] ''op'' 5 (run_final, []))))) ''t'' ''s'' uuid_tag)"
  by code_simp

text \<open>The rollback of a state does not ask whether the tenant is active; a write does.\<close>

definition run_suspended :: db where
  "run_suspended = run_final\<lparr>db_tenants := [''t'' \<mapsto> \<lparr>tn_status = ''suspended'', tn_max_state_resources = 0, tn_max_environment_resources = 0\<rparr>]\<rparr>"

lemma rollback_of_suspended_tenant:
  "\<not> isl (replay_version run_js id run_principal [] ''s'' ''1'' ''op'' run_suspended) \<and>
   isl (run_write ''ann'' (run_doc 3 1) run_suspended) \<and>
   isl (apply_remove run_principal ''s'' ''t.a'' ''op'' id run_suspended)"
  by code_simp

text \<open>A limit cuts the rows before the pattern selects among them.\<close>

lemma limit_before_pattern:
  "list_current_resources run_final ''t'' ''s'' ''t.b'' 1 = Inr [] \<and>
   \<not> isl (get_current_resource run_final ''t'' ''s'' ''t.b'')"
  by code_simp

text \<open>A move leaves the dependencies of a dependent in their order in the document and sorts them in the ledger.\<close>

definition run_dependent :: tf_state where
  "run_dependent = (empty_state ''l'')\<lparr>st_resources := [run_resource ''a'' 1,
     (run_resource ''b'' 1)\<lparr>r_instances := [zero_instance\<lparr>i_attributes := Some (JNum 1), i_dependencies := [''t.z'', ''t.a'']\<rparr>]\<rparr>]\<rparr>"

definition run_move :: "(mutation_error, version_info option \<times> mutation_preview \<times> db) result" where
  "run_move = bind_result (lift_error store_failed (run_write [] run_dependent empty_db))
     (apply_move run_js id run_principal ''s'' ''t.a'' ''t.c'' ''op'' id)"

lemma move_sorts_ledger_only:
  "(case run_move of Inl e \<Rightarrow> ([], None) | Inr (info, preview, d) \<Rightarrow>
      (map (\<lambda>v. map (\<lambda>p. i_dependencies (snd p)) (state_instances (vr_raw v))) (db_versions d),
       map_option rr_dependencies (content_at ''0'' (db_ledger d) 2 ''t.b'')))
   = ([[[], [''t.z'', ''t.a'']], [[''t.z'', ''t.c''], []]], Some (JArr [JStr ''t.c'', JStr ''t.z'']))"
  by code_simp

end
