(* ===== verification/EngineScope.thy ===== *)
theory EngineScope
  imports ResourceHistory
begin

text \<open>
  The state engine's view of a state (\<^verbatim>\<open>pkg/store/state_engine.go\<close>): the live resources with their dependency
  graph, the payloads of selected addresses, and the expansion of a client's selection to a scope
  (\<^verbatim>\<open>handleStateEngineScopeExpand\<close> of \<^verbatim>\<open>internal/backend/state_engine.go\<close>). Logging, durations and the HTTP
  framing are not modelled; \<open>ord\<close> is the order in which Go visits a set.
\<close>

section \<open>The graph of a state\<close>

record engine_state_info =
  ei_state_id :: string
  ei_lineage :: string
  ei_serial :: int

definition resolve_engine_state_info :: "db \<Rightarrow> string \<Rightarrow> string \<Rightarrow> (store_error, engine_state_info) result" where
  "resolve_engine_state_info d tenant name =
     (case find_state d tenant name of None \<Rightarrow> Inl StateNotFound
      | Some r \<Rightarrow> Inr \<lparr>ei_state_id = sr_id r, ei_lineage = (case sr_lineage r of None \<Rightarrow> [] | Some l \<Rightarrow> l),
          ei_serial = (case current_version d r of None \<Rightarrow> 0 | Some v \<Rightarrow> vr_serial v)\<rparr>)"

definition base_address :: "string \<Rightarrow> string option" where
  "base_address addr0 =
     (let addr = trim_space addr0
      in if addr = [] \<or> last addr \<noteq> CHR '']'' then None
         else (case last_index (CHR ''['') addr of
            None \<Rightarrow> None
          | Some i \<Rightarrow> if i = 0 \<or> i \<ge> length addr - 1 then None else Some (take i addr)))"

definition indexed_by_base :: "ledger_row list \<Rightarrow> string \<Rightarrow> string list" where
  "indexed_by_base rows b = sort (filter (\<lambda>a. base_address a = Some b) (map (\<lambda>r. lr_address r) rows))"

definition resolve_dependencies :: "ledger_row list \<Rightarrow> string list \<Rightarrow> string list" where
  "resolve_dependencies rows deps =
     sort (remdups (concat (map (\<lambda>dep. (if dep \<in> (\<lambda>r. lr_address r) ` set rows then [dep] else []) @ indexed_by_base rows dep) deps)))"

text \<open>The inventory and the adjacency: for each address the live addresses it depends on.\<close>

record engine_graph =
  eg_resources :: "resource_snapshot list"
  eg_adjacency :: "(string \<times> string list) list"

fun adjacency_loop :: "ledger_row list \<Rightarrow> ledger_row list \<Rightarrow> (string, (string \<times> string list) list) result" where
  "adjacency_loop rows [] = Inr []"
| "adjacency_loop rows (r # rs) =
     (case decode_dependencies (rr_dependencies (lr_row r)) of
        None \<Rightarrow> Inl (lr_address r)
      | Some deps \<Rightarrow> bind_result (adjacency_loop rows rs) (\<lambda>adj.
          let resolved = resolve_dependencies rows deps
          in Inr (if resolved = [] then adj else (lr_address r, resolved) # adj)))"

definition build_graph_snapshot :: "ledger_row list \<Rightarrow> (string, engine_graph) result" where
  "build_graph_snapshot rows = bind_result (adjacency_loop rows rows) (\<lambda>adj.
     Inr \<lparr>eg_resources = map snapshot_of rows, eg_adjacency = adj\<rparr>)"

datatype engine_error =
    EngineStore store_error
  | BadDependencies string

definition open_rows :: "db \<Rightarrow> string \<Rightarrow> ledger_row list" where
  "open_rows d sid = sort_key (\<lambda>r. lr_address r) (filter (is_open sid) (ld_rows (db_ledger d)))"

definition load_graph :: "db \<Rightarrow> string \<Rightarrow> string \<Rightarrow> (engine_error, engine_graph) result" where
  "load_graph d tenant name =
     (case find_state d tenant name of None \<Rightarrow> Inl (EngineStore StateNotFound)
      | Some r \<Rightarrow> lift_error BadDependencies (build_graph_snapshot (open_rows d (sr_id r))))"

definition list_inventory :: "db \<Rightarrow> string \<Rightarrow> string \<Rightarrow> (engine_error, resource_snapshot list) result" where
  "list_inventory d tenant name =
     (case find_state d tenant name of None \<Rightarrow> Inl (EngineStore StateNotFound)
      | Some r \<Rightarrow> Inr (map snapshot_of (open_rows d (sr_id r))))"

text \<open>The payloads of the selected addresses, each with its dependencies sorted.\<close>

record engine_resource =
  er_snapshot :: resource_snapshot
  er_dependencies :: "string list"

definition materialize_row :: "ledger_row \<Rightarrow> (engine_error, engine_resource) result" where
  "materialize_row r = (case decode_dependencies (rr_dependencies (lr_row r)) of
     None \<Rightarrow> Inl (BadDependencies (lr_address r))
   | Some deps \<Rightarrow> Inr \<lparr>er_snapshot = snapshot_of r, er_dependencies = sort deps\<rparr>)"

text \<open>Only a request without addresses notices that the state does not exist: a query that yields no rows is
  not an error of the driver, so with addresses a missing state is an empty list.\<close>

definition materialize_resources :: "db \<Rightarrow> string \<Rightarrow> string \<Rightarrow> string list \<Rightarrow> (engine_error, engine_resource list) result" where
  "materialize_resources d tenant name addresses0 =
     (let addresses = dedupe_sorted addresses0
      in case find_state d tenant name of
           None \<Rightarrow> if addresses = [] then Inl (EngineStore StateNotFound) else Inr []
         | Some r \<Rightarrow>
             if addresses = [] then Inr []
             else map_result materialize_row (filter (\<lambda>x. lr_address x \<in> set addresses) (open_rows d (sr_id r))))"

lemma materialize_missing_state: "find_state d tenant name = None \<Longrightarrow> dedupe_sorted addresses \<noteq> [] \<Longrightarrow> materialize_resources d tenant name addresses = Inr []"
  by (simp add: materialize_resources_def)

section \<open>Module members\<close>

fun module_pairs :: "string list \<Rightarrow> nat" where
  "module_pairs (m # x # rest) = (if m = ''module'' then Suc (Suc (module_pairs rest)) else 0)"
| "module_pairs ps = 0"

definition module_prefix_from_address :: "string \<Rightarrow> string" where
  "module_prefix_from_address addr0 =
     (let addr = trim_space addr0; parts = split_on (CHR ''.'') addr
      in if \<not> has_prefix addr ''module.'' then [] else join_with ''.'' (take (module_pairs parts) parts))"

definition expand_module_prefixes :: "string \<Rightarrow> string list" where
  "expand_module_prefixes path0 =
     (let path = trim_space path0; parts = split_on (CHR ''.'') path
      in if path = [] \<or> \<not> has_prefix path ''module.'' then []
         else dedupe_sorted (map (\<lambda>i. join_with ''.'' (take (2 * i) parts)) [1..<Suc (module_pairs parts div 2)]))"

definition module_prefixes :: "resource_snapshot \<Rightarrow> string list" where
  "module_prefixes r =
     (let path = trim_space (rr_module (sn_row r))
      in expand_module_prefixes (if path = [] then module_prefix_from_address (rr_address (sn_row r)) else path))"

definition module_members :: "resource_snapshot list \<Rightarrow> string \<Rightarrow> string list" where
  "module_members rs pre = dedupe_sorted (map (\<lambda>r. rr_address (sn_row r)) (filter (\<lambda>r. pre \<in> set (module_prefixes r)) rs))"

section \<open>Scope expansion\<close>

record scope_request =
  sq_selectors :: "(string \<times> string) list"
  sq_write :: "string list"
  sq_read :: "string list"
  sq_undeployed :: "string list"
  sq_removed :: "string list"
  sq_config :: "(string \<times> string list) list"

record scope_graph =
  sg_realized :: "string list"
  sg_adjacency :: "string \<Rightarrow> string list"
  sg_config :: "(string \<times> string list) list"

definition request_graph :: "engine_graph \<Rightarrow> scope_request \<Rightarrow> scope_graph" where
  "request_graph g q = \<lparr>sg_realized = map (\<lambda>r. rr_address (sn_row r)) (eg_resources g),
     sg_adjacency = (\<lambda>a. case map_of (rev (eg_adjacency g)) a of None \<Rightarrow> [] | Some ds \<Rightarrow> ds),
     sg_config = map (\<lambda>(a, ds). (trim_space a, dedupe_sorted ds)) (filter (\<lambda>(a, ds). trim_space a \<noteq> []) (sq_config q))\<rparr>"

text \<open>A later node for an address replaces an earlier one.\<close>

definition config_lookup :: "scope_graph \<Rightarrow> string \<Rightarrow> string list option" where
  "config_lookup g = map_of (rev (sg_config g))"

definition config_deps :: "scope_graph \<Rightarrow> string \<Rightarrow> string list" where
  "config_deps g a = (case config_lookup g a of None \<Rightarrow> [] | Some ds \<Rightarrow> ds)"

definition scope_deps :: "scope_graph \<Rightarrow> string \<Rightarrow> string list" where
  "scope_deps g a = (if a \<in> set (sg_realized g) then dedupe_sorted (sg_adjacency g a @ config_deps g a) else config_deps g a)"

definition scope_known :: "scope_graph \<Rightarrow> string \<Rightarrow> bool" where
  "scope_known g a \<longleftrightarrow> a \<in> set (sg_realized g) \<or> config_lookup g a \<noteq> None"

definition push_addr :: "string \<Rightarrow> string set \<times> string list \<Rightarrow> string set \<times> string list" where
  "push_addr addr = (\<lambda>(seen, queue). let a = trim_space addr
     in if a = [] \<or> a \<in> seen then (seen, queue) else (insert a seen, queue @ [a]))"

fun push_deps :: "scope_graph \<Rightarrow> string list \<Rightarrow> string set \<times> string list \<times> string set \<Rightarrow> string set \<times> string list \<times> string set" where
  "push_deps g [] s = s"
| "push_deps g (dep # deps) (seen, queue, unresolved) =
     (if scope_known g dep
      then (let (seen, queue) = push_addr dep (seen, queue) in push_deps g deps (seen, queue, unresolved))
      else push_deps g deps (seen, queue, insert dep unresolved))"

record scope_walked =
  sw_visited :: "string set"
  sw_required :: "string set"
  sw_unresolved :: "string set"


text \<open>The loop over the queue: it ends because only addresses of the graph have dependencies.\<close>

definition scope_universe :: "scope_graph \<Rightarrow> string set" where
  "scope_universe g = set (sg_realized g) \<union> fst ` set (sg_config g)"

lemma config_lookup_dom: "config_lookup g a \<noteq> None \<longleftrightarrow> a \<in> fst ` set (sg_config g)"
  unfolding config_lookup_def by (simp add: map_of_eq_None_iff)

lemma scope_known_universe: "scope_known g a \<longleftrightarrow> a \<in> scope_universe g"
  using config_lookup_dom by (auto simp: scope_known_def scope_universe_def)

lemma scope_deps_outside: "a \<notin> scope_universe g \<Longrightarrow> scope_deps g a = []"
  using config_lookup_dom[of g a] by (simp add: scope_universe_def scope_deps_def config_deps_def split: option.split)

lemma finite_scope_universe [simp]: "finite (scope_universe g)"
  by (simp add: scope_universe_def)

function scope_walk :: "scope_graph \<Rightarrow> string set \<Rightarrow> string list \<Rightarrow> scope_walked \<Rightarrow> scope_walked" where
  "scope_walk g seen [] w = w"
| "scope_walk g seen (a # queue) w =
     (if a \<in> sw_visited w then scope_walk g seen queue w
      else
        (case push_deps g (scope_deps g a) (seen, queue, sw_unresolved w) of (seen', queue', unresolved) \<Rightarrow>
           scope_walk g seen' queue' \<lparr>sw_visited = insert a (sw_visited w),
             sw_required = (if a \<notin> set (sg_realized g) \<and> config_lookup g a \<noteq> None then insert a (sw_required w) else sw_required w),
             sw_unresolved = unresolved\<rparr>))"
  by pat_completeness auto
termination
proof (relation "measures [\<lambda>(g, seen, queue, w). card (scope_universe g - sw_visited w), \<lambda>(g, seen, queue, w). length queue]")
  fix g seen a queue and w :: scope_walked and seen' y queue' unresolved
  assume a: "a \<notin> sw_visited w" and p: "(seen', y) = push_deps g (scope_deps g a) (seen, queue, sw_unresolved w)"
    "(queue', unresolved) = y"
  show "((g, seen', queue', \<lparr>sw_visited = insert a (sw_visited w),
        sw_required = if a \<notin> set (sg_realized g) \<and> config_lookup g a \<noteq> None then insert a (sw_required w) else sw_required w,
        sw_unresolved = unresolved\<rparr>), g, seen, a # queue, w)
      \<in> measures [\<lambda>(g, seen, queue, w). card (scope_universe g - sw_visited w), \<lambda>(g, seen, queue, w). length queue]"
  proof (cases "a \<in> scope_universe g")
    case True
    then have "scope_universe g - insert a (sw_visited w) \<subset> scope_universe g - sw_visited w" using a by blast
    then have "card (scope_universe g - insert a (sw_visited w)) < card (scope_universe g - sw_visited w)"
      by (intro psubset_card_mono) simp_all
    then show ?thesis by simp
  next
    case False
    then have "scope_universe g - insert a (sw_visited w) = scope_universe g - sw_visited w" by blast
    moreover have "queue' = queue" using p scope_deps_outside[OF False] by simp
    ultimately show ?thesis by simp
  qed
qed simp_all

section \<open>The walk computes the closure\<close>

definition scope_links :: "scope_graph \<Rightarrow> (string \<times> string) set" where
  "scope_links g = {(a, dep). dep \<in> set (scope_deps g a) \<and> scope_known g dep}"

definition required_of :: "scope_graph \<Rightarrow> string set \<Rightarrow> string set" where
  "required_of g V = {a \<in> V. a \<notin> set (sg_realized g) \<and> config_lookup g a \<noteq> None}"

definition unresolved_of :: "scope_graph \<Rightarrow> string set \<Rightarrow> string set" where
  "unresolved_of g V = {dep. \<exists>a \<in> V. dep \<in> set (scope_deps g a) \<and> \<not> scope_known g dep}"

text \<open>The dependencies are trimmed, so that pushing one adds it as it is.\<close>

definition deps_trimmed :: "scope_graph \<Rightarrow> bool" where
  "deps_trimmed g \<longleftrightarrow> (\<forall>(a, ds) \<in> set (sg_config g). \<forall>d \<in> set ds. trim_space d = d \<and> d \<noteq> [])"

lemma scope_deps_trimmed:
  assumes "deps_trimmed g" and "d \<in> set (scope_deps g a)"
  shows "trim_space d = d \<and> d \<noteq> []"
proof (cases "a \<in> set (sg_realized g)")
  case True
  then show ?thesis using assms(2) by (auto simp: scope_deps_def trimmed_def)
next
  case False
  then obtain ds where "config_lookup g a = Some ds" "d \<in> set ds"
    using assms(2) by (cases "config_lookup g a") (auto simp: scope_deps_def config_deps_def)
  then have "(a, ds) \<in> set (sg_config g)" using map_of_SomeD[of "rev (sg_config g)" a ds] by (simp add: config_lookup_def)
  then show ?thesis using assms(1) \<open>d \<in> set ds\<close> unfolding deps_trimmed_def by blast
qed

lemma push_deps_spec:
  assumes "\<forall>d \<in> set deps. trim_space d = d \<and> d \<noteq> []" and "push_deps g deps (seen, queue, unresolved) = (seen', queue', unresolved')"
    and "seen = V \<union> set queue"
  shows "seen' = seen \<union> {d \<in> set deps. scope_known g d} \<and> seen' = V \<union> set queue' \<and>
    unresolved' = unresolved \<union> {d \<in> set deps. \<not> scope_known g d}"
  using assms
proof (induction deps arbitrary: seen queue unresolved)
  case (Cons d deps)
  have t: "\<forall>d \<in> set deps. trim_space d = d \<and> d \<noteq> []" using Cons.prems(1) by simp
  let ?s = "if d \<in> seen then seen else insert d seen" and ?q = "if d \<in> seen then queue else queue @ [d]"
  show ?case
  proof (cases "scope_known g d")
    case True
    have p: "push_deps g deps (?s, ?q, unresolved) = (seen', queue', unresolved')"
      using Cons.prems(1,2) True by (cases "d \<in> seen") (simp_all add: push_addr_def)
    have "?s = V \<union> set ?q" using Cons.prems(3) by auto
    note ih = Cons.IH[OF t p this]
    have e1: "?s \<union> {x \<in> set deps. scope_known g x} = seen \<union> {x \<in> set (d # deps). scope_known g x}" using True by auto
    have e2: "{x \<in> set (d # deps). \<not> scope_known g x} = {x \<in> set deps. \<not> scope_known g x}" using True by auto
    show ?thesis unfolding e1[symmetric] e2 by (rule ih)
  next
    case False
    then have p: "push_deps g deps (seen, queue, insert d unresolved) = (seen', queue', unresolved')"
      using Cons.prems(2) by simp
    have "{x \<in> set (d # deps). \<not> scope_known g x} = insert d {x \<in> set deps. \<not> scope_known g x}"
      "{x \<in> set (d # deps). scope_known g x} = {x \<in> set deps. scope_known g x}" using False by auto
    moreover have "insert d unresolved \<union> X = unresolved \<union> insert d X" for X by blast
    ultimately show ?thesis using Cons.IH[OF t p Cons.prems(3)] by metis
  qed
qed auto

lemma scope_walk_spec:
  assumes g: "deps_trimmed g" and inv: "seen = sw_visited w \<union> set queue" "scope_links g `` sw_visited w \<subseteq> seen"
    "sw_required w = required_of g (sw_visited w)" "sw_unresolved w = unresolved_of g (sw_visited w)"
  shows "let w' = scope_walk g seen queue w in seen \<subseteq> sw_visited w' \<and> scope_links g `` sw_visited w' \<subseteq> sw_visited w' \<and>
     sw_visited w' \<subseteq> (scope_links g)\<^sup>* `` seen \<and>
     sw_required w' = required_of g (sw_visited w') \<and> sw_unresolved w' = unresolved_of g (sw_visited w')"
  using inv g
proof (induction g seen queue w rule: scope_walk.induct)
  case (1 g seen w)
  then show ?case by (auto simp: Let_def)
next
  case (2 g seen a queue w)
  show ?case
  proof (cases "a \<in> sw_visited w")
    case True
    have "seen = sw_visited w \<union> set queue" using 2(3) True by auto
    from 2(1)[OF True this 2(4-7)] show ?thesis using True by simp
  next
    case False
    obtain seen' queue' unresolved where p: "push_deps g (scope_deps g a) (seen, queue, sw_unresolved w) = (seen', queue', unresolved)"
      by (metis surj_pair)
    let ?w = "\<lparr>sw_visited = insert a (sw_visited w),
        sw_required = (if a \<notin> set (sg_realized g) \<and> config_lookup g a \<noteq> None then insert a (sw_required w) else sw_required w),
        sw_unresolved = unresolved\<rparr>"
    have e: "scope_walk g seen (a # queue) w = scope_walk g seen' queue' ?w" using False p by simp
    have "seen = insert a (sw_visited w) \<union> set queue" using 2(3) by auto
    from push_deps_spec[OF _ p this] scope_deps_trimmed[OF 2(7)]
    have s: "seen' = seen \<union> {d \<in> set (scope_deps g a). scope_known g d}" "seen' = insert a (sw_visited w) \<union> set queue'"
      "unresolved = sw_unresolved w \<union> {d \<in> set (scope_deps g a). \<not> scope_known g d}" by blast+
    have links: "scope_links g `` insert a (sw_visited w) \<subseteq> seen'" using 2(4) s(1) by (auto simp: scope_links_def)
    have step: "let w' = scope_walk g seen' queue' ?w in seen' \<subseteq> sw_visited w' \<and> scope_links g `` sw_visited w' \<subseteq> sw_visited w' \<and>
       sw_visited w' \<subseteq> (scope_links g)\<^sup>* `` seen' \<and>
       sw_required w' = required_of g (sw_visited w') \<and> sw_unresolved w' = unresolved_of g (sw_visited w')"
      by (rule 2(2)[OF False p[symmetric] refl]) (use s links 2(5-7) in \<open>auto simp: required_of_def unresolved_of_def\<close>)
    have "a \<in> seen" using 2(3) by simp
    then have "seen' \<subseteq> (scope_links g)\<^sup>* `` seen" unfolding s(1) by (auto simp: scope_links_def)
    then have "(scope_links g)\<^sup>* `` seen' \<subseteq> (scope_links g)\<^sup>* `` seen" by (auto intro: rtrancl_trans)
    then show ?thesis using step s(1) unfolding e Let_def by blast
  qed
qed

section \<open>The scope\<close>

datatype scope_mode = ScopeWrite | ScopeRead

record scope_contract =
  sc_fetch :: "string list"
  sc_write :: "string list"
  sc_read :: "string list"
  sc_config_required :: "string list"
  sc_removed :: "string list"
  sc_missing :: "string list"
  sc_undeployed :: "string list"
  sc_unknown :: "string list"
  sc_reservations :: "(string \<times> scope_mode) list"
  sc_safe :: bool
  sc_notes :: "string list"

text \<open>The addresses to write that exist: selected ones, members of selected modules, and explicit candidates
  (which are compared untrimmed here and trimmed below, as in the source).\<close>

definition selected_write :: "engine_graph \<Rightarrow> scope_request \<Rightarrow> string set" where
  "selected_write g q =
     (let realized = set (map (\<lambda>r. rr_address (sn_row r)) (eg_resources g));
          addressed = trim_space ` set (map snd (filter (\<lambda>(k, v). trim_space k = ''resource_address'') (sq_selectors q))) \<inter> realized;
          modules = trimmed (map snd (filter (\<lambda>(k, v). trim_space k = ''module_prefix'') (sq_selectors q)));
          members = \<Union>(set ` module_members (eg_resources g) ` modules)
      in addressed \<union> members \<union> (set (sq_write q) \<inter> realized))"

definition scope_start :: "engine_graph \<Rightarrow> scope_request \<Rightarrow> (string set \<Rightarrow> string list) \<Rightarrow> string set \<times> string list" where
  "scope_start g q ord = fold push_addr (ord (selected_write g q) @ ord (trimmed (sq_write q)) @ ord (trimmed (sq_read q))) ({}, [])"

definition missing_addresses :: "engine_graph \<Rightarrow> scope_request \<Rightarrow> string set" where
  "missing_addresses g q =
     (trimmed (sq_write q @ sq_read q) \<union> trimmed (map snd (filter (\<lambda>(k, v). k = ''resource_address'') (sq_selectors q))))
       - set (map (\<lambda>r. rr_address (sn_row r)) (eg_resources g))"

definition expand_scope :: "engine_graph \<Rightarrow> scope_request \<Rightarrow> (string set \<Rightarrow> string list) \<Rightarrow> scope_contract" where
  "expand_scope g q ord =
     (let realized = set (map (\<lambda>r. rr_address (sn_row r)) (eg_resources g));
          wr = selected_write g q;
          (seen, queue) = scope_start g q ord;
          w = scope_walk (request_graph g q) seen queue \<lparr>sw_visited = {}, sw_required = {}, sw_unresolved = {}\<rparr>;
          rd = (sw_visited w \<inter> realized) - wr;
          missing = missing_addresses g q;
          undeployed = trimmed (sq_undeployed q);
          removed = trimmed (sq_removed q);
          unknown = (missing - removed - undeployed) \<union> (sw_unresolved w - undeployed);
          undeployed_missing = ((missing - removed) \<inter> undeployed) \<union> (sw_unresolved w \<inter> undeployed);
          ws = sorted_keys wr; rs = sorted_keys rd
      in \<lparr>sc_fetch = dedupe_sorted (ws @ rs), sc_write = ws, sc_read = rs, sc_config_required = sorted_keys (sw_required w),
           sc_removed = sorted_keys removed, sc_missing = sorted_keys missing, sc_undeployed = sorted_keys undeployed_missing,
           sc_unknown = sorted_keys unknown,
           sc_reservations = map (\<lambda>a. (a, ScopeWrite)) ws @ map (\<lambda>a. (a, ScopeRead)) rs,
           sc_safe = (unknown = {}),
           sc_notes =
             (if sw_required w \<noteq> {} then [show_nat (card (sw_required w)) @ '' config-only node(s) are required for local planning''] else []) @
             (if removed \<inter> realized \<noteq> {} then [show_nat (card (removed \<inter> realized)) @
                '' removed config node(s) still exist in realized state and must be deleted''] else []) @
             (if missing \<inter> removed \<noteq> {} then [show_nat (card (missing \<inter> removed)) @
                '' removed config node(s) were already absent from realized state''] else [])\<rparr>)"

section \<open>What the scope promises\<close>

definition realized_addresses :: "engine_graph \<Rightarrow> string set" where
  "realized_addresses g = set (map (\<lambda>r. rr_address (sn_row r)) (eg_resources g))"

definition scope_reach :: "engine_graph \<Rightarrow> scope_request \<Rightarrow> string set" where
  "scope_reach g q = (scope_links (request_graph g q))\<^sup>* `` (selected_write g q \<union> trimmed (sq_write q) \<union> trimmed (sq_read q))"

lemma request_graph_trimmed: "deps_trimmed (request_graph g q)"
  by (auto simp: deps_trimmed_def request_graph_def trimmed_def)

lemma selected_realized: "selected_write g q \<subseteq> realized_addresses g \<union> trimmed (map (\<lambda>r. rr_address (sn_row r)) (eg_resources g))"
  by (auto simp: selected_write_def Let_def realized_addresses_def module_members_def trimmed_def)

lemma finite_selected [simp]: "finite (selected_write g q)"
proof -
  have "finite (realized_addresses g \<union> trimmed (map (\<lambda>r. rr_address (sn_row r)) (eg_resources g)))" by (simp add: realized_addresses_def)
  then show ?thesis using selected_realized finite_subset by blast
qed

lemma push_trimmed: "trim_space a = a \<Longrightarrow> a \<noteq> [] \<Longrightarrow>
    push_addr a (seen, queue) = (if a \<in> seen then seen else insert a seen, if a \<in> seen then queue else queue @ [a])"
  by (simp add: push_addr_def)

lemma fold_push:
  assumes "\<forall>a \<in> set as. trim_space a = a \<and> a \<noteq> []" and "fold push_addr as (seen, queue) = (seen', queue')" and "seen = set queue"
  shows "seen' = set queue' \<and> seen' = seen \<union> set as"
  using assms
proof (induction as arbitrary: seen queue)
  case (Cons a as)
  let ?s = "if a \<in> seen then seen else insert a seen" and ?q = "if a \<in> seen then queue else queue @ [a]"
  have a: "trim_space a = a" "a \<noteq> []" using Cons.prems(1) by simp_all
  have f: "fold push_addr as (?s, ?q) = (seen', queue')" "?s = set ?q" "\<forall>a \<in> set as. trim_space a = a \<and> a \<noteq> []"
    using Cons.prems by (simp_all only: fold_simps push_trimmed[OF a] comp_apply) auto
  have "?s \<union> set as = seen \<union> set (a # as)" by auto
  then show ?case using Cons.IH[OF f(3,1,2)] by metis
qed auto

lemma scope_walk_reach:
  assumes o: "\<And>A. finite A \<Longrightarrow> set (ord A) = A" and t: "\<forall>a \<in> realized_addresses g. trim_space a = a \<and> a \<noteq> []"
    and s: "scope_start g q ord = (seen, queue)"
  shows "let w = scope_walk (request_graph g q) seen queue \<lparr>sw_visited = {}, sw_required = {}, sw_unresolved = {}\<rparr> in
    sw_visited w = scope_reach g q \<and> sw_required w = required_of (request_graph g q) (scope_reach g q) \<and>
    sw_unresolved w = unresolved_of (request_graph g q) (scope_reach g q)"
proof -
  let ?G = "request_graph g q" and ?start = "selected_write g q \<union> trimmed (sq_write q) \<union> trimmed (sq_read q)"
  let ?as = "ord (selected_write g q) @ ord (trimmed (sq_write q)) @ ord (trimmed (sq_read q))"
  have as: "set ?as = ?start" using o by auto
  have tr: "\<forall>a \<in> trimmed ss. trim_space a = a \<and> a \<noteq> []" for ss by (auto simp: trimmed_def)
  have "\<forall>a \<in> set ?as. trim_space a = a \<and> a \<noteq> []"
    unfolding as using selected_realized[of g q] t tr by blast
  from fold_push[OF this s[unfolded scope_start_def]] have "seen = set queue \<and> seen = set ?as" unfolding Un_empty_left by blast
  then have sq: "seen = set queue" "seen = ?start" unfolding as by blast+
  let ?w0 = "\<lparr>sw_visited = {}, sw_required = {}, sw_unresolved = {}\<rparr>"
  define w where "w = scope_walk ?G seen queue ?w0"
  have spec: "seen \<subseteq> sw_visited w \<and> scope_links ?G `` sw_visited w \<subseteq> sw_visited w \<and> sw_visited w \<subseteq> (scope_links ?G)\<^sup>* `` seen \<and>
     sw_required w = required_of ?G (sw_visited w) \<and> sw_unresolved w = unresolved_of ?G (sw_visited w)"
    using scope_walk_spec[OF request_graph_trimmed, of seen ?w0 queue g q] sq(1)
    unfolding w_def Let_def by (simp add: required_of_def unresolved_of_def)
  have "(scope_links ?G)\<^sup>* `` seen \<subseteq> sw_visited w"
    using Image_closed_trancl[of "scope_links ?G" "sw_visited w"] spec by blast
  then have "sw_visited w = scope_reach g q" using spec sq(2) by (auto simp: scope_reach_def)
  then show ?thesis using spec unfolding w_def by (simp add: Let_def)
qed

lemma finite_reach: "finite (scope_reach g q)"
proof -
  have "scope_reach g q \<subseteq> (selected_write g q \<union> trimmed (sq_write q) \<union> trimmed (sq_read q)) \<union> scope_universe (request_graph g q)"
    unfolding scope_reach_def by (auto elim!: rtranclE simp: scope_links_def scope_known_universe)
  then show ?thesis by (rule finite_subset) simp
qed

lemma finite_unresolved: "finite V \<Longrightarrow> finite (unresolved_of g V)"
  by (rule finite_subset[of _ "\<Union>a \<in> V. set (scope_deps g a)"]) (auto simp: unresolved_of_def)

text \<open>C23: The scope the backend answers is exact: the write addresses are the selected live addresses, the read
  addresses are the other live addresses reachable from the selection through the dependencies of the state
  and of the client's configuration, both are fetched and reserved (write mode on the first, read mode on the
  second, once each), and the configuration-only nodes on the way are named, in whatever order Go visits the
  sets.\<close>

theorem expand_scope_exact:
  assumes "\<And>A. finite A \<Longrightarrow> set (ord A) = A" and "\<forall>a \<in> realized_addresses g. trim_space a = a \<and> a \<noteq> []"
  shows "set (sc_write (expand_scope g q ord)) = selected_write g q \<and>
     set (sc_read (expand_scope g q ord)) = scope_reach g q \<inter> realized_addresses g - selected_write g q \<and>
     set (sc_fetch (expand_scope g q ord)) = selected_write g q \<union> scope_reach g q \<inter> realized_addresses g \<and>
     set (sc_config_required (expand_scope g q ord)) = {a \<in> scope_reach g q. a \<notin> realized_addresses g \<and> a \<in> trimmed (map fst (sq_config q))} \<and>
     distinct (map fst (sc_reservations (expand_scope g q ord))) \<and>
     set (sc_reservations (expand_scope g q ord)) = (\<lambda>a. (a, ScopeWrite)) ` selected_write g q \<union>
       (\<lambda>a. (a, ScopeRead)) ` (scope_reach g q \<inter> realized_addresses g - selected_write g q)"
proof -
  obtain seen queue where s: "scope_start g q ord = (seen, queue)" by (metis surj_pair)
  let ?w = "scope_walk (request_graph g q) seen queue \<lparr>sw_visited = {}, sw_required = {}, sw_unresolved = {}\<rparr>"
  have w: "sw_visited ?w = scope_reach g q" "sw_required ?w = required_of (request_graph g q) (scope_reach g q)"
    using scope_walk_reach[OF assms s] by (simp_all add: Let_def)
  have real: "set (map (\<lambda>r. rr_address (sn_row r)) (eg_resources g)) = realized_addresses g" by (simp add: realized_addresses_def)
  note fin = finite_reach[of g q]
  let ?ws = "sorted_keys (selected_write g q)" and ?rs = "sorted_keys (scope_reach g q \<inter> realized_addresses g - selected_write g q)"
  have e: "sc_write (expand_scope g q ord) = ?ws" "sc_read (expand_scope g q ord) = ?rs"
    "sc_fetch (expand_scope g q ord) = dedupe_sorted (?ws @ ?rs)"
    "sc_config_required (expand_scope g q ord) = sorted_keys (required_of (request_graph g q) (scope_reach g q))"
    "sc_reservations (expand_scope g q ord) = map (\<lambda>a. (a, ScopeWrite)) ?ws @ map (\<lambda>a. (a, ScopeRead)) ?rs"
    unfolding expand_scope_def Let_def s prod.case real w by simp_all
  have tr: "\<forall>a \<in> set (?ws @ ?rs). trim_space a = a \<and> a \<noteq> []"
    using assms(2) selected_realized[of g q] fin by (auto simp: trimmed_def)
  then have f: "trimmed (?ws @ ?rs) = set (?ws @ ?rs)" unfolding trimmed_def by force
  have sel: "selected_write g q \<subseteq> scope_reach g q" by (auto simp: scope_reach_def)
  have dom: "fst ` set (sg_config (request_graph g q)) = trimmed (map fst (sq_config q))"
    by (force simp: request_graph_def trimmed_def)
  have req: "required_of (request_graph g q) (scope_reach g q) =
      {a \<in> scope_reach g q. a \<notin> realized_addresses g \<and> a \<in> trimmed (map fst (sq_config q))}"
    unfolding required_of_def config_lookup_dom dom by (simp add: request_graph_def realized_addresses_def)
  show ?thesis
    unfolding e req using fin f by (auto simp: comp_def)
qed

text \<open>C30: A scope is called safe exactly when nothing is unknown: every address the client names exists in the
  state or is declared removed or undeployed, and every dependency of an address in reach is live, a
  configuration node of the request, or declared undeployed.\<close>

theorem expand_scope_safe:
  assumes "\<And>A. finite A \<Longrightarrow> set (ord A) = A" and "\<forall>a \<in> realized_addresses g. trim_space a = a \<and> a \<noteq> []"
  shows "sc_safe (expand_scope g q ord) \<longleftrightarrow> sc_unknown (expand_scope g q ord) = [] \<and>
     (\<forall>a \<in> missing_addresses g q. a \<in> trimmed (sq_removed q) \<union> trimmed (sq_undeployed q)) \<and>
     (\<forall>a \<in> scope_reach g q. \<forall>dep \<in> set (scope_deps (request_graph g q) a).
        dep \<in> realized_addresses g \<union> trimmed (map fst (sq_config q)) \<union> trimmed (sq_undeployed q))"
proof -
  obtain seen queue where s: "scope_start g q ord = (seen, queue)" by (metis surj_pair)
  let ?w = "scope_walk (request_graph g q) seen queue \<lparr>sw_visited = {}, sw_required = {}, sw_unresolved = {}\<rparr>"
  have w: "sw_unresolved ?w = unresolved_of (request_graph g q) (scope_reach g q)"
    using scope_walk_reach[OF assms s] by (simp add: Let_def)
  let ?u = "(missing_addresses g q - trimmed (sq_removed q) - trimmed (sq_undeployed q)) \<union>
    (unresolved_of (request_graph g q) (scope_reach g q) - trimmed (sq_undeployed q))"
  have e: "sc_safe (expand_scope g q ord) = (?u = {})" "sc_unknown (expand_scope g q ord) = sorted_keys ?u"
    unfolding expand_scope_def Let_def s prod.case w by simp_all
  have fin: "finite ?u" using finite_unresolved[OF finite_reach] by (simp add: missing_addresses_def)
  have known: "scope_known (request_graph g q) a \<longleftrightarrow> a \<in> realized_addresses g \<union> trimmed (map fst (sq_config q))" for a
    unfolding scope_known_universe by (force simp: scope_universe_def request_graph_def realized_addresses_def trimmed_def)
  have "?u = {} \<longleftrightarrow> (\<forall>a \<in> missing_addresses g q. a \<in> trimmed (sq_removed q) \<union> trimmed (sq_undeployed q)) \<and>
     (\<forall>a \<in> scope_reach g q. \<forall>dep \<in> set (scope_deps (request_graph g q) a).
        dep \<in> realized_addresses g \<union> trimmed (map fst (sq_config q)) \<union> trimmed (sq_undeployed q))"
    unfolding unresolved_of_def known by blast
  then show ?thesis unfolding e using sorted_keys_eq_Nil[OF fin] by simp
qed

section \<open>A request\<close>

definition ex_row :: "nat \<Rightarrow> string \<Rightarrow> string list \<Rightarrow> ledger_row" where
  "ex_row n a deps = \<lparr>lr_id = n, lr_state_id = ''1'', lr_row = (ex_rrow a [])\<lparr>rr_module := [], rr_dependencies := marshal_dependencies deps\<rparr>,
     lr_create = 1, lr_delete = None\<rparr>"

text \<open>Two instances of \<open>t.b\<close>, and \<open>t.c\<close> that depends on the block \<open>t.b\<close>.\<close>

definition ex_graph :: engine_graph where
  "ex_graph = projr (build_graph_snapshot [ex_row 0 ''t.a'' [], ex_row 1 ''t.b[0]'' [], ex_row 2 ''t.b[1]'' [''t.a''], ex_row 3 ''t.c'' [''t.b'']])"

definition ex_request :: scope_request where
  "ex_request = \<lparr>sq_selectors = [(''resource_address'', ''t.c'')], sq_write = [''t.new''], sq_read = [], sq_undeployed = [''t.new'', ''t.later''],
     sq_removed = [], sq_config = [(''t.new'', [''t.a'', ''t.later''])]\<rparr>"

lemma ex_graph_addresses: "\<forall>a \<in> realized_addresses ex_graph. trim_space a = a \<and> a \<noteq> []"
  by code_simp

lemma sorted_keys_order: "finite A \<Longrightarrow> set (sorted_keys A) = (A :: string set)"
  by simp

lemma ex_selected: "selected_write ex_graph ex_request = {''t.c''}"
  by code_simp

lemma ex_realized: "realized_addresses ex_graph = {''t.a'', ''t.b[0]'', ''t.b[1]'', ''t.c''}"
  by code_simp

lemma ex_missing: "missing_addresses ex_graph ex_request = {''t.new''}"
  by code_simp

abbreviation ex_walked :: "scope_walked" where
  "ex_walked \<equiv> scope_walk (request_graph ex_graph ex_request) {''t.c'', ''t.new''} [''t.c'', ''t.new'']
     \<lparr>sw_visited = {}, sw_required = {}, sw_unresolved = {}\<rparr>"

lemma ex_start: "scope_start ex_graph ex_request sorted_keys = ({''t.c'', ''t.new''}, [''t.c'', ''t.new''])"
  by code_simp

lemma ex_visited: "sw_visited ex_walked = {''t.a'', ''t.b[0]'', ''t.b[1]'', ''t.c'', ''t.new''}"
  by code_simp

lemma ex_unresolved: "sw_unresolved ex_walked = {''t.later''}"
  by code_simp

lemma ex_scope:
  "set (sc_read (expand_scope ex_graph ex_request sorted_keys)) = {''t.a'', ''t.b[0]'', ''t.b[1]''}"
  "sc_safe (expand_scope ex_graph ex_request sorted_keys)"
proof -
  have u: "trimmed (sq_undeployed ex_request) = {''t.new'', ''t.later''}" by code_simp
  note r = ex_realized[unfolded realized_addresses_def]
  show "set (sc_read (expand_scope ex_graph ex_request sorted_keys)) = {''t.a'', ''t.b[0]'', ''t.b[1]''}"
    unfolding expand_scope_def Let_def ex_start prod.case r ex_selected ex_visited by auto
  show "sc_safe (expand_scope ex_graph ex_request sorted_keys)"
    unfolding expand_scope_def Let_def ex_start prod.case ex_missing ex_unresolved u by auto
qed

theorem expand_scope_exact_witness:
  "{''t.a'', ''t.b[0]'', ''t.b[1]''} = scope_reach ex_graph ex_request \<inter> realized_addresses ex_graph - selected_write ex_graph ex_request"
proof -
  have "set (sc_read (expand_scope ex_graph ex_request sorted_keys)) =
      scope_reach ex_graph ex_request \<inter> realized_addresses ex_graph - selected_write ex_graph ex_request"
    using expand_scope_exact[of sorted_keys ex_graph ex_request, OF sorted_keys_order ex_graph_addresses] by blast
  then show ?thesis using ex_scope(1) by simp
qed

theorem expand_scope_safe_witness:
  "missing_addresses ex_graph ex_request \<subseteq> trimmed (sq_removed ex_request) \<union> trimmed (sq_undeployed ex_request)"
  using expand_scope_safe[of sorted_keys ex_graph ex_request, OF sorted_keys_order ex_graph_addresses] ex_scope(2) by blast

text \<open>An explicit write candidate with white space around it is not selected for writing, but its trimmed
  address is walked from, so the client gets a read reservation for what it wants to write.\<close>

lemma padded_candidate_read:
  "selected_write ex_graph (ex_request\<lparr>sq_selectors := [], sq_write := ['' t.a'']\<rparr>) = {}"
  "snd (scope_start ex_graph (ex_request\<lparr>sq_selectors := [], sq_write := ['' t.a'']\<rparr>) sorted_keys) = [''t.a'']"
  by code_simp+

end
