(* ===== verification/GraphCache.thy ===== *)
theory GraphCache
  imports EngineScope StoreHistory
begin

text \<open>
  The cache of dependency graphs (\<^verbatim>\<open>internal/backend/state_engine_graph_cache.go\<close>): entries by state id and
  serial that expire, with the oldest evicted when it is full. The handlers run concurrently with each other
  and with writes of the store, so resolving a state, asking the cache, loading the graph and putting it into
  the cache are separate steps. The module members that Go keeps with the graph are a function of its
  resources (\<open>module_members\<close>) and are not repeated here. Times are nanoseconds; \<open>ord\<close> is the order in which
  Go visits a map.
\<close>

section \<open>The cache\<close>

record cache_entry =
  ce_snapshot :: engine_graph
  ce_expires :: int

record graph_cache =
  gc_max :: int
  gc_ttl :: int
  gc_entries :: "(string \<times> cache_entry) list"

definition new_graph_cache :: "int \<Rightarrow> int \<Rightarrow> graph_cache option" where
  "new_graph_cache n ttl = (if n \<le> 0 \<or> ttl \<le> 0 then None else Some \<lparr>gc_max = n, gc_ttl = ttl, gc_entries = []\<rparr>)"

definition cache_key :: "string \<Rightarrow> int \<Rightarrow> string" where
  "cache_key sid serial = sid @ ''|'' @ show_int serial"

definition cache_get :: "int \<Rightarrow> string \<Rightarrow> int \<Rightarrow> graph_cache option \<Rightarrow> engine_graph option \<times> graph_cache option" where
  "cache_get now sid serial cache =
     (case cache of None \<Rightarrow> (None, None)
      | Some c \<Rightarrow>
         (case map_of (gc_entries c) (cache_key sid serial) of
            None \<Rightarrow> (None, Some c)
          | Some e \<Rightarrow>
             if \<not> ce_expires e > now
             then (None, Some (c\<lparr>gc_entries := AList.delete (cache_key sid serial) (gc_entries c)\<rparr>))
             else (Some (ce_snapshot e), Some c)))"

definition purge_entries :: "int \<Rightarrow> (string \<times> cache_entry) list \<Rightarrow> (string \<times> cache_entry) list" where
  "purge_entries now es = filter (\<lambda>(k, e). ce_expires e > now) es"

fun oldest_entry :: "(string \<times> cache_entry) list \<Rightarrow> string \<times> int \<Rightarrow> string" where
  "oldest_entry [] (k, at) = k"
| "oldest_entry ((k', e) # es) (k, at) =
     (if k = [] \<or> ce_expires e < at then oldest_entry es (k', ce_expires e) else oldest_entry es (k, at))"

type_synonym entry_order = "(string \<times> cache_entry) list \<Rightarrow> (string \<times> cache_entry) list"

definition evict_one :: "entry_order \<Rightarrow> (string \<times> cache_entry) list \<Rightarrow> (string \<times> cache_entry) list" where
  "evict_one ord es = (let k = oldest_entry (ord es) ([], 0) in if k \<noteq> [] then AList.delete k es else es)"

definition cache_put :: "entry_order \<Rightarrow> int \<Rightarrow> string \<Rightarrow> int \<Rightarrow> engine_graph \<Rightarrow> graph_cache option \<Rightarrow> graph_cache option" where
  "cache_put ord now sid serial g cache =
     map_option (\<lambda>c.
       let live = purge_entries now (gc_entries c);
           room = (if int (length live) \<ge> gc_max c then evict_one ord live else live)
       in c\<lparr>gc_entries := AList.update (cache_key sid serial) \<lparr>ce_snapshot = g, ce_expires = now + gc_ttl c\<rparr> room\<rparr>) cache"

text \<open>One request that no other step interrupts: the state, then the cache, then the store.\<close>

definition load_graph_snapshot ::
    "entry_order \<Rightarrow> int \<Rightarrow> int \<Rightarrow> graph_cache option \<Rightarrow> db \<Rightarrow> string \<Rightarrow> string \<Rightarrow>
     (engine_error, engine_state_info \<times> engine_graph \<times> bool) result \<times> graph_cache option" where
  "load_graph_snapshot ord t1 t2 cache d tenant name =
     (case resolve_engine_state_info d tenant name of
        Inl e \<Rightarrow> (Inl (EngineStore e), cache)
      | Inr info \<Rightarrow>
         (case cache_get t1 (ei_state_id info) (ei_serial info) cache of
            (Some g, cache') \<Rightarrow> (Inr (info, g, True), cache')
          | (None, cache') \<Rightarrow>
             (case load_graph d tenant name of
                Inl e \<Rightarrow> (Inl e, cache')
              | Inr g \<Rightarrow> (Inr (info, g, False), cache_put ord t2 (ei_state_id info) (ei_serial info) g cache'))))"

section \<open>What a cache promises\<close>

text \<open>A cache may forget, but what it holds is what was put into it under that key.\<close>

locale forgetful_map =
  fixes look :: "'t \<Rightarrow> 'k \<Rightarrow> 'c \<Rightarrow> 'v option \<times> 'c" and keep :: "'o \<Rightarrow> 't \<Rightarrow> 'k \<Rightarrow> 'v \<Rightarrow> 'c \<Rightarrow> 'c" and held :: "'c \<Rightarrow> ('k \<times> 'v) set"
  assumes look_held: "look t k c = (Some v, c') \<Longrightarrow> (k, v) \<in> held c"
    and look_mono: "look t k c = (x, c') \<Longrightarrow> held c' \<subseteq> held c"
    and keep_held: "held (keep ord t k v c) \<subseteq> insert (k, v) (held c)"
begin

lemma look_good: "(\<And>k v. (k, v) \<in> held c \<Longrightarrow> good k v) \<Longrightarrow> look t k c = (Some v, c') \<Longrightarrow> good k v"
  using look_held by blast

lemma look_keeps: "(\<And>k v. (k, v) \<in> held c \<Longrightarrow> good k v) \<Longrightarrow> (k, v) \<in> held (snd (look t k' c)) \<Longrightarrow> good k v"
  using look_mono by (metis prod.collapse subsetD)

lemma keep_keeps:
  "(\<And>k v. (k, v) \<in> held c \<Longrightarrow> good k v) \<Longrightarrow> good k' v' \<Longrightarrow> (k, v) \<in> held (keep ord t k' v' c) \<Longrightarrow> good k v"
  using keep_held by blast

end

lemma bar_split:
  assumes "xs @ CHR ''|'' # ys = xs' @ CHR ''|'' # ys'" and "CHR ''|'' \<notin> set ys" and "CHR ''|'' \<notin> set ys'"
  shows "xs = xs' \<and> ys = ys'"
proof -
  have tail: "takeWhile (\<lambda>c. c \<noteq> CHR ''|'') (rev (us @ CHR ''|'' # zs)) = rev zs" if "CHR ''|'' \<notin> set zs" for us zs :: string
    using that by (simp add: takeWhile_append2 takeWhile_tail) (metis set_rev takeWhile_eq_all_conv)
  have "ys = ys'" using tail[OF assms(2), of xs] tail[OF assms(3), of xs'] assms(1) by (metis rev_rev_ident)
  then show ?thesis using assms(1) by simp
qed

lemma bar_not_int: "CHR ''|'' \<notin> set (show_int i)"
  using set_show_int by (fastforce simp: is_digit_def)

lemma show_int_inject: "show_int i = show_int j \<longleftrightarrow> i = j"
proof
  assume e: "show_int i = show_int j"
  have nat_inj: "show_nat m = show_nat n \<Longrightarrow> m = n" for m n by (metis digits_val_show_nat)
  have "CHR ''-'' \<notin> set (show_nat n)" for n
    using show_nat_digits[of n] by (auto simp: list_all_iff is_digit_def)
  then have "i < 0 \<longleftrightarrow> j < 0" using e by (metis list.set_intros(1) show_int_def)
  then show "i = j" using e nat_inj by (fastforce simp: show_int_def split: if_splits)
qed simp

lemma cache_key_inject: "cache_key s n = cache_key t m \<longleftrightarrow> s = t \<and> n = m"
  using bar_split[of s "show_int n" t "show_int m"] bar_not_int by (auto simp: cache_key_def show_int_inject)

definition cache_held :: "graph_cache option \<Rightarrow> ((string \<times> int) \<times> engine_graph) set" where
  "cache_held cache = {((s, n), g). \<exists>c e. cache = Some c \<and> (cache_key s n, e) \<in> set (gc_entries c) \<and> ce_snapshot e = g}"

lemma set_alist_update: "set (AList.update k v xs) \<subseteq> insert (k, v) (set xs)"
  by (induction xs) auto

lemma set_alist_delete: "set (AList.delete k xs) \<subseteq> set xs"
  by (auto simp: AList.delete_eq)

lemma set_evict: "set (evict_one ord es) \<subseteq> set es"
  using set_alist_delete[of "oldest_entry (ord es) ([], 0)" es] by (simp add: evict_one_def Let_def)

interpretation gc: forgetful_map "\<lambda>t k. cache_get t (fst k) (snd k)" "\<lambda>ord t k. cache_put ord t (fst k) (snd k)" cache_held
proof (unfold_locales, goal_cases)
  case (1 t k c v c')
  then show ?case by (auto simp: cache_get_def cache_held_def split: option.splits if_splits dest!: map_of_SomeD)
next
  case (2 t k c x c')
  then show ?case using set_alist_delete by (fastforce simp: cache_get_def cache_held_def split: option.splits if_splits)
next
  case (3 ord t k v c)
  show ?case
  proof (cases c)
    case (Some a)
    let ?live = "purge_entries t (gc_entries a)"
    let ?room = "if int (length ?live) \<ge> gc_max a then evict_one ord ?live else ?live"
    let ?new = "(cache_key (fst k) (snd k), \<lparr>ce_snapshot = v, ce_expires = t + gc_ttl a\<rparr>)"
    have "set ?room \<subseteq> set (gc_entries a)" using set_evict[of ord ?live] by (auto simp: purge_entries_def)
    then have "set (gc_entries (the (cache_put ord t (fst k) (snd k) v c))) \<subseteq> insert ?new (set (gc_entries a))"
      using set_alist_update[of "fst ?new" "snd ?new" ?room] by (auto simp: cache_put_def Let_def Some)
    then show ?thesis using Some by (auto simp: cache_held_def cache_put_def cache_key_inject)
  qed (auto simp: cache_held_def cache_put_def)
qed

section \<open>The requests and the store\<close>

datatype pending =
    Resolved string string string int
  | Loaded string int engine_graph

inductive served :: "(json \<Rightarrow> string) \<Rightarrow> (string \<Rightarrow> string) \<Rightarrow> (instance_map \<Rightarrow> instance_map) \<Rightarrow> int \<Rightarrow> int \<Rightarrow>
    db \<Rightarrow> graph_cache option \<Rightarrow> pending set \<Rightarrow> bool"
  for js sha iter n ttl where
  Start: "served js sha iter n ttl (empty_db\<lparr>db_tenants := ts\<rparr>) (new_graph_cache n ttl) {}"
| Store: "served js sha iter n ttl d c P \<Longrightarrow> store_step js sha iter d d' \<Longrightarrow> served js sha iter n ttl d' c P"
| Resolve: "served js sha iter n ttl d c P \<Longrightarrow> resolve_engine_state_info d tenant name = Inr info \<Longrightarrow>
    served js sha iter n ttl d c (insert (Resolved tenant name (ei_state_id info) (ei_serial info)) P)"
| Look: "served js sha iter n ttl d c P \<Longrightarrow> served js sha iter n ttl d (snd (cache_get now sid serial c)) P"
| Load: "served js sha iter n ttl d c P \<Longrightarrow> Resolved tenant name sid serial \<in> P \<Longrightarrow> load_graph d tenant name = Inr g \<Longrightarrow>
    served js sha iter n ttl d c (insert (Loaded sid serial g) P)"
| Keep: "served js sha iter n ttl d c P \<Longrightarrow> Loaded sid serial g \<in> P \<Longrightarrow> (\<And>es. set (ord es) = set es) \<Longrightarrow>
    served js sha iter n ttl d (cache_put ord now sid serial g c) P"

text \<open>What is known of a graph that was loaded for a state at a serial, for as long as the store goes on.\<close>

definition graph_good :: "db \<Rightarrow> string \<times> int \<Rightarrow> engine_graph \<Rightarrow> bool" where
  "graph_good d k g \<longleftrightarrow> fst k \<in> issued d \<and> (fst k \<in> state_ids d \<longrightarrow> snd k \<le> max_serial d (fst k) \<and>
     (snd k = max_serial d (fst k) \<longrightarrow> build_graph_snapshot (open_rows d (fst k)) = Inr g))"

fun pending_good :: "db \<Rightarrow> pending \<Rightarrow> bool" where
  "pending_good d (Resolved tenant name sid serial) \<longleftrightarrow> sid \<in> issued d \<and>
     (sid \<in> state_ids d \<longrightarrow> (sid, tenant, name) \<in> state_names d \<and> serial \<le> max_serial d sid)"
| "pending_good d (Loaded sid serial g) \<longleftrightarrow> graph_good d (sid, serial) g"

lemma open_rows_cong: "rows_of sid (db_ledger d') = rows_of sid (db_ledger d) \<Longrightarrow> open_rows d' sid = open_rows d sid"
proof -
  have f: "filter (is_open sid) (ld_rows L) = filter (is_open sid) (rows_of sid L)" for L
    by (auto simp: rows_of_def is_open_def intro!: filter_cong)
  assume "rows_of sid (db_ledger d') = rows_of sid (db_ledger d)"
  then show ?thesis by (simp add: open_rows_def f)
qed

lemma graph_good_advance:
  assumes a: "advance d d'" and "graph_good d k g"
  shows "graph_good d' k g"
proof -
  have i: "fst k \<in> issued d" "fst k \<in> issued d'"
    using assms issued_mono[of d d'] by (auto simp: graph_good_def advance_def)
  show ?thesis
  proof (cases "fst k \<in> state_ids d'")
    case True
    then have "fst k \<in> state_ids d" using advance_ids[OF a] i(1) by blast
    moreover have "max_serial d (fst k) < max_serial d' (fst k) \<or>
        max_serial d' (fst k) = max_serial d (fst k) \<and> open_rows d' (fst k) = open_rows d (fst k)"
      using a True i(1) open_rows_cong unfolding advance_def by blast
    ultimately show ?thesis using assms(2) i(2) by (auto simp: graph_good_def)
  qed (use i in \<open>simp add: graph_good_def\<close>)
qed

lemma pending_good_advance:
  assumes a: "advance d d'" and ok: "db_ok d" and "pending_good d p"
  shows "pending_good d' p"
proof (cases p)
  case (Resolved tenant name sid serial)
  have i: "sid \<in> issued d" "sid \<in> issued d'"
    using assms Resolved issued_mono[of d d'] by (auto simp: advance_def)
  show ?thesis
  proof (cases "sid \<in> state_ids d'")
    case True
    then have sid: "sid \<in> state_ids d" using advance_ids[OF a] i(1) by blast
    obtain t m where tm: "(sid, t, m) \<in> state_names d'" using True by (auto simp: state_ids_names)
    then have "(sid, t, m) \<in> state_names d" using a i(1) by (fastforce simp: advance_def)
    moreover have "(sid, tenant, name) \<in> state_names d" using assms(3) Resolved sid by simp
    ultimately have "t = tenant \<and> m = name"
      using ok by (auto simp: state_names_def db_ok_def states_ok_def distinct_map inj_on_def)
    moreover have "max_serial d sid \<le> max_serial d' sid" using a True i(1) by (force simp: advance_def)
    ultimately show ?thesis using tm i(2) sid assms(3) Resolved by simp
  qed (use i Resolved in simp)
qed (use assms graph_good_advance in simp)

lemma resolve_trunk:
  assumes inv: "store_inv js sha d" and r: "resolve_engine_state_info d tenant name = Inr info"
  shows "\<exists>s. find_state d tenant name = Some s \<and> sr_id s = ei_state_id info \<and> ei_serial info = max_serial d (sr_id s)"
proof -
  obtain s where s: "find_state d tenant name = Some s" "sr_id s = ei_state_id info"
    "ei_serial info = (case current_version d s of None \<Rightarrow> 0 | Some v \<Rightarrow> vr_serial v)"
    using r by (auto simp: resolve_engine_state_info_def split: option.splits)
  have mem: "s \<in> set (db_states d)" using find_state_SomeD[OF s(1)] by simp
  have ok: "store_ok d" "db_ok d" and cl: "current_latest d s" using inv mem by (simp_all add: store_inv_def store_ok_def)
  have by_id: "state_by_id d (sr_id s) = Some s" using state_by_id_mem[of d s] mem ok(2) by (simp add: db_ok_def)
  have "ei_serial info = max_serial d (sr_id s)"
  proof (cases "current_version d s")
    case None
    then show ?thesis using no_current_no_serials[OF inv by_id] s(3) by (simp add: max_serial_def)
  next
    case (Some v)
    then have v: "sr_current s = Some (vr_id v)" "v \<in> set (db_versions d)"
      by (auto simp: current_version_def version_by_id_def find_Some_iff split: option.splits)
    then have "state_serials d (sr_id s) \<noteq> []" using cl by (auto simp: current_latest_def split: if_splits)
    then obtain w where w: "w \<in> set (db_versions d)" "sr_current s = Some (vr_id w)" "vr_serial w = max_serial d (sr_id s)"
      using cl by (auto simp: current_latest_def)
    have "w = v" using w(1,2) v ok(2) by (auto simp: db_ok_def versions_ok_def distinct_map inj_on_def)
    then show ?thesis using w(3) s(3) Some by simp
  qed
  then show ?thesis using s by blast
qed

lemma named_state:
  assumes ok: "db_ok d" and "(sid, tenant, name) \<in> state_names d" and "find_state d tenant name = Some r"
  shows "sr_id r = sid"
proof -
  have "r \<in> set (db_states d)" "sr_tenant r = tenant" "sr_name r = name" using find_state_SomeD[OF assms(3)] by simp_all
  then show ?thesis using ok assms(2) by (auto simp: state_names_def db_ok_def states_ok_def distinct_map inj_on_def)
qed

lemma served_good:
  assumes "served js sha iter n ttl d c P" and v: "visits iter"
  shows "store_inv js sha d \<and> (\<forall>k g. (k, g) \<in> cache_held c \<longrightarrow> graph_good d k g) \<and> (\<forall>p \<in> P. pending_good d p)"
  using assms(1)
proof (induction rule: served.induct)
  case (Start ts)
  then show ?case using empty_inv by (simp add: new_graph_cache_def cache_held_def)
next
  case (Store d c P d')
  then have inv: "store_inv js sha d" by blast
  then have ok: "db_ok d" by (simp add: store_inv_def store_ok_def)
  have f: "store_inv js sha d'" "advance d d'" using store_step_forward[OF inv v Store.hyps(2)] by blast+
  then show ?case using graph_good_advance[OF f(2)] pending_good_advance[OF f(2) ok] Store.IH by blast
next
  case (Resolve d c P tenant name info)
  then obtain s where s: "find_state d tenant name = Some s" "sr_id s = ei_state_id info" "ei_serial info = max_serial d (sr_id s)"
    using resolve_trunk by metis
  have mem: "s \<in> set (db_states d)" "sr_tenant s = tenant" "sr_name s = name" using find_state_SomeD[OF s(1)] by simp_all
  have ids: "state_ids d \<subseteq> issued d" using Resolve.IH by (simp add: store_inv_def store_ok_def db_ok_def states_ok_def)
  have "(sr_id s, tenant, name) \<in> state_names d" unfolding state_names_def using mem by force
  then have "pending_good d (Resolved tenant name (sr_id s) (max_serial d (sr_id s)))"
    using mem(1) ids by (force simp: state_ids_def)
  then show ?case using Resolve.IH s(2,3) by simp
next
  case (Look d c P now sid serial)
  then show ?case using gc.look_keeps[of c "graph_good d" _ _ now "(sid, serial)"] by fastforce
next
  case (Load d c P tenant name sid serial g)
  then have ok: "db_ok d" and p: "pending_good d (Resolved tenant name sid serial)" by (auto simp: store_inv_def store_ok_def)
  obtain r where r: "find_state d tenant name = Some r" "build_graph_snapshot (open_rows d (sr_id r)) = Inr g"
    using Load.hyps(3) by (cases "find_state d tenant name") (auto simp: load_graph_def lift_error_def split: sum.splits)
  have "graph_good d (sid, serial) g" using p named_state[OF ok _ r(1)] r(2) by (auto simp: graph_good_def)
  then show ?case using Load.IH by simp
next
  case (Keep d c P sid serial g ord now)
  then have g: "graph_good d (sid, serial) g" by fastforce
  show ?case using gc.keep_keeps[of c "graph_good d" "(sid, serial)" g _ _ ord now] Keep.IH g by fastforce
qed

definition drop_hit :: "(engine_error, engine_state_info \<times> engine_graph \<times> bool) result \<Rightarrow> (engine_error, engine_state_info \<times> engine_graph) result" where
  "drop_hit r = (case r of Inl e \<Rightarrow> Inl e | Inr (info, g, hit) \<Rightarrow> Inr (info, g))"


section \<open>Its size\<close>

lemma oldest_from: "k \<noteq> [] \<Longrightarrow> \<forall>x \<in> set es. fst x \<noteq> [] \<Longrightarrow> oldest_entry es (k, at) \<in> insert k (fst ` set es)"
proof (induction es arbitrary: k at)
  case (Cons x es)
  obtain k' e where x: "x = (k', e)" by (cases x)
  show ?case using Cons.IH[of k' "ce_expires e"] Cons.IH[of k at] Cons.prems by (auto simp: x)
qed simp

lemma oldest_mem: "es \<noteq> [] \<Longrightarrow> \<forall>x \<in> set es. fst x \<noteq> [] \<Longrightarrow> oldest_entry es ([], at) \<in> fst ` set es"
proof (cases es)
  case (Cons x xs)
  moreover obtain k e where "x = (k, e)" by (cases x)
  moreover assume "\<forall>x \<in> set es. fst x \<noteq> []"
  ultimately show ?thesis using oldest_from[of k xs "ce_expires e"] by auto
qed simp

text \<open>The evicted entry is one that expires first.\<close>

lemma oldest_first:
  assumes "k \<noteq> []" and "\<forall>x \<in> set es. fst x \<noteq> []"
  shows "\<exists>e. (oldest_entry es (k, at), e) \<in> insert (k, at) ((\<lambda>x. (fst x, ce_expires (snd x))) ` set es) \<and>
    e \<le> at \<and> (\<forall>x \<in> set es. e \<le> ce_expires (snd x))"
  using assms
proof (induction es arbitrary: k at)
  case (Cons x es)
  obtain k' e' where x: "x = (k', e')" by (cases x)
  let ?k = "if ce_expires e' < at then k' else k" and ?at = "if ce_expires e' < at then ce_expires e' else at"
  have "?k \<noteq> []" "\<forall>x \<in> set es. fst x \<noteq> []" using Cons.prems x by auto
  from Cons.IH[OF this, of ?at] obtain e where
    e: "(oldest_entry es (?k, ?at), e) \<in> insert (?k, ?at) ((\<lambda>x. (fst x, ce_expires (snd x))) ` set es)"
    "e \<le> ?at" "\<forall>x \<in> set es. e \<le> ce_expires (snd x)" by blast
  have o: "oldest_entry (x # es) (k, at) = oldest_entry es (?k, ?at)" using Cons.prems(1) by (simp add: x)
  have "insert (?k, ?at) ((\<lambda>x. (fst x, ce_expires (snd x))) ` set es) \<subseteq>
      insert (k, at) ((\<lambda>x. (fst x, ce_expires (snd x))) ` set (x # es))" by (auto simp: x)
  then show ?case unfolding o using e by (intro exI[of _ e]) (auto simp: x split: if_splits)
qed simp

lemma length_alist_update: "length (AList.update k v xs) \<le> Suc (length xs)"
  by (induction xs) auto

definition cache_fits :: "graph_cache \<Rightarrow> bool" where
  "cache_fits c \<longleftrightarrow> 0 < gc_max c \<and> int (length (gc_entries c)) \<le> gc_max c \<and> (\<forall>x \<in> set (gc_entries c). fst x \<noteq> [])"

lemma evict_shrinks:
  assumes "es \<noteq> []" and "\<forall>x \<in> set es. fst x \<noteq> []" and "set (ord es) = set es"
  shows "length (evict_one ord es) < length es"
proof -
  have ne: "ord es \<noteq> []" using assms(1,3) by (metis set_empty2)
  let ?k = "oldest_entry (ord es) ([], 0)"
  have k: "?k \<in> fst ` set es" using oldest_mem[OF ne] assms(2,3) by simp
  then have "?k \<noteq> []" using assms(2) by auto
  moreover obtain e where "(?k, e) \<in> set es" using k by auto
  then have "length (AList.delete ?k es) < length es"
    unfolding AList.delete_eq by (rule length_filter_less) simp
  ultimately show ?thesis by (simp add: evict_one_def Let_def)
qed

lemma put_fits:
  assumes c: "cache_fits c" and ord: "\<And>es. set (ord es) = set es"
  shows "\<exists>c'. cache_put ord now sid serial g (Some c) = Some c' \<and> cache_fits c' \<and> gc_max c' = gc_max c"
proof -
  let ?live = "purge_entries now (gc_entries c)"
  let ?room = "if int (length ?live) \<ge> gc_max c then evict_one ord ?live else ?live"
  have live: "set ?live \<subseteq> set (gc_entries c)" "length ?live \<le> length (gc_entries c)" by (auto simp: purge_entries_def)
  have keys: "\<forall>x \<in> set ?live. fst x \<noteq> []" using c live(1) by (auto simp: cache_fits_def)
  have room: "int (length ?room) < gc_max c"
  proof (cases "int (length ?live) \<ge> gc_max c")
    case True
    then have "?live \<noteq> []" using c by (auto simp: cache_fits_def)
    then have "length (evict_one ord ?live) < length ?live" using evict_shrinks keys ord by blast
    then show ?thesis using True c live(2) by (simp add: cache_fits_def)
  qed simp
  have room_keys: "\<forall>x \<in> set ?room. fst x \<noteq> []" using keys set_evict[of ord ?live] by auto
  have u: "length (AList.update k v ?room) \<le> Suc (length ?room)" "set (AList.update k v ?room) \<subseteq> insert (k, v) (set ?room)" for k v
    by (rule length_alist_update, rule set_alist_update)
  let ?new = "AList.update (cache_key sid serial) \<lparr>ce_snapshot = g, ce_expires = now + gc_ttl c\<rparr> ?room"
  have "int (length ?new) \<le> gc_max c"
    using room u(1)[of "cache_key sid serial" "\<lparr>ce_snapshot = g, ce_expires = now + gc_ttl c\<rparr>"] by linarith
  moreover have "\<forall>x \<in> set ?new. fst x \<noteq> []"
  proof
    fix x assume "x \<in> set ?new"
    then have "x \<in> insert (cache_key sid serial, \<lparr>ce_snapshot = g, ce_expires = now + gc_ttl c\<rparr>) (set ?room)" using u(2) by blast
    then show "fst x \<noteq> []" using room_keys by (elim insertE) (simp_all add: cache_key_def)
  qed
  moreover have "cache_put ord now sid serial g (Some c) = Some (c\<lparr>gc_entries := ?new\<rparr>)" by (simp add: cache_put_def Let_def)
  ultimately show ?thesis using c by (simp add: cache_fits_def)
qed

text \<open>The cache never holds more graphs than it was made for, whatever the server does.\<close>

theorem graph_cache_bounded:
  "served js sha iter n ttl d c P \<Longrightarrow>
   c = None \<and> (n \<le> 0 \<or> ttl \<le> 0) \<or> (\<exists>a. c = Some a \<and> gc_max a = n \<and> int (length (gc_entries a)) \<le> n)"
proof -
  assume "served js sha iter n ttl d c P"
  then have "c = None \<and> (n \<le> 0 \<or> ttl \<le> 0) \<or> (\<exists>a. c = Some a \<and> gc_max a = n \<and> cache_fits a)"
  proof (induction rule: served.induct)
    case (Look d c P now sid serial)
    have "cache_fits (a\<lparr>gc_entries := AList.delete (cache_key sid serial) (gc_entries a)\<rparr>)" if "cache_fits a" for a
    proof -
      have "length (AList.delete (cache_key sid serial) (gc_entries a)) \<le> length (gc_entries a)"
        by (simp add: AList.delete_eq)
      then show ?thesis using that set_alist_delete[of "cache_key sid serial" "gc_entries a"] by (auto simp: cache_fits_def)
    qed
    note del = this
    show ?case
    proof (cases c)
      case (Some a)
      then have a: "cache_fits a" "gc_max a = n" using Look.IH by simp_all
      show ?thesis unfolding Some using a del[OF a(1)] by (auto simp: cache_get_def split: option.splits)
    qed (use Look.IH in \<open>simp add: cache_get_def\<close>)
  next
    case (Keep d c P sid serial g ord now)
    show ?case
    proof (cases c)
      case (Some a)
      then have "cache_fits a" "gc_max a = n" using Keep.IH by simp_all
      then show ?thesis using put_fits[of a ord now sid serial g] Keep.hyps(3) Some by blast
    qed (use Keep.IH in \<open>simp add: cache_put_def\<close>)
  qed (auto simp: new_graph_cache_def cache_fits_def)
  then show ?thesis by (auto simp: cache_fits_def)
qed

section \<open>A server\<close>

lemma reachable_served: "reachable js sha iter d \<Longrightarrow> served js sha iter n ttl d (new_graph_cache n ttl) {}"
  by (induction rule: reachable.induct) (auto intro: served.intros)

lemma visits_id: "visits id"
  by (simp add: visits_def)

definition run_graph :: engine_graph where
  "run_graph = projr (load_graph run_final ''t'' ''s'')"

definition run_cache :: "graph_cache option" where
  "run_cache = cache_put id 5 ''0'' 3 run_graph (new_graph_cache 64 60)"

lemma run_served: "\<exists>P. served (\<lambda>j. case j of JNum n \<Rightarrow> show_int n | _ \<Rightarrow> []) id id 64 60 run_final run_cache P"
proof -
  let ?js = "\<lambda>j. case j of JNum n \<Rightarrow> show_int n | _ \<Rightarrow> []"
  have r: "\<not> isl (resolve_engine_state_info run_final ''t'' ''s'')" by code_simp
  have r2: "\<not> isl (load_graph run_final ''t'' ''s'')" by code_simp
  have r3: "ei_state_id (projr (resolve_engine_state_info run_final ''t'' ''s'')) = ''0''" by code_simp
  have r4: "ei_serial (projr (resolve_engine_state_info run_final ''t'' ''s'')) = 3" by code_simp
  obtain info where info: "resolve_engine_state_info run_final ''t'' ''s'' = Inr info" "ei_state_id info = ''0''" "ei_serial info = 3"
    using not_isl_Inr[OF r] r3 r4 by auto
  have g: "load_graph run_final ''t'' ''s'' = Inr run_graph" using r2 by (simp add: run_graph_def)
  note s0 = reachable_served[OF run_final_reachable, of 64 60]
  note s1 = served.Resolve[OF s0 info(1), unfolded info(2,3)]
  have s2: "served ?js id id 64 60 run_final (new_graph_cache 64 60) (insert (Loaded ''0'' 3 run_graph) (insert (Resolved ''t'' ''s'' ''0'' 3) {}))"
    by (rule served.Load[OF s1 _ g]) simp
  have "served ?js id id 64 60 run_final (cache_put id 5 ''0'' 3 run_graph (new_graph_cache 64 60))
      (insert (Loaded ''0'' 3 run_graph) (insert (Resolved ''t'' ''s'' ''0'' 3) {}))"
    by (rule served.Keep[OF s2]) simp_all
  then show ?thesis unfolding run_cache_def by blast
qed


theorem graph_cache_bounded_witness:
  "int (length (gc_entries (the run_cache))) \<le> 64 \<and> run_cache \<noteq> None"
proof -
  obtain P where "served (\<lambda>j. case j of JNum n \<Rightarrow> show_int n | _ \<Rightarrow> []) id id 64 60 run_final run_cache P" using run_served by blast
  then obtain a where "run_cache = Some a" "gc_max a = 64" "int (length (gc_entries a)) \<le> 64"
    using graph_cache_bounded by fastforce
  then show ?thesis by (metis option.sel option.distinct(1))
qed

end
