(* ===== verification/Control.thy ===== *)
theory Control
  imports Tables "HOL-Library.Product_Lexorder"
begin

text \<open>
  The control plane: tenants, environments, API tokens and role grants as tables, and the operations on tenants and
  environments (\<^verbatim>\<open>pkg/store\<close>: tenants.go, environments.go, environments_dedicated.go, environments_scan.go,
  environment_lock_defaults.go, control_audit.go); \<open>ControlAccess\<close> has the lifecycle, the tokens and the roles. A statement that violates a constraint of the schema
  (\<^verbatim>\<open>pkg/migrate/migrations\<close>) is an error, and a failing transaction leaves the tables as they were. Generated
  identifiers and names, the clock and the hash are arguments; identifiers of rows come from a counter.
  Billing columns of Stripe and the migration columns of environments are left out. In \<open>GetEnvironmentByTenantSlug\<close>
  the database may return any matching row: \<open>pick\<close> chooses.
\<close>

section \<open>Tables\<close>

record tenant_account =
  te_id :: string
  te_workspace :: string
  te_slug :: string
  te_name :: string
  te_kind :: string
  te_owner :: "string option"
  te_status :: string
  te_changed_at :: "nat option"
  te_changed_by :: string
  te_reason :: string
  te_plan :: string
  te_max_environments :: int
  te_max_state_resources :: int
  te_max_environment_resources :: int

record environment =
  nv_id :: string
  nv_public :: string
  nv_tenant :: string
  nv_slug :: string
  nv_lock_default :: string
  nv_status :: string
  nv_tier :: string
  nv_provision :: string
  nv_instance_key :: string
  nv_database_name :: "string option"
  nv_dsn :: "string option"
  nv_host :: string
  nv_source_dsn :: "string option"
  nv_error :: "string option"
  nv_started_at :: "nat option"
  nv_finished_at :: "nat option"
  nv_changed_at :: "nat option"
  nv_changed_by :: string
  nv_reason :: string

record api_token =
  tk_id :: string
  tk_tenant :: string
  tk_env :: string
  tk_name :: string
  tk_hash :: string
  tk_prefix :: string
  tk_status :: string
  tk_revoked_at :: "nat option"
  tk_created_at :: nat
  tk_last_used_at :: "nat option"
  tk_changed_at :: "nat option"
  tk_changed_by :: string
  tk_reason :: string

record role_grant =
  gr_id :: string
  gr_subject_kind :: string
  gr_subject :: string
  gr_role :: string
  gr_scope_kind :: string
  gr_scope_ref :: string
  gr_granted_by :: string
  gr_granted_at :: nat
  gr_revoked_at :: "nat option"

record control_event =
  ve_kind :: string
  ve_tenant :: string
  ve_actor :: string

record control =
  cp_tenants :: "tenant_account list"
  cp_environments :: "environment list"
  cp_tokens :: "api_token list"
  cp_grants :: "role_grant list"
  cp_roles :: "(string \<times> string list) list"
  cp_events :: "control_event list"
  cp_next :: nat

datatype control_error =
    Required string
  | TenantNotFound
  | EnvironmentNotFound
  | TokenNotFound
  | Unauthenticated
  | Inactive string string
  | LimitReached int
  | PersonalWorkspace
  | ActiveEnvironments nat
  | ActiveStates nat
  | DedicatedStorage
  | ReasonRequired string
  | NegativeLimit
  | SameNickname
  | BadLockDefault
  | NoSlugLeft
  | GrantNotFound
  | NoRows
  | NotDeleted
  | DuplicateKey string
  | ForeignKey string
  | NotNull string
  | CheckFailed string

definition control_id :: "control \<Rightarrow> string" where
  "control_id c = show_nat (cp_next c)"

definition update_rows :: "('a \<Rightarrow> bool) \<Rightarrow> ('a \<Rightarrow> 'a) \<Rightarrow> 'a list \<Rightarrow> 'a list" where
  "update_rows P f = map (\<lambda>x. if P x then f x else x)"

definition one_row_of :: "control_error \<Rightarrow> ('a \<Rightarrow> bool) \<Rightarrow> 'a list \<Rightarrow> (control_error, 'a) result" where
  "one_row_of e P xs = (case find P xs of None \<Rightarrow> Inl e | Some x \<Rightarrow> Inr x)"

definition require :: "bool \<Rightarrow> control_error \<Rightarrow> (control_error, unit) result" where
  "require b e = (if b then Inr () else Inl e)"

text \<open>An event names an existing tenant: the column is a foreign key, and the empty text is no identifier.\<close>

definition insert_control_event :: "string \<Rightarrow> string \<Rightarrow> string \<Rightarrow> control \<Rightarrow> (control_error, control) result" where
  "insert_control_event kind tenant actor c =
     bind_result (require (tenant \<in> te_id ` set (cp_tenants c)) (ForeignKey ''events'')) (\<lambda>_.
       Inr (c\<lparr>cp_events := cp_events c @ [\<lparr>ve_kind = kind, ve_tenant = tenant, ve_actor = actor\<rparr>]\<rparr>))"

section \<open>Tenants\<close>

definition get_tenant_by_slug :: "control \<Rightarrow> string \<Rightarrow> (control_error, tenant_account) result" where
  "get_tenant_by_slug c slug = one_row_of TenantNotFound (\<lambda>t. te_slug t = trim_space slug) (cp_tenants c)"

definition get_tenant_by_workspace :: "control \<Rightarrow> string \<Rightarrow> (control_error, tenant_account) result" where
  "get_tenant_by_workspace c ws = one_row_of TenantNotFound (\<lambda>t. te_workspace t = trim_space ws) (cp_tenants c)"

definition get_tenant_by_selector :: "control \<Rightarrow> string \<Rightarrow> (control_error, tenant_account) result" where
  "get_tenant_by_selector c selector0 =
     (let selector = trim_space selector0
      in if selector = [] then Inl TenantNotFound
         else (case get_tenant_by_workspace c selector of
            Inr t \<Rightarrow> Inr t
          | Inl e \<Rightarrow> if e = TenantNotFound then get_tenant_by_slug c selector else Inl e))"

definition list_tenants_all :: "control \<Rightarrow> tenant_account list" where
  "list_tenants_all c = sort_key te_slug (cp_tenants c)"

definition list_tenants :: "control \<Rightarrow> tenant_account list" where
  "list_tenants c = sort_key te_slug (filter (\<lambda>t. te_status t = ''active'') (cp_tenants c))"

definition new_environment :: "control \<Rightarrow> string \<Rightarrow> string \<Rightarrow> string \<Rightarrow> string \<Rightarrow> environment" where
  "new_environment c tenant pub slug mode =
     \<lparr>nv_id = control_id c, nv_public = pub, nv_tenant = tenant, nv_slug = slug, nv_lock_default = mode, nv_status = ''active'',
      nv_tier = ''shared_host'', nv_provision = ''ready'', nv_instance_key = ''shared'', nv_database_name = None, nv_dsn = None,
      nv_host = [], nv_source_dsn = None, nv_error = None, nv_started_at = None, nv_finished_at = None, nv_changed_at = None,
      nv_changed_by = [], nv_reason = []\<rparr>"

definition insert_environment :: "environment \<Rightarrow> control \<Rightarrow> (control_error, control) result" where
  "insert_environment v c =
     bind_result (require (nv_tenant v \<in> te_id ` set (cp_tenants c)) (ForeignKey ''environments'')) (\<lambda>_.
     bind_result (require (nv_tier v \<in> {''shared_host'', ''dedicated_host''}) (CheckFailed ''tier'')) (\<lambda>_.
     bind_result (require (nv_public v \<notin> nv_public ` set (cp_environments c)) (DuplicateKey ''env_public_id'')) (\<lambda>_.
     bind_result (require ((nv_tenant v, nv_slug v) \<notin> (\<lambda>x. (nv_tenant x, nv_slug x)) ` set (cp_environments c))
         (DuplicateKey ''environments_tenant_slug_key'')) (\<lambda>_.
       Inr (c\<lparr>cp_environments := cp_environments c @ [v], cp_next := Suc (cp_next c)\<rparr>)))))"

definition ensure_default_environment :: "string \<Rightarrow> string \<Rightarrow> control \<Rightarrow> (control_error, environment \<times> control) result" where
  "ensure_default_environment pub tenant c =
     (case find (\<lambda>v. nv_tenant v = tenant \<and> nv_slug v = ''default'') (cp_environments c) of
        Some v \<Rightarrow> Inr (v, c)
      | None \<Rightarrow>
          (let v = new_environment c tenant pub ''default'' ''auto''
           in bind_result (insert_environment v c) (\<lambda>c'. Inr (v, c'))))"

text \<open>A slug that is taken is replaced by a generated one, four times; the name stays.\<close>

fun create_tenant_loop :: "nat \<Rightarrow> (nat \<Rightarrow> string) \<Rightarrow> (nat \<Rightarrow> string) \<Rightarrow> string \<Rightarrow> string \<Rightarrow> control \<Rightarrow>
    (control_error, tenant_account \<times> control) result" where
  "create_tenant_loop 0 gen workspace slug name c = Inl NoSlugLeft"
| "create_tenant_loop (Suc n) gen workspace slug name c =
     (if workspace n \<in> te_workspace ` set (cp_tenants c) then Inl (DuplicateKey ''tenants_workspace_id_key'')
      else if slug \<in> te_slug ` set (cp_tenants c) then create_tenant_loop n gen workspace (gen n) name c
      else (let t = \<lparr>te_id = control_id c, te_workspace = workspace n, te_slug = slug, te_name = name, te_kind = ''organization'',
                te_owner = None, te_status = ''active'', te_changed_at = None, te_changed_by = [], te_reason = [],
                te_plan = ''starter'', te_max_environments = 0, te_max_state_resources = 0, te_max_environment_resources = 0\<rparr>
            in Inr (t, c\<lparr>cp_tenants := cp_tenants c @ [t], cp_next := Suc (cp_next c)\<rparr>)))"

definition create_tenant :: "(nat \<Rightarrow> string) \<Rightarrow> (nat \<Rightarrow> string) \<Rightarrow> string \<Rightarrow> bool \<Rightarrow> string \<Rightarrow> string \<Rightarrow> control \<Rightarrow>
    control \<times> (control_error, tenant_account) result" where
  "create_tenant gen workspace pub create_default slug0 name0 c =
     (let slug = (if trim_space slug0 = [] then gen 5 else trim_space slug0);
          name = (if trim_space name0 = [] then slug else trim_space name0)
      in case create_tenant_loop 5 gen workspace slug name c of
           Inl e \<Rightarrow> (c, Inl e)
         | Inr (t, c') \<Rightarrow>
             if create_default
             then (case ensure_default_environment pub (te_id t) c' of Inl e \<Rightarrow> (c', Inl e) | Inr (v, c'') \<Rightarrow> (c'', Inr t))
             else (c', Inr t))"

definition set_tenant_entitlements :: "string \<Rightarrow> string \<Rightarrow> int \<Rightarrow> int \<Rightarrow> int \<Rightarrow> string \<Rightarrow> control \<Rightarrow> (control_error, control) result" where
  "set_tenant_entitlements slug0 plan0 envs states env_resources actor c =
     (let slug = trim_space slug0; plan = (if trim_space plan0 = [] then ''starter'' else trim_space plan0)
      in bind_result (require (slug \<noteq> []) (Required ''tenant slug'')) (\<lambda>_.
         bind_result (require (0 \<le> envs \<and> 0 \<le> states \<and> 0 \<le> env_resources) NegativeLimit) (\<lambda>_.
         bind_result (one_row_of TenantNotFound (\<lambda>t. te_slug t = slug) (cp_tenants c)) (\<lambda>t.
           insert_control_event ''tenant_entitlements_update'' (te_id t) actor
             (c\<lparr>cp_tenants := update_rows (\<lambda>t. te_slug t = slug) (\<lambda>t. t\<lparr>te_plan := plan, te_max_environments := envs,
                 te_max_state_resources := states, te_max_environment_resources := env_resources\<rparr>) (cp_tenants c)\<rparr>)))))"

section \<open>Environments\<close>

definition normalize_instance_key :: "string \<Rightarrow> string" where
  "normalize_instance_key key = (let k = map lower_char (trim_space key) in if k = [] then ''shared'' else k)"

definition database_name_for :: "string \<Rightarrow> string \<Rightarrow> string" where
  "database_name_for tenant env =
     (let s = map lower_char (''kl_'' @ tenant @ ''_'' @ env);
          keep = (\<lambda>ch. CHR ''a'' \<le> ch \<and> ch \<le> CHR ''z'' \<or> CHR ''0'' \<le> ch \<and> ch \<le> CHR ''9'');
          name = map (\<lambda>ch. if keep ch then ch else CHR ''_'') (filter (\<lambda>ch. keep ch \<or> ch = CHR ''-'' \<or> ch = CHR ''_'') s)
      in take 48 (if name = [] then ''env'' else name))"

definition create_environment ::
    "string \<Rightarrow> nat \<Rightarrow> string \<Rightarrow> string \<Rightarrow> string \<Rightarrow> string \<Rightarrow> string \<Rightarrow> control \<Rightarrow> (control_error, environment \<times> control) result" where
  "create_environment pub now selector0 slug0 tier0 key mode0 c =
     (let selector = trim_space selector0; slug = trim_space slug0; mode = normalize_lock_default mode0;
          tier = (let t = trim_space tier0 in if t = [] \<or> t = ''shared'' then ''shared_host''
                  else if t = ''dedicated'' then ''dedicated_host'' else tier0)
      in bind_result (require (selector \<noteq> [] \<and> slug \<noteq> []) (Required ''workspace and environment'')) (\<lambda>_.
         bind_result (require (mode \<noteq> []) BadLockDefault) (\<lambda>_.
         bind_result (get_tenant_by_selector c selector) (\<lambda>t.
         bind_result (require (te_status t = ''active'') (Inactive (te_slug t) (te_status t))) (\<lambda>_.
         bind_result (require (te_max_environments t \<le> 0 \<or>
             int (length (filter (\<lambda>v. nv_tenant v = te_id t \<and> nv_status v = ''active'') (cp_environments c))) < te_max_environments t)
             (LimitReached (te_max_environments t))) (\<lambda>_.
           let v = (new_environment c (te_id t) pub slug mode)\<lparr>nv_tier := tier,
                nv_provision := (if tier = ''dedicated_host'' then ''provisioning'' else ''ready''),
                nv_instance_key := normalize_instance_key key, nv_database_name := Some (database_name_for (te_slug t) slug),
                nv_started_at := (if tier = ''dedicated_host'' then Some now else None)\<rparr>
           in bind_result (insert_environment v c) (\<lambda>c'. Inr (v, c'))))))))"

text \<open>The reason is set to \<^verbatim>\<open>NULLIF($5, '')\<close>, and the column is \<^verbatim>\<open>NOT NULL\<close>.\<close>

definition rename_environment ::
    "nat \<Rightarrow> string \<Rightarrow> string \<Rightarrow> string \<Rightarrow> string \<Rightarrow> string \<Rightarrow> control \<Rightarrow> (control_error, environment \<times> control) result" where
  "rename_environment now tenant0 current0 new0 actor0 reason0 c =
     (let tenant = trim_space tenant0; current = trim_space current0; new = trim_space new0;
          actor = trim_space actor0; reason = trim_space reason0
      in bind_result (require (tenant \<noteq> [] \<and> current \<noteq> [] \<and> new \<noteq> []) (Required ''slugs'')) (\<lambda>_.
         bind_result (require (\<not> equal_fold current new) SameNickname) (\<lambda>_.
         bind_result (get_tenant_by_slug c tenant) (\<lambda>t.
         let hit = (\<lambda>v. nv_tenant v = te_id t \<and> nv_slug v = current)
         in bind_result (one_row_of EnvironmentNotFound hit (cp_environments c)) (\<lambda>v.
            bind_result (require (reason \<noteq> []) (NotNull ''lifecycle_reason'')) (\<lambda>_.
            bind_result (require ((te_id t, new) \<notin> (\<lambda>x. (nv_tenant x, nv_slug x)) ` set (cp_environments c))
                (DuplicateKey ''environments_tenant_slug_key'')) (\<lambda>_.
            let f = (\<lambda>v. v\<lparr>nv_slug := new, nv_changed_at := Some now, nv_changed_by := actor, nv_reason := reason\<rparr>)
            in bind_result (insert_control_event ''environment_renamed'' (te_id t) actor
                  (c\<lparr>cp_environments := update_rows hit f (cp_environments c)\<rparr>)) (\<lambda>c'. Inr (f v, c')))))))))"

definition null_if_empty :: "string \<Rightarrow> string option" where
  "null_if_empty s = (if s = [] then None else Some s)"

definition update_environment :: "string \<Rightarrow> (environment \<Rightarrow> environment) \<Rightarrow> control \<Rightarrow> (control_error, control) result" where
  "update_environment i f c =
     (if i \<in> nv_id ` set (cp_environments c)
      then Inr (c\<lparr>cp_environments := update_rows (\<lambda>v. nv_id v = i) f (cp_environments c)\<rparr>)
      else Inl EnvironmentNotFound)"

definition set_environment_dsn :: "string \<Rightarrow> string \<Rightarrow> control \<Rightarrow> (control_error, control) result" where
  "set_environment_dsn i dsn = update_environment i (\<lambda>v. v\<lparr>nv_dsn := null_if_empty (trim_space dsn), nv_provision := ''ready''\<rparr>)"

definition get_environment_by_id :: "control \<Rightarrow> string \<Rightarrow> (control_error, environment) result" where
  "get_environment_by_id c i = one_row_of EnvironmentNotFound (\<lambda>v. nv_id v = i) (cp_environments c)"

definition get_environment_by_selector :: "control \<Rightarrow> string \<Rightarrow> (control_error, environment) result" where
  "get_environment_by_selector c ref =
     one_row_of EnvironmentNotFound (\<lambda>v. nv_id v = trim_space ref \<or> nv_public v = trim_space ref) (cp_environments c)"

type_synonym env_pick = "environment list \<Rightarrow> environment list"

definition tenant_of :: "control \<Rightarrow> environment \<Rightarrow> tenant_account option" where
  "tenant_of c v = find (\<lambda>t. te_id t = nv_tenant v) (cp_tenants c)"

definition get_environment_by_tenant_slug :: "env_pick \<Rightarrow> control \<Rightarrow> string \<Rightarrow> string \<Rightarrow> (control_error, environment) result" where
  "get_environment_by_tenant_slug pick c tenant0 env0 =
     (let tenant = trim_space tenant0; env = trim_space env0;
          hits = filter (\<lambda>v. (nv_slug v = env \<or> nv_public v = env) \<and>
            (case tenant_of c v of None \<Rightarrow> False | Some t \<Rightarrow> te_slug t = tenant \<or> te_workspace t = tenant)) (cp_environments c)
      in case pick hits of [] \<Rightarrow> Inl EnvironmentNotFound | v # _ \<Rightarrow> Inr v)"

definition list_environments_all :: "control \<Rightarrow> string \<Rightarrow> (control_error, environment list) result" where
  "list_environments_all c selector = bind_result (get_tenant_by_selector c selector) (\<lambda>t.
     Inr (sort_key nv_slug (filter (\<lambda>v. nv_tenant v = te_id t) (cp_environments c))))"

definition list_environments :: "control \<Rightarrow> string \<Rightarrow> (control_error, environment list) result" where
  "list_environments c selector = bind_result (get_tenant_by_selector c selector) (\<lambda>t.
     Inr (sort_key nv_slug (filter (\<lambda>v. nv_tenant v = te_id t \<and> nv_status v = ''active'') (cp_environments c))))"

definition served_environment :: "control \<Rightarrow> environment \<Rightarrow> bool" where
  "served_environment c v \<longleftrightarrow> nv_status v = ''active'' \<and> (case tenant_of c v of None \<Rightarrow> False | Some t \<Rightarrow> te_status t = ''active'')"

definition tenant_slug_of :: "control \<Rightarrow> environment \<Rightarrow> string" where
  "tenant_slug_of c v = (case tenant_of c v of None \<Rightarrow> [] | Some t \<Rightarrow> te_slug t)"

definition list_environments_with_dsn :: "control \<Rightarrow> environment list" where
  "list_environments_with_dsn c = sort_key (\<lambda>v. (tenant_slug_of c v, nv_slug v))
     (filter (\<lambda>v. nv_provision v = ''ready'' \<and> served_environment c v \<and> nv_dsn v \<noteq> None \<and> nv_dsn v \<noteq> Some []) (cp_environments c))"

definition set_environment_lock_default :: "string \<Rightarrow> string \<Rightarrow> string \<Rightarrow> control \<Rightarrow> (control_error, control) result" where
  "set_environment_lock_default selector0 slug0 mode0 c =
     (let selector = trim_space selector0; slug = trim_space slug0; mode = normalize_lock_default mode0
      in bind_result (require (selector \<noteq> [] \<and> slug \<noteq> []) (Required ''workspace and environment'')) (\<lambda>_.
         bind_result (require (mode \<noteq> []) BadLockDefault) (\<lambda>_.
         bind_result (get_tenant_by_selector c selector) (\<lambda>t.
         let hit = (\<lambda>v. nv_tenant v = te_id t \<and> nv_slug v = slug)
         in bind_result (one_row_of EnvironmentNotFound hit (cp_environments c)) (\<lambda>_.
              Inr (c\<lparr>cp_environments := update_rows hit (\<lambda>v. v\<lparr>nv_lock_default := mode\<rparr>) (cp_environments c)\<rparr>))))))"

definition get_environment_lock_default :: "control \<Rightarrow> string \<Rightarrow> string \<Rightarrow> (control_error, string) result" where
  "get_environment_lock_default c selector0 slug0 =
     (let selector = trim_space selector0; slug = trim_space slug0
      in bind_result (require (selector \<noteq> [] \<and> slug \<noteq> []) (Required ''workspace and environment'')) (\<lambda>_.
         bind_result (get_tenant_by_selector c selector) (\<lambda>t.
         bind_result (one_row_of EnvironmentNotFound (\<lambda>v. nv_tenant v = te_id t \<and> nv_slug v = slug) (cp_environments c)) (\<lambda>v.
         bind_result (require (normalize_lock_default (nv_lock_default v) \<noteq> []) BadLockDefault) (\<lambda>_.
           Inr (normalize_lock_default (nv_lock_default v)))))))"

section \<open>Dedicated hosts\<close>

definition request_dedicated_upgrade ::
    "env_pick \<Rightarrow> nat \<Rightarrow> string \<Rightarrow> string \<Rightarrow> control \<Rightarrow> (control_error, environment \<times> control) result" where
  "request_dedicated_upgrade pick now tenant env c =
     bind_result (get_environment_by_tenant_slug pick c tenant env) (\<lambda>v.
     bind_result (require (nv_status v = ''active'') (Inactive (nv_slug v) (nv_status v))) (\<lambda>_.
       if nv_tier v = ''dedicated_host'' \<and> nv_provision v = ''provisioning'' then Inr (v, c)
       else
         (let f = (\<lambda>x. x\<lparr>nv_tier := ''dedicated_host'', nv_provision := ''provisioning'',
                nv_source_dsn := null_if_empty (trim_space (case nv_dsn v of None \<Rightarrow> [] | Some s \<Rightarrow> s)), nv_error := None,
                nv_started_at := (case nv_started_at x of None \<Rightarrow> Some now | Some t \<Rightarrow> Some t), nv_finished_at := None\<rparr>)
          in bind_result (update_environment (nv_id v) f c) (\<lambda>c'. Inr (f v, c')))))"

text \<open>Environments that wait for a host, the ones without a start first.\<close>

definition list_dedicated_provisioning :: "control \<Rightarrow> environment list" where
  "list_dedicated_provisioning c = sort_key (\<lambda>v. (case nv_started_at v of None \<Rightarrow> 0 | Some t \<Rightarrow> Suc t, tenant_slug_of c v, nv_slug v))
     (filter (\<lambda>v. nv_tier v = ''dedicated_host'' \<and> nv_provision v = ''provisioning'' \<and> served_environment c v) (cp_environments c))"

definition complete_dedicated_provision :: "nat \<Rightarrow> string \<Rightarrow> string \<Rightarrow> string \<Rightarrow> control \<Rightarrow> (control_error, control) result" where
  "complete_dedicated_provision now i host dsn = update_environment i (\<lambda>v. v\<lparr>nv_host := host,
     nv_instance_key := (if host \<noteq> [] then host else nv_instance_key v), nv_dsn := Some dsn, nv_source_dsn := None,
     nv_provision := ''ready'', nv_error := None, nv_finished_at := Some now\<rparr>)"

definition fail_dedicated_provision :: "nat \<Rightarrow> string \<Rightarrow> string \<Rightarrow> control \<Rightarrow> (control_error, control) result" where
  "fail_dedicated_provision now i msg = update_environment i (\<lambda>v. v\<lparr>nv_provision := ''failed'', nv_error := Some msg, nv_finished_at := Some now\<rparr>)"

end
