(* ===== verification/ControlAccess.thy ===== *)
theory ControlAccess
  imports Control
begin

text \<open>
  The lifecycle of tenants, environments and tokens, the tokens themselves and the roles granted to them
  (\<^verbatim>\<open>pkg/store\<close>: lifecycle_mutations.go, lifecycle_retention.go, archive_names.go, api_tokens.go, rbac.go,
  control_operators.go). Arguments: the hash of a secret \<open>H\<close>, a generated secret, three random bytes for an archive
  name, the clock, and \<open>pick\<close>, the order in which the database returns the rows that match.
\<close>

section \<open>Archive names\<close>

definition archive_adjectives :: "string list" where
  "archive_adjectives = [''faulty'', ''silent'', ''brave'', ''gentle'', ''bright'', ''steady'', ''curious'', ''frozen'', ''lucky'', ''swift'']"

definition archive_nouns :: "string list" where
  "archive_nouns = [''dragon'', ''river'', ''forest'', ''comet'', ''otter'', ''falcon'', ''lantern'', ''harbor'', ''cloud'', ''meadow'']"

type_synonym random_bytes = "(nat \<times> nat \<times> nat) option"

definition random_archive_suffix :: "random_bytes \<Rightarrow> string" where
  "random_archive_suffix raw = (case raw of
     None \<Rightarrow> ''hidden-6967''
   | Some (a, b, x) \<Rightarrow> archive_adjectives ! (a mod length archive_adjectives) @ ''-'' @ archive_nouns ! (b mod length archive_nouns) @
       ''-'' @ [hex_char (x div 16 mod 16), hex_char (x mod 16)])"

definition archived_label_name :: "random_bytes \<Rightarrow> string \<Rightarrow> string" where
  "archived_label_name raw original0 =
     (let original = (if trim_space original0 = [] then ''archived'' else trim_space original0)
      in original @ ''--archived-'' @ random_archive_suffix raw)"

definition archived_state_name :: "random_bytes \<Rightarrow> string \<Rightarrow> string" where
  "archived_state_name raw original0 =
     (let original = trim_space original0
      in case last_index (CHR ''/'') original of
           None \<Rightarrow> archived_label_name raw original
         | Some i \<Rightarrow> take (Suc i) original @ archived_label_name raw (drop (Suc i) original))"

section \<open>Lifecycle\<close>

definition validate_transition_audit :: "string \<Rightarrow> string \<Rightarrow> (control_error, unit) result" where
  "validate_transition_audit status reason =
     require (status \<notin> {''suspended'', ''archived''} \<or> trim_space reason \<noteq> []) (ReasonRequired status)"

definition check_status :: "string \<Rightarrow> (control_error, unit) result" where
  "check_status status = require (status \<in> {''active'', ''suspended'', ''archived''}) (CheckFailed ''lifecycle_status'')"

definition set_tenant_status :: "nat \<Rightarrow> string \<Rightarrow> string \<Rightarrow> string \<Rightarrow> string \<Rightarrow> control \<Rightarrow> (control_error, control) result" where
  "set_tenant_status now slug status actor0 reason0 c =
     (let actor = trim_space actor0; reason = trim_space reason0
      in bind_result (validate_transition_audit status reason) (\<lambda>_.
         bind_result (one_row_of TenantNotFound (\<lambda>t. te_slug t = trim_space slug) (cp_tenants c)) (\<lambda>t.
         bind_result (check_status status) (\<lambda>_.
           insert_control_event ''tenant_lifecycle_update'' (te_id t) actor
             (c\<lparr>cp_tenants := update_rows (\<lambda>x. te_id x = te_id t) (\<lambda>x. x\<lparr>te_status := status, te_changed_at := Some now,
                 te_changed_by := actor, te_reason := reason\<rparr>) (cp_tenants c)\<rparr>)))))"

definition environment_named :: "control \<Rightarrow> string \<Rightarrow> string \<Rightarrow> environment \<Rightarrow> bool" where
  "environment_named c tenant env v \<longleftrightarrow>
     nv_slug v = env \<and> (case tenant_of c v of None \<Rightarrow> False | Some t \<Rightarrow> te_slug t = tenant)"

text \<open>An archived environment gives its name free. The new name must not be taken.\<close>

definition restate_environment :: "nat \<Rightarrow> environment \<Rightarrow> string \<Rightarrow> string \<Rightarrow> string \<Rightarrow> string \<Rightarrow> control \<Rightarrow> (control_error, control) result" where
  "restate_environment now v final status actor reason c =
     bind_result (require ((nv_tenant v, final) \<notin> (\<lambda>x. (nv_tenant x, nv_slug x)) ` {x \<in> set (cp_environments c). nv_id x \<noteq> nv_id v})
         (DuplicateKey ''environments_tenant_slug_key'')) (\<lambda>_.
       insert_control_event ''environment_lifecycle_update'' (nv_tenant v) actor
         (c\<lparr>cp_environments := update_rows (\<lambda>x. nv_id x = nv_id v) (\<lambda>x. x\<lparr>nv_status := status, nv_slug := final,
             nv_changed_at := Some now, nv_changed_by := actor, nv_reason := reason\<rparr>) (cp_environments c)\<rparr>))"

definition set_environment_status ::
    "random_bytes \<Rightarrow> nat \<Rightarrow> string \<Rightarrow> string \<Rightarrow> string \<Rightarrow> string \<Rightarrow> string \<Rightarrow> control \<Rightarrow> (control_error, control) result" where
  "set_environment_status raw now tenant0 env0 status actor0 reason0 c =
     (let tenant = trim_space tenant0; env = trim_space env0; actor = trim_space actor0; reason = trim_space reason0;
          final = (if status = ''archived'' then archived_label_name raw env else env)
      in bind_result (require (tenant \<noteq> [] \<and> env \<noteq> []) (Required ''tenant and environment'')) (\<lambda>_.
         bind_result (validate_transition_audit status reason) (\<lambda>_.
         bind_result (one_row_of EnvironmentNotFound (environment_named c tenant env) (cp_environments c)) (\<lambda>v.
         bind_result (check_status status) (\<lambda>_. restate_environment now v final status actor reason c)))))"

definition set_token_status :: "nat \<Rightarrow> string \<Rightarrow> string \<Rightarrow> string \<Rightarrow> string \<Rightarrow> control \<Rightarrow> (control_error, control) result" where
  "set_token_status now i status actor0 reason0 c =
     (let actor = trim_space actor0; reason = trim_space reason0
      in bind_result (validate_transition_audit status reason) (\<lambda>_.
         bind_result (one_row_of TokenNotFound (\<lambda>k. tk_id k = i) (cp_tokens c)) (\<lambda>k.
         bind_result (check_status status) (\<lambda>_.
           insert_control_event ''api_token_lifecycle_update'' (tk_tenant k) actor
             (c\<lparr>cp_tokens := update_rows (\<lambda>x. tk_id x = i) (\<lambda>x. x\<lparr>tk_status := status, tk_changed_at := Some now,
                 tk_changed_by := actor, tk_reason := reason\<rparr>) (cp_tokens c)\<rparr>)))))"

definition active_states :: "state_row list \<Rightarrow> tenant_account \<Rightarrow> environment \<Rightarrow> nat" where
  "active_states states t v =
     (let pattern = trim_space (te_workspace t) @ ''/'' @ trim_space (nv_public v) @ ''/%''
      in length (filter (\<lambda>s. sr_tenant s = te_id t \<and> sr_status s = ''active'' \<and> like pattern (sr_name s)) states))"

definition delete_environment ::
    "random_bytes \<Rightarrow> nat \<Rightarrow> state_row list \<Rightarrow> string \<Rightarrow> string \<Rightarrow> string \<Rightarrow> string \<Rightarrow> control \<Rightarrow> (control_error, control) result" where
  "delete_environment raw now states tenant0 env0 actor0 reason0 c =
     (let tenant = trim_space tenant0; env = trim_space env0; actor = trim_space actor0;
          reason = (if trim_space reason0 = [] then ''environment delete'' else trim_space reason0)
      in bind_result (require (tenant \<noteq> [] \<and> env \<noteq> []) (Required ''tenant and environment'')) (\<lambda>_.
         bind_result (one_row_of EnvironmentNotFound (environment_named c tenant env) (cp_environments c)) (\<lambda>v.
         bind_result (one_row_of EnvironmentNotFound (\<lambda>t. te_id t = nv_tenant v) (cp_tenants c)) (\<lambda>t.
         bind_result (require (trim_space (case nv_dsn v of None \<Rightarrow> [] | Some s \<Rightarrow> s) = []) DedicatedStorage) (\<lambda>_.
         bind_result (require (active_states states t v = 0) (ActiveStates (active_states states t v))) (\<lambda>_.
           restate_environment now v (archived_label_name raw env) ''archived'' actor reason
             (c\<lparr>cp_tokens := update_rows (\<lambda>k. tk_env k = nv_id v \<and> tk_status k \<noteq> ''archived'')
                 (\<lambda>k. k\<lparr>tk_status := ''archived'', tk_changed_at := Some now, tk_changed_by := actor, tk_reason := reason\<rparr>)
                 (cp_tokens c)\<rparr>)))))))"

definition active_environments :: "control \<Rightarrow> string \<Rightarrow> nat" where
  "active_environments c tenant = length (filter (\<lambda>v. nv_tenant v = tenant \<and> nv_status v = ''active'') (cp_environments c))"

definition delete_tenant :: "nat \<Rightarrow> string \<Rightarrow> string \<Rightarrow> string \<Rightarrow> control \<Rightarrow> (control_error, control) result" where
  "delete_tenant now slug0 actor0 reason0 c =
     (let slug = trim_space slug0; actor = trim_space actor0;
          reason = (if trim_space reason0 = [] then ''workspace delete'' else trim_space reason0)
      in bind_result (require (slug \<noteq> []) (Required ''tenant slug'')) (\<lambda>_.
         bind_result (one_row_of TenantNotFound (\<lambda>t. te_slug t = slug) (cp_tenants c)) (\<lambda>t.
         bind_result (require (\<not> equal_fold (trim_space (te_kind t)) ''personal'') PersonalWorkspace) (\<lambda>_.
         bind_result (require (active_environments c (te_id t) = 0) (ActiveEnvironments (active_environments c (te_id t)))) (\<lambda>_.
           insert_control_event ''tenant_lifecycle_update'' (te_id t) actor
             (c\<lparr>cp_tenants := update_rows (\<lambda>x. te_id x = te_id t) (\<lambda>x. x\<lparr>te_status := ''archived'', te_changed_at := Some now,
                 te_changed_by := actor, te_reason := reason\<rparr>) (cp_tenants c)\<rparr>))))))"

section \<open>Retention\<close>

definition archived_before :: "nat \<Rightarrow> tenant_account \<Rightarrow> bool" where
  "archived_before older t \<longleftrightarrow> te_status t = ''archived'' \<and> (case te_changed_at t of None \<Rightarrow> False | Some n \<Rightarrow> n \<le> older)"

record purge_candidate =
  pc_tenant :: string
  pc_slug :: string
  pc_environments :: nat
  pc_tokens :: nat
  pc_revoked :: nat
  pc_active :: nat

definition purge_candidate_of :: "control \<Rightarrow> tenant_account \<Rightarrow> purge_candidate" where
  "purge_candidate_of c t =
     (let ks = filter (\<lambda>k. tk_tenant k = te_id t) (cp_tokens c)
      in \<lparr>pc_tenant = te_id t, pc_slug = te_slug t,
          pc_environments = length (filter (\<lambda>v. nv_tenant v = te_id t) (cp_environments c)), pc_tokens = length ks,
          pc_revoked = length (filter (\<lambda>k. tk_revoked_at k \<noteq> None) ks), pc_active = length (filter (\<lambda>k. tk_revoked_at k = None) ks)\<rparr>)"

definition list_purge_candidates :: "control \<Rightarrow> nat \<Rightarrow> string \<Rightarrow> purge_candidate list" where
  "list_purge_candidates c older slug =
     map (purge_candidate_of c) (sort_key (\<lambda>t. (case te_changed_at t of None \<Rightarrow> 0 | Some n \<Rightarrow> n, te_slug t))
       (filter (\<lambda>t. archived_before older t \<and> (trim_space slug = [] \<or> te_slug t = trim_space slug)) (cp_tenants c)))"

text \<open>Every table with a tenant refers to its row, and only environments are deleted with it.\<close>

definition purge_archived_tenant :: "state_row list \<Rightarrow> string \<Rightarrow> nat \<Rightarrow> control \<Rightarrow> (control_error, control) result" where
  "purge_archived_tenant states slug0 older c =
     (let slug = trim_space slug0
      in bind_result (require (slug \<noteq> []) (Required ''tenant slug'')) (\<lambda>_.
         bind_result (one_row_of NoRows (\<lambda>t. te_slug t = slug \<and> archived_before older t) (cp_tenants c)) (\<lambda>t.
         let tokens = filter (\<lambda>k. tk_tenant k \<noteq> te_id t) (cp_tokens c);
             gone = nv_id ` {v \<in> set (cp_environments c). nv_tenant v = te_id t}
         in bind_result (require (tk_env ` set tokens \<inter> gone = {}) (ForeignKey ''api_tokens'')) (\<lambda>_.
            bind_result (require (te_id t \<notin> ve_tenant ` set (cp_events c)) (ForeignKey ''events'')) (\<lambda>_.
            bind_result (require (te_id t \<notin> sr_tenant ` set states) (ForeignKey ''states'')) (\<lambda>_.
              Inr (c\<lparr>cp_tokens := tokens, cp_environments := filter (\<lambda>v. nv_tenant v \<noteq> te_id t) (cp_environments c),
                  cp_tenants := filter (\<lambda>x. te_id x \<noteq> te_id t) (cp_tenants c)\<rparr>)))))))"

end
