(* ===== verification/ControlTokens.thy ===== *)
theory ControlTokens
  imports ControlAccess
begin

text \<open>
  API tokens, what a presented secret is worth, and the roles granted to tokens (\<^verbatim>\<open>pkg/store\<close>: api_tokens.go, rbac.go,
  control_operators.go; \<^verbatim>\<open>pkg/auth\<close>). \<open>H\<close> is the hash of a secret, \<open>secret\<close> and \<open>shown\<close> are what the generator returns, and
  \<open>pick\<close> is the order in which the database returns matching environments. The tables of the portal that a personal access
  token goes through are an argument.
\<close>

section \<open>Principals\<close>

record access_principal =
  ap_tenant :: string
  ap_workspace :: string
  ap_env :: string
  ap_tenant_slug :: string
  ap_env_slug :: string
  ap_env_public :: string
  ap_lock_default :: string
  ap_instance_key :: string
  ap_tenant_status :: string
  ap_plan :: string
  ap_max_environments :: int
  ap_max_state_resources :: int
  ap_max_environment_resources :: int
  ap_user :: string
  ap_email :: string
  ap_source :: string

definition principal_of :: "tenant_account \<Rightarrow> environment \<Rightarrow> string \<Rightarrow> string \<Rightarrow> string \<Rightarrow> access_principal" where
  "principal_of t v user email source =
     \<lparr>ap_tenant = te_id t, ap_workspace = te_workspace t, ap_env = nv_id v, ap_tenant_slug = te_slug t, ap_env_slug = nv_slug v,
      ap_env_public = nv_public v, ap_lock_default = nv_lock_default v, ap_instance_key = nv_instance_key v,
      ap_tenant_status = te_status t, ap_plan = te_plan t, ap_max_environments = te_max_environments t,
      ap_max_state_resources = te_max_state_resources t, ap_max_environment_resources = te_max_environment_resources t,
      ap_user = user, ap_email = email, ap_source = source\<rparr>"

text \<open>The rows of \<^verbatim>\<open>api_tokens tok JOIN tenants t JOIN environments e\<close>.\<close>

definition joined_token :: "control \<Rightarrow> api_token \<Rightarrow> (api_token \<times> tenant_account \<times> environment) option" where
  "joined_token c k =
     (case find (\<lambda>t. te_id t = tk_tenant k) (cp_tenants c) of None \<Rightarrow> None
      | Some t \<Rightarrow> (case find (\<lambda>v. nv_id v = tk_env k) (cp_environments c) of None \<Rightarrow> None
          | Some v \<Rightarrow> Some (k, t, v)))"

definition joined_tokens :: "control \<Rightarrow> (api_token \<times> tenant_account \<times> environment) list" where
  "joined_tokens c = List.map_filter (joined_token c) (cp_tokens c)"

section \<open>Creating tokens\<close>

definition insert_token :: "api_token \<Rightarrow> control \<Rightarrow> (control_error, control) result" where
  "insert_token k c =
     bind_result (require (tk_tenant k \<in> te_id ` set (cp_tenants c) \<and> tk_env k \<in> nv_id ` set (cp_environments c)) (ForeignKey ''api_tokens'')) (\<lambda>_.
     bind_result (require ((tk_env k, tk_name k) \<notin> (\<lambda>x. (tk_env x, tk_name x)) ` set (cp_tokens c)) (DuplicateKey ''api_tokens_environment_name_key'')) (\<lambda>_.
     bind_result (require (tk_hash k \<notin> tk_hash ` {x \<in> set (cp_tokens c). tk_revoked_at x = None}) (DuplicateKey ''api_tokens_active_hash_idx'')) (\<lambda>_.
       Inr (c\<lparr>cp_tokens := cp_tokens c @ [k], cp_next := Suc (cp_next c)\<rparr>))))"

definition new_token :: "control \<Rightarrow> nat \<Rightarrow> string \<Rightarrow> string \<Rightarrow> string \<Rightarrow> string \<Rightarrow> string \<Rightarrow> api_token" where
  "new_token c now tenant env name hash shown =
     \<lparr>tk_id = control_id c, tk_tenant = tenant, tk_env = env, tk_name = name, tk_hash = hash, tk_prefix = shown,
      tk_status = ''active'', tk_revoked_at = None, tk_created_at = now, tk_last_used_at = None, tk_changed_at = None,
      tk_changed_by = [], tk_reason = []\<rparr>"

text \<open>The environment is looked up by the selector of the caller, the tenant by its workspace or its slug. A default
  environment made on the way stays when a later step fails.\<close>

definition token_environment :: "env_pick \<Rightarrow> string \<Rightarrow> tenant_account \<Rightarrow> string \<Rightarrow> string \<Rightarrow> control \<Rightarrow>
    control \<times> (control_error, environment) result" where
  "token_environment pick pub t tenant env c =
     (case get_environment_by_tenant_slug pick c tenant env of
        Inr v \<Rightarrow> (c, Inr v)
      | Inl e \<Rightarrow>
          if env = ''default''
          then (case ensure_default_environment pub (te_id t) c of
                  Inl e2 \<Rightarrow> (c, Inl e2)
                | Inr (_, c') \<Rightarrow> (c', get_environment_by_tenant_slug pick c' tenant env))
          else (c, Inl e))"

definition create_api_token :: "(string \<Rightarrow> string) \<Rightarrow> env_pick \<Rightarrow> string \<Rightarrow> nat \<Rightarrow> string \<Rightarrow> string \<Rightarrow> string \<Rightarrow> string \<Rightarrow> string \<Rightarrow>
    control \<Rightarrow> control \<times> (control_error, api_token) result" where
  "create_api_token H pick pub now secret shown tenant0 env0 name0 c =
     (let tenant = trim_space tenant0; env = (if trim_space env0 = [] then ''default'' else trim_space env0); name = trim_space name0
      in if tenant = [] \<or> name = [] then (c, Inl (Required ''workspace and token name''))
         else (case get_tenant_by_selector c tenant of
           Inl e \<Rightarrow> (c, Inl e)
         | Inr t \<Rightarrow>
             if te_status t \<noteq> ''active'' then (c, Inl (Inactive (te_slug t) (te_status t)))
             else (case token_environment pick pub t tenant env c of
               (c1, Inl e) \<Rightarrow> (c1, Inl e)
             | (c1, Inr v) \<Rightarrow>
                 if nv_status v \<noteq> ''active'' then (c1, Inl (Inactive (nv_slug v) (nv_status v)))
                 else (let k = new_token c1 now (te_id t) (nv_id v) name (H secret) shown
                       in case insert_token k c1 of Inl e \<Rightarrow> (c1, Inl e) | Inr c2 \<Rightarrow> (c2, Inr k)))))"

text \<open>First-run setup. A token of that name gets the given secret and is not revoked any more.\<close>

definition bootstrap_prefix :: "string \<Rightarrow> string" where
  "bootstrap_prefix plaintext = (if 12 < length plaintext then take 12 plaintext @ [CHR 0xE2, CHR 0x80, CHR 0xA6] else plaintext)"

definition upsert_token :: "nat \<Rightarrow> string \<Rightarrow> string \<Rightarrow> string \<Rightarrow> string \<Rightarrow> string \<Rightarrow> control \<Rightarrow> (control_error, control) result" where
  "upsert_token now tenant env name hash shown c =
     (if (env, name) \<in> (\<lambda>x. (tk_env x, tk_name x)) ` set (cp_tokens c)
      then bind_result (require (hash \<notin> tk_hash ` {x \<in> set (cp_tokens c). tk_revoked_at x = None \<and> (tk_env x, tk_name x) \<noteq> (env, name)})
             (DuplicateKey ''api_tokens_active_hash_idx'')) (\<lambda>_.
           Inr (c\<lparr>cp_tokens := update_rows (\<lambda>x. (tk_env x, tk_name x) = (env, name))
             (\<lambda>x. x\<lparr>tk_hash := hash, tk_prefix := shown, tk_revoked_at := None\<rparr>) (cp_tokens c)\<rparr>))
      else insert_token (new_token c now tenant env name hash shown) c)"

definition bootstrap_tenant_token :: "(string \<Rightarrow> string) \<Rightarrow> (nat \<Rightarrow> string) \<Rightarrow> (nat \<Rightarrow> string) \<Rightarrow> string \<Rightarrow> nat \<Rightarrow> string \<Rightarrow> string \<Rightarrow> string \<Rightarrow> string \<Rightarrow>
    control \<Rightarrow> control \<times> (control_error, unit) result" where
  "bootstrap_tenant_token H gen workspace pub now slug tenant_name token_name plaintext c =
     (case (case get_tenant_by_slug c slug of
              Inr t \<Rightarrow> (c, Inr t) | Inl e \<Rightarrow> create_tenant gen workspace pub True slug tenant_name c) of
        (c1, Inl e) \<Rightarrow> (c1, Inl e)
      | (c1, Inr t) \<Rightarrow>
          (case ensure_default_environment pub (te_id t) c1 of
             Inl e \<Rightarrow> (c1, Inl e)
           | Inr (v, c2) \<Rightarrow>
               (case upsert_token now (te_id t) (nv_id v) token_name (H plaintext) (bootstrap_prefix plaintext) c2 of
                  Inl e \<Rightarrow> (c2, Inl e) | Inr c3 \<Rightarrow> (c3, Inr ()))))"

section \<open>Authentication\<close>

definition token_accepted :: "string \<Rightarrow> string \<Rightarrow> api_token \<times> tenant_account \<times> environment \<Rightarrow> bool" where
  "token_accepted hash tenant0 = (\<lambda>(k, t, v). tk_hash k = hash \<and> tk_revoked_at k = None \<and> tk_status k = ''active'' \<and>
     te_status t = ''active'' \<and> nv_status v = ''active'' \<and>
     (tenant0 = [] \<or> te_slug t = trim_space tenant0 \<or> te_workspace t = trim_space tenant0))"

definition touch_tokens :: "nat \<Rightarrow> string \<Rightarrow> control \<Rightarrow> control" where
  "touch_tokens now hash c = c\<lparr>cp_tokens := update_rows (\<lambda>k. tk_hash k = hash \<and> tk_revoked_at k = None)
     (\<lambda>k. k\<lparr>tk_last_used_at := Some now\<rparr>) (cp_tokens c)\<rparr>"

definition authenticate_api_token :: "(string \<Rightarrow> string) \<Rightarrow> nat \<Rightarrow> string \<Rightarrow> string \<Rightarrow> control \<Rightarrow> control \<times> (control_error, access_principal) result" where
  "authenticate_api_token H now secret0 tenant0 c =
     (let secret = trim_space secret0
      in if secret = [] then (c, Inl Unauthenticated)
         else (case find (token_accepted (H secret) tenant0) (joined_tokens c) of
           None \<Rightarrow> (c, Inl Unauthenticated)
         | Some (k, t, v) \<Rightarrow> (touch_tokens now (H secret) c,
             Inr (principal_of t v [] (te_slug t @ ''/'' @ nv_slug v @ ''/'' @ tk_name k) ''http-api-token''))))"

definition backend_state_scope :: "string \<Rightarrow> (string \<times> string) option" where
  "backend_state_scope state_name =
     (case split_on (CHR ''/'') (trim_slashes (trim_space state_name)) of
        p # q # _ \<Rightarrow> if trim_space p = [] \<or> trim_space q = [] then None else Some (trim_space p, trim_space q)
      | _ \<Rightarrow> None)"

record portal_tables =
  po_pats :: "(string \<times> string \<times> bool) list"
  po_accounts :: "(string \<times> string) list"
  po_members :: "(string \<times> string \<times> bool) list"
  po_grants :: "(string \<times> string \<times> bool) list"

text \<open>Rows are \<open>(account, hash, revoked)\<close>, \<open>(account, email)\<close>, \<open>(tenant slug, account, revoked)\<close> and
  \<open>(account, environment, revoked)\<close>.\<close>

definition pat_matches :: "portal_tables \<Rightarrow> control \<Rightarrow> string \<Rightarrow> string \<Rightarrow> string \<Rightarrow> (string \<times> string \<times> tenant_account \<times> environment) list" where
  "pat_matches po c hash workspace pub =
     [(a, email, t, v). (a, h, r) \<leftarrow> po_pats po, h = hash, \<not> r, (a', email) \<leftarrow> po_accounts po, a' = a,
        (slug, a'', r') \<leftarrow> po_members po, a'' = a, \<not> r', t \<leftarrow> cp_tenants c, te_slug t = slug, te_workspace t = workspace,
        te_status t = ''active'', v \<leftarrow> cp_environments c, nv_tenant v = te_id t, nv_public v = pub, nv_status v = ''active'',
        te_kind t = ''personal'' \<and> te_owner t = Some a \<or> (a, nv_id v, False) \<in> set (po_grants po)]"

definition authenticate_backend_token :: "(string \<Rightarrow> string) \<Rightarrow> portal_tables \<Rightarrow> nat \<Rightarrow> string \<Rightarrow> string \<Rightarrow> string \<Rightarrow> control \<Rightarrow>
    control \<times> (control_error, access_principal) result" where
  "authenticate_backend_token H po now secret0 tenant0 state_name c =
     (case authenticate_api_token H now secret0 tenant0 c of
        (c', Inr p) \<Rightarrow> (c', Inr p)
      | (c', Inl e) \<Rightarrow>
          if e \<noteq> Unauthenticated then (c', Inl e)
          else if trim_space secret0 = [] then (c', Inl Unauthenticated)
          else (case backend_state_scope state_name of
            None \<Rightarrow> (c', Inl Unauthenticated)
          | Some (workspace, pub) \<Rightarrow>
              if trim_space tenant0 \<noteq> [] \<and> trim_space tenant0 \<noteq> workspace then (c', Inl Unauthenticated)
              else (case pat_matches po c' (H (trim_space secret0)) workspace pub of
                [] \<Rightarrow> (c', Inl Unauthenticated)
              | (a, email, t, v) # _ \<Rightarrow> (c', Inr (principal_of t v a email ''portal-pat'')))))"

section \<open>Reading and ending tokens\<close>

definition list_api_tokens_all :: "control \<Rightarrow> string \<Rightarrow> (control_error, (api_token \<times> tenant_account \<times> environment) list) result" where
  "list_api_tokens_all c selector = bind_result (get_tenant_by_selector c selector) (\<lambda>t.
     Inr (sort_key (\<lambda>(k, _). - int (tk_created_at k)) (filter (\<lambda>(k, _). tk_tenant k = te_id t) (joined_tokens c))))"

definition list_api_tokens :: "control \<Rightarrow> string \<Rightarrow> (control_error, (api_token \<times> tenant_account \<times> environment) list) result" where
  "list_api_tokens c selector = bind_result (get_tenant_by_selector c selector) (\<lambda>t.
     Inr (sort_key (\<lambda>(k, _). - int (tk_created_at k))
       (filter (\<lambda>(k, _). tk_tenant k = te_id t \<and> tk_status k = ''active'') (joined_tokens c))))"

definition get_api_token_by_id :: "control \<Rightarrow> string \<Rightarrow> (control_error, api_token \<times> tenant_account \<times> environment) result" where
  "get_api_token_by_id c i =
     (if trim_space i = [] then Inl TokenNotFound else one_row_of TokenNotFound (\<lambda>(k, _). tk_id k = trim_space i) (joined_tokens c))"

definition revoke_api_token :: "nat \<Rightarrow> string \<Rightarrow> control \<Rightarrow> (control_error, control) result" where
  "revoke_api_token now i c =
     bind_result (one_row_of TokenNotFound (\<lambda>k. tk_id k = i \<and> tk_revoked_at k = None) (cp_tokens c)) (\<lambda>_.
       Inr (c\<lparr>cp_tokens := update_rows (\<lambda>k. tk_id k = i \<and> tk_revoked_at k = None) (\<lambda>k. k\<lparr>tk_revoked_at := Some now\<rparr>) (cp_tokens c)\<rparr>))"

definition delete_api_token :: "string \<Rightarrow> string \<Rightarrow> control \<Rightarrow> (control_error, control) result" where
  "delete_api_token i0 actor c =
     (let i = trim_space i0
      in if i = [] then Inl TokenNotFound
         else bind_result (one_row_of TokenNotFound (\<lambda>k. tk_id k = i) (cp_tokens c)) (\<lambda>k.
           insert_control_event ''api_token_deleted'' (tk_tenant k) (trim_space actor)
             (c\<lparr>cp_tokens := filter (\<lambda>k. tk_id k \<noteq> i) (cp_tokens c)\<rparr>)))"

end
