(* ===== verification/ControlRoles.thy ===== *)
theory ControlRoles
  imports ControlTokens
begin

text \<open>
  Roles granted to tokens, what they allow, and the tokens of operators (\<^verbatim>\<open>pkg/store\<close>: rbac.go, control_operators.go).
  A role is a row of \<open>cp_roles\<close> with the keys of its permissions.
\<close>

section \<open>Grants\<close>

definition subject_tenant :: "control \<Rightarrow> string \<Rightarrow> string \<Rightarrow> string" where
  "subject_tenant c kind subject =
     (if kind = ''api_token'' then (case find (\<lambda>k. tk_id k = subject) (cp_tokens c) of None \<Rightarrow> [] | Some k \<Rightarrow> tk_tenant k) else [])"

definition same_active_grant :: "string \<Rightarrow> string \<Rightarrow> string \<Rightarrow> string \<Rightarrow> string \<Rightarrow> role_grant \<Rightarrow> bool" where
  "same_active_grant kind subject role scope ref g \<longleftrightarrow> gr_revoked_at g = None \<and> gr_subject_kind g = kind \<and> gr_subject g = subject \<and>
     gr_role g = role \<and> gr_scope_kind g = scope \<and> gr_scope_ref g = ref"

text \<open>A role that does not exist selects no row, and a grant that exists is left alone: both are no error.\<close>

definition ensure_principal_role :: "nat \<Rightarrow> string \<Rightarrow> string \<Rightarrow> string \<Rightarrow> string \<Rightarrow> string \<Rightarrow> string \<Rightarrow> control \<Rightarrow> (control_error, control) result" where
  "ensure_principal_role now kind0 subject0 role0 scope0 ref0 by0 c =
     (let kind = trim_space kind0; subject = trim_space subject0; role = trim_space role0;
          scope = (if trim_space scope0 = [] then ''global'' else trim_space scope0); ref = trim_space ref0; granted = trim_space by0
      in bind_result (require (kind \<noteq> [] \<and> subject \<noteq> [] \<and> role \<noteq> []) (Required ''subject and role'')) (\<lambda>_.
         if role \<notin> fst ` set (cp_roles c) then Inr c
         else bind_result (require (scope \<in> {''global'', ''tenant'', ''environment''}) (CheckFailed ''scope_kind'')) (\<lambda>_.
           if (\<exists>g \<in> set (cp_grants c). same_active_grant kind subject role scope ref g) then Inr c
           else (let g = \<lparr>gr_id = control_id c, gr_subject_kind = kind, gr_subject = subject, gr_role = role, gr_scope_kind = scope,
                    gr_scope_ref = ref, gr_granted_by = granted, gr_granted_at = now, gr_revoked_at = None\<rparr>
                 in insert_control_event ''rbac_grant_create'' (subject_tenant c kind subject) granted
                      (c\<lparr>cp_grants := cp_grants c @ [g], cp_next := Suc (cp_next c)\<rparr>)))))"

definition list_rbac_grants :: "control \<Rightarrow> bool \<Rightarrow> role_grant list" where
  "list_rbac_grants c include_revoked = sort_key (\<lambda>g. - int (gr_granted_at g))
     (filter (\<lambda>g. gr_role g \<in> fst ` set (cp_roles c) \<and> (include_revoked \<or> gr_revoked_at g = None)) (cp_grants c))"

definition revoke_principal_role :: "nat \<Rightarrow> string \<Rightarrow> string \<Rightarrow> control \<Rightarrow> (control_error, control) result" where
  "revoke_principal_role now i0 by0 c =
     (let i = trim_space i0; by = trim_space by0
      in bind_result (require (i \<noteq> []) (Required ''grant id'')) (\<lambda>_.
         bind_result (one_row_of GrantNotFound (\<lambda>g. gr_id g = i \<and> gr_revoked_at g = None \<and> gr_role g \<in> fst ` set (cp_roles c)) (cp_grants c)) (\<lambda>g.
           insert_control_event ''rbac_grant_revoke'' (subject_tenant c (gr_subject_kind g) (gr_subject g)) by
             (c\<lparr>cp_grants := update_rows (\<lambda>g. gr_id g = i \<and> gr_revoked_at g = None)
                (\<lambda>g. g\<lparr>gr_revoked_at := Some now, gr_granted_by := (if gr_granted_by g = [] \<and> by \<noteq> [] then by else gr_granted_by g)\<rparr>)
                (cp_grants c)\<rparr>))))"

definition ensure_api_token_role_by_name ::
    "(api_token list \<Rightarrow> api_token list) \<Rightarrow> nat \<Rightarrow> string \<Rightarrow> string \<Rightarrow> string \<Rightarrow> string \<Rightarrow> string \<Rightarrow> control \<Rightarrow> (control_error, control) result" where
  "ensure_api_token_role_by_name pick now tenant0 env0 name0 role by0 c =
     (let tenant = trim_space tenant0; env = (if trim_space env0 = [] then ''default'' else trim_space env0); name = trim_space name0
      in bind_result (require (tenant \<noteq> [] \<and> name \<noteq> []) (Required ''tenant and token name'')) (\<lambda>_.
         case pick (map fst (filter (\<lambda>(k, t, v). te_slug t = tenant \<and> nv_slug v = env \<and> tk_name k = name) (joined_tokens c))) of
           [] \<Rightarrow> Inl NoRows
         | k # _ \<Rightarrow> ensure_principal_role now ''api_token'' (tk_id k) role ''global'' [] by0 c))"

section \<open>What a grant allows\<close>

definition role_allows :: "control \<Rightarrow> string \<Rightarrow> string \<Rightarrow> bool" where
  "role_allows c role permission \<longleftrightarrow> (\<exists>(r, ps) \<in> set (cp_roles c). r = role \<and> permission \<in> set ps)"

definition holds_grant :: "control \<Rightarrow> string \<Rightarrow> string \<Rightarrow> (role_grant \<Rightarrow> bool) \<Rightarrow> bool" where
  "holds_grant c subject permission covers \<longleftrightarrow> (\<exists>g \<in> set (cp_grants c). gr_subject_kind g = ''api_token'' \<and> gr_subject g = subject \<and>
     gr_revoked_at g = None \<and> role_allows c (gr_role g) permission \<and> covers g)"

definition covers_global :: "role_grant \<Rightarrow> bool" where
  "covers_global g \<longleftrightarrow> gr_scope_kind g = ''global''"

definition covers_tenant :: "string \<Rightarrow> role_grant \<Rightarrow> bool" where
  "covers_tenant tenant g \<longleftrightarrow> gr_scope_kind g = ''global'' \<or> gr_scope_kind g = ''tenant'' \<and> gr_scope_ref g = tenant"

definition covers_environment :: "string \<Rightarrow> string \<Rightarrow> role_grant \<Rightarrow> bool" where
  "covers_environment tenant env g \<longleftrightarrow>
     gr_scope_kind g = ''global'' \<or> gr_scope_kind g = ''tenant'' \<and> gr_scope_ref g = tenant \<or>
     gr_scope_kind g = ''environment'' \<and> gr_scope_ref g = tenant @ ''/'' @ env"

text \<open>The principal carries the identifier of the token. The lifecycle of the tenant is not asked for.\<close>

definition control_token :: "string \<Rightarrow> api_token \<times> tenant_account \<times> environment \<Rightarrow> bool" where
  "control_token hash = (\<lambda>(k, t, v). tk_hash k = hash \<and> tk_revoked_at k = None \<and> tk_status k = ''active'' \<and> nv_status v = ''active'')"

definition control_principal_of :: "api_token \<times> tenant_account \<times> environment \<Rightarrow> access_principal" where
  "control_principal_of = (\<lambda>(k, t, v). (principal_of t v (tk_id k) (tk_name k) ''control-api-token'')\<lparr>ap_tenant_status := [], ap_plan := [],
     ap_max_environments := 0, ap_max_state_resources := 0, ap_max_environment_resources := 0\<rparr>)"

definition authorize_control_token :: "(string \<Rightarrow> string) \<Rightarrow> control \<Rightarrow> string \<Rightarrow> string \<Rightarrow> access_principal option \<times> bool" where
  "authorize_control_token H c secret0 permission0 =
     (let secret = trim_space secret0; permission = trim_space permission0
      in if secret = [] \<or> permission = [] then (None, False)
         else (case find (control_token (H secret)) (joined_tokens c) of
           None \<Rightarrow> (None, False)
         | Some (k, t, v) \<Rightarrow> (Some (control_principal_of (k, t, v)),
             holds_grant c (tk_id k) permission (covers_environment (te_slug t) (nv_slug v)))))"

definition authorize_principal_scope :: "control \<Rightarrow> access_principal \<Rightarrow> string \<Rightarrow> string \<Rightarrow> string \<Rightarrow> bool" where
  "authorize_principal_scope c p permission0 tenant0 env0 =
     (let permission = trim_space permission0; tenant = trim_space tenant0; env = trim_space env0
      in if trim_space (ap_user p) = [] \<or> permission = [] then False
         else if tenant = ''*'' then holds_grant c (ap_user p) permission covers_global
         else if tenant \<noteq> [] \<and> env \<noteq> [] then holds_grant c (ap_user p) permission (covers_environment tenant env)
         else if tenant \<noteq> [] then holds_grant c (ap_user p) permission (covers_tenant tenant)
         else False)"

section \<open>Operator tokens\<close>

definition normalize_scope_ref :: "control \<Rightarrow> string \<Rightarrow> string \<Rightarrow> (control_error, string) result" where
  "normalize_scope_ref c scope ref =
     (if trim_space scope \<in> {[], ''global''} then Inr []
      else if trim_space scope = ''tenant'' then bind_result (get_tenant_by_selector c ref) (\<lambda>t. Inr (te_slug t))
      else if trim_space scope = ''environment'' then
        (case index_byte (CHR ''/'') ref of
           None \<Rightarrow> Inl (Required ''environment scope'')
         | Some i \<Rightarrow> bind_result (get_tenant_by_selector c (take i ref)) (\<lambda>t. Inr (te_slug t @ ''/'' @ trim_space (drop (Suc i) ref))))
      else Inl (CheckFailed ''scope kind''))"

definition is_duplicate :: "control_error \<Rightarrow> bool" where
  "is_duplicate e = (case e of DuplicateKey _ \<Rightarrow> True | _ \<Rightarrow> False)"

text \<open>Five attempts, each with a secret of its own and, after the first, a number behind the name.\<close>

fun operator_token_loop :: "nat \<Rightarrow> nat \<Rightarrow> (nat \<Rightarrow> string \<Rightarrow> control \<Rightarrow> control \<times> (control_error, api_token) result) \<Rightarrow> string \<Rightarrow> control_error \<Rightarrow>
    control \<Rightarrow> control \<times> (control_error, api_token) result" where
  "operator_token_loop 0 attempt create name prev c = (c, Inl prev)"
| "operator_token_loop (Suc n) attempt create name prev c =
     (case create attempt (if attempt = 0 then name else name @ ''-'' @ show_nat (Suc attempt)) c of
        (c', Inr k) \<Rightarrow> (c', Inr k)
      | (c', Inl e) \<Rightarrow> if is_duplicate e then operator_token_loop n (Suc attempt) create name e c' else (c', Inl e))"

definition create_operator_token ::
    "(string \<Rightarrow> string) \<Rightarrow> env_pick \<Rightarrow> string \<Rightarrow> nat \<Rightarrow> (nat \<Rightarrow> string) \<Rightarrow> string \<Rightarrow> string \<Rightarrow> string \<Rightarrow> string \<Rightarrow> string \<Rightarrow> string \<Rightarrow>
     control \<Rightarrow> control \<times> (control_error, api_token) result" where
  "create_operator_token H pick pub now secrets shown name0 role0 scope0 ref0 by0 c =
     (let name = trim_space name0; role = trim_space role0; scope = (if trim_space scope0 = [] then ''global'' else trim_space scope0);
          by = trim_space by0
      in if name = [] \<or> role = [] then (c, Inl (Required ''name and role''))
         else (case normalize_scope_ref c scope (trim_space ref0) of
           Inl e \<Rightarrow> (c, Inl e)
         | Inr ref \<Rightarrow>
             (case operator_token_loop 5 0 (\<lambda>i n. create_api_token H pick pub now (secrets i) shown ''self-hosted'' ''default'' n) name NoRows c of
                (c1, Inl e) \<Rightarrow> (c1, Inl e)
              | (c1, Inr k) \<Rightarrow>
                  (case ensure_principal_role now ''api_token'' (tk_id k) role scope ref by c1 of
                     Inr c2 \<Rightarrow> (c2, Inr k)
                   | Inl e \<Rightarrow> (case delete_api_token (tk_id k) by c1 of Inr c2 \<Rightarrow> (c2, Inl e) | Inl _ \<Rightarrow> (c1, Inl e))))))"

text \<open>A left join: a token with no active grant has an entry of its own.\<close>

definition list_operator_tokens :: "control \<Rightarrow> bool \<Rightarrow> (api_token \<times> role_grant option) list" where
  "list_operator_tokens c include_inactive =
     (let ks = map fst (filter (\<lambda>(k, t, v). te_slug t = ''self-hosted'' \<and> nv_slug v = ''default'' \<and>
            (include_inactive \<or> tk_status k = ''active'')) (joined_tokens c));
          grants = (\<lambda>k. filter (\<lambda>g. gr_subject_kind g = ''api_token'' \<and> gr_subject g = tk_id k \<and> gr_revoked_at g = None) (cp_grants c))
      in sort_key (\<lambda>(k, _). (- int (tk_created_at k), tk_name k))
           (concat (map (\<lambda>k. if grants k = [] then [(k, None)] else map (\<lambda>g. (k, Some g)) (grants k)) ks)))"

end
