(* ===== verification/ControlInvariant.thy ===== *)
theory ControlInvariant
  imports ControlRoles
begin

text \<open>
  What the tables of the control plane keep in every run: keys are unique, references point at rows, the hashes of the tokens
  that are not revoked differ, and an archived tenant has an event. \<open>control_step\<close> is one call of a client, with whatever
  arguments, and \<open>control_run\<close> a run from the tables the migrations leave.
\<close>

section \<open>Updates of rows\<close>

lemma set_update_rows: "set (update_rows P f xs) = (\<lambda>x. if P x then f x else x) ` set xs"
  by (simp add: update_rows_def)

lemma in_update_rows: "y \<in> set (update_rows P f xs) \<Longrightarrow> \<exists>x \<in> set xs. y = (if P x then f x else x)"
  by (auto simp: set_update_rows)

lemma map_update_rows:
  assumes "\<And>x. P x \<Longrightarrow> key (f x) = key x"
  shows "map key (update_rows P f xs) = map key xs"
  using assms by (simp add: update_rows_def)

lemma image_update_rows:
  assumes "\<And>x. P x \<Longrightarrow> key (f x) = key x"
  shows "key ` set (update_rows P f xs) = key ` set xs"
  using map_update_rows[of P key f xs, OF assms] by (metis image_set)

lemma update_rows_simps [simp]:
  "update_rows P f [] = []"
  "update_rows P f (x # xs) = (if P x then f x else x) # update_rows P f xs"
  by (simp_all add: update_rows_def)

lemma require_Inr [simp]: "require b e = Inr u \<longleftrightarrow> b"
  by (simp add: require_def)

lemma one_row_of_Inr: "one_row_of e P xs = Inr x \<Longrightarrow> x \<in> set xs \<and> P x"
  by (auto simp: one_row_of_def find_Some_iff split: option.splits)

lemma insert_control_event_Inr [simp]:
  "insert_control_event kind tenant actor c = Inr c' \<longleftrightarrow> tenant \<in> te_id ` set (cp_tenants c) \<and>
     c' = c\<lparr>cp_events := cp_events c @ [\<lparr>ve_kind = kind, ve_tenant = tenant, ve_actor = actor\<rparr>]\<rparr>"
  by (auto simp: insert_control_event_def)

section \<open>The invariant\<close>

definition id_below :: "nat \<Rightarrow> string \<Rightarrow> bool" where
  "id_below n i \<longleftrightarrow> (\<exists>m < n. i = show_nat m)"

definition valid_status :: "string \<Rightarrow> bool" where
  "valid_status s \<longleftrightarrow> s \<in> {''active'', ''suspended'', ''archived''}"

definition tenants_ok :: "nat \<Rightarrow> tenant_account list \<Rightarrow> bool" where
  "tenants_ok n ts \<longleftrightarrow> distinct (map te_id ts) \<and> distinct (map te_slug ts) \<and> distinct (map te_workspace ts) \<and>
     (\<forall>t \<in> set ts. id_below n (te_id t) \<and> valid_status (te_status t))"

definition environments_ok :: "nat \<Rightarrow> string set \<Rightarrow> environment list \<Rightarrow> bool" where
  "environments_ok n tenants vs \<longleftrightarrow> distinct (map nv_id vs) \<and> distinct (map nv_public vs) \<and>
     distinct (map (\<lambda>v. (nv_tenant v, nv_slug v)) vs) \<and>
     (\<forall>v \<in> set vs. id_below n (nv_id v) \<and> nv_tenant v \<in> tenants \<and> valid_status (nv_status v))"

definition live_hashes :: "api_token list \<Rightarrow> string list" where
  "live_hashes ks = map tk_hash (filter (\<lambda>k. tk_revoked_at k = None) ks)"

definition tokens_ok :: "nat \<Rightarrow> string set \<Rightarrow> string set \<Rightarrow> api_token list \<Rightarrow> bool" where
  "tokens_ok n tenants environments ks \<longleftrightarrow> distinct (map tk_id ks) \<and> distinct (map (\<lambda>k. (tk_env k, tk_name k)) ks) \<and>
     distinct (live_hashes ks) \<and>
     (\<forall>k \<in> set ks. id_below n (tk_id k) \<and> tk_tenant k \<in> tenants \<and> tk_env k \<in> environments \<and> valid_status (tk_status k))"

definition grant_key :: "role_grant \<Rightarrow> string \<times> string \<times> string \<times> string \<times> string" where
  "grant_key g = (gr_subject_kind g, gr_subject g, gr_role g, gr_scope_kind g, gr_scope_ref g)"

definition grants_ok :: "nat \<Rightarrow> role_grant list \<Rightarrow> bool" where
  "grants_ok n gs \<longleftrightarrow> distinct (map gr_id gs) \<and> (\<forall>g \<in> set gs. id_below n (gr_id g)) \<and>
     distinct (map grant_key (filter (\<lambda>g. gr_revoked_at g = None) gs))"

definition events_ok :: "tenant_account list \<Rightarrow> control_event list \<Rightarrow> bool" where
  "events_ok ts es \<longleftrightarrow> ve_tenant ` set es \<subseteq> te_id ` set ts \<and>
     (\<forall>t \<in> set ts. te_status t = ''archived'' \<longrightarrow> te_id t \<in> ve_tenant ` set es)"

abbreviation tenant_ids :: "control \<Rightarrow> string set" where
  "tenant_ids c \<equiv> te_id ` set (cp_tenants c)"

abbreviation environment_ids :: "control \<Rightarrow> string set" where
  "environment_ids c \<equiv> nv_id ` set (cp_environments c)"

definition control_ok :: "control \<Rightarrow> bool" where
  "control_ok c \<longleftrightarrow> tenants_ok (cp_next c) (cp_tenants c) \<and> environments_ok (cp_next c) (tenant_ids c) (cp_environments c) \<and>
     tokens_ok (cp_next c) (tenant_ids c) (environment_ids c) (cp_tokens c) \<and> grants_ok (cp_next c) (cp_grants c) \<and>
     events_ok (cp_tenants c) (cp_events c)"

section \<open>How the parts are kept\<close>

lemma id_below_Suc: "id_below n i \<Longrightarrow> id_below (Suc n) i"
  by (auto simp: id_below_def intro: less_SucI)

lemma id_below_new [simp]: "id_below (Suc n) (show_nat n)" "\<not> id_below n (show_nat n)"
  by (auto simp: id_below_def) (metis digits_val_show_nat less_irrefl)

lemma id_below_fresh: "\<forall>x \<in> set xs. id_below n (key x) \<Longrightarrow> show_nat n \<notin> key ` set xs"
  by (metis imageE id_below_new(2))

lemma tenants_ok_Suc: "tenants_ok n ts \<Longrightarrow> tenants_ok (Suc n) ts"
  by (auto simp: tenants_ok_def intro: id_below_Suc)

lemma environments_ok_mono: "environments_ok n ts vs \<Longrightarrow> ts \<subseteq> ts' \<Longrightarrow> environments_ok n ts' vs"
  by (auto simp: environments_ok_def)

lemma environments_ok_Suc: "environments_ok n ts vs \<Longrightarrow> environments_ok (Suc n) ts vs"
  by (auto simp: environments_ok_def intro: id_below_Suc)

lemma tokens_ok_mono: "tokens_ok n ts vs ks \<Longrightarrow> ts \<subseteq> ts' \<Longrightarrow> vs \<subseteq> vs' \<Longrightarrow> tokens_ok n ts' vs' ks"
  unfolding tokens_ok_def by blast

lemma tokens_ok_Suc: "tokens_ok n ts vs ks \<Longrightarrow> tokens_ok (Suc n) ts vs ks"
  by (auto simp: tokens_ok_def intro: id_below_Suc)

lemma grants_ok_Suc: "grants_ok n gs \<Longrightarrow> grants_ok (Suc n) gs"
  by (auto simp: grants_ok_def intro: id_below_Suc)

lemmas control_ok_Suc = tenants_ok_Suc environments_ok_Suc tokens_ok_Suc grants_ok_Suc

lemma events_ok_add: "events_ok ts es \<Longrightarrow> ve_tenant e \<in> te_id ` set ts \<Longrightarrow> events_ok ts (es @ [e])"
  by (auto simp: events_ok_def)

lemma tenants_ok_update:
  assumes "tenants_ok n ts"
    and "\<And>x. P x \<Longrightarrow> te_id (f x) = te_id x \<and> te_slug (f x) = te_slug x \<and> te_workspace (f x) = te_workspace x \<and>
      (valid_status (te_status x) \<longrightarrow> valid_status (te_status (f x)))"
  shows "tenants_ok n (update_rows P f ts)"
  using assms by (auto simp: tenants_ok_def map_update_rows set_update_rows)

lemma environments_ok_update:
  assumes "environments_ok n tenants vs"
    and "\<And>x. P x \<Longrightarrow> nv_id (f x) = nv_id x \<and> nv_public (f x) = nv_public x \<and> nv_tenant (f x) = nv_tenant x \<and>
      nv_slug (f x) = nv_slug x \<and> (valid_status (nv_status x) \<longrightarrow> valid_status (nv_status (f x)))"
  shows "environments_ok n tenants (update_rows P f vs)"
  using assms by (auto simp: environments_ok_def map_update_rows set_update_rows)

lemma live_hashes_update:
  assumes "\<And>x. P x \<Longrightarrow> tk_hash (f x) = tk_hash x \<and> (tk_revoked_at (f x) = None \<longrightarrow> tk_revoked_at x = None)"
    and "distinct (live_hashes ks)"
  shows "distinct (live_hashes (update_rows P f ks)) \<and> set (live_hashes (update_rows P f ks)) \<subseteq> set (live_hashes ks)"
  using assms(2)
proof (induction ks)
  case (Cons k ks)
  then show ?case using assms(1)[of k] by (auto simp: live_hashes_def split: if_splits)
qed (simp add: live_hashes_def)

lemma tokens_ok_update:
  assumes "tokens_ok n ts vs ks"
    and "\<And>x. P x \<Longrightarrow> tk_id (f x) = tk_id x \<and> tk_tenant (f x) = tk_tenant x \<and> tk_env (f x) = tk_env x \<and> tk_name (f x) = tk_name x \<and>
      tk_hash (f x) = tk_hash x \<and> (tk_revoked_at (f x) = None \<longrightarrow> tk_revoked_at x = None) \<and>
      (valid_status (tk_status x) \<longrightarrow> valid_status (tk_status (f x)))"
  shows "tokens_ok n ts vs (update_rows P f ks)"
  using assms live_hashes_update[of P f ks] by (auto simp: tokens_ok_def map_update_rows set_update_rows)

lemma distinct_map_filter2: "distinct (map f (filter Q xs)) \<Longrightarrow> distinct (map f (filter Q (filter P xs)))"
  by (induction xs) auto

lemma tokens_ok_filter: "tokens_ok n ts vs ks \<Longrightarrow> tokens_ok n ts vs (filter P ks)"
  by (simp add: tokens_ok_def live_hashes_def distinct_map_filter distinct_map_filter2 del: filter_filter)

lemma control_ok_event: "control_ok c \<Longrightarrow> ve_tenant e \<in> tenant_ids c \<Longrightarrow> control_ok (c\<lparr>cp_events := cp_events c @ [e]\<rparr>)"
  by (simp add: control_ok_def events_ok_add)

lemma control_ok_tenants:
  assumes ok: "control_ok c"
    and f: "\<And>x. P x \<Longrightarrow> te_id (f x) = te_id x \<and> te_slug (f x) = te_slug x \<and> te_workspace (f x) = te_workspace x \<and>
      (valid_status (te_status x) \<longrightarrow> valid_status (te_status (f x))) \<and>
      (te_status (f x) = ''archived'' \<longrightarrow> te_status x = ''archived'' \<or> te_id x = tenant)"
    and tenant: "tenant \<in> tenant_ids c" "ve_tenant e = tenant"
  shows "control_ok (c\<lparr>cp_tenants := update_rows P f (cp_tenants c), cp_events := cp_events c @ [e]\<rparr>)"
proof -
  have ids: "te_id ` set (update_rows P f (cp_tenants c)) = tenant_ids c" using f by (intro image_update_rows) blast
  have "tenants_ok (cp_next c) (update_rows P f (cp_tenants c))"
    using ok f by (intro tenants_ok_update) (auto simp: control_ok_def)
  moreover have "events_ok (update_rows P f (cp_tenants c)) (cp_events c @ [e])"
    unfolding events_ok_def
  proof (intro conjI ballI impI)
    show "ve_tenant ` set (cp_events c @ [e]) \<subseteq> te_id ` set (update_rows P f (cp_tenants c))"
      using ok tenant by (auto simp: ids control_ok_def events_ok_def)
    fix y assume y: "y \<in> set (update_rows P f (cp_tenants c))" "te_status y = ''archived''"
    then obtain x where x: "x \<in> set (cp_tenants c)" "y = (if P x then f x else x)" by (auto simp: set_update_rows)
    then have "te_id y = te_id x" "te_status x = ''archived'' \<or> te_id x = tenant" using f[of x] y(2) by (auto split: if_splits)
    then show "te_id y \<in> ve_tenant ` set (cp_events c @ [e])"
      using ok x(1) tenant(2) by (auto simp: control_ok_def events_ok_def)
  qed
  ultimately show ?thesis using ok by (simp add: control_ok_def ids)
qed

lemma control_ok_environments:
  assumes "control_ok c"
    and "\<And>x. P x \<Longrightarrow> nv_id (f x) = nv_id x \<and> nv_public (f x) = nv_public x \<and> nv_tenant (f x) = nv_tenant x \<and>
      nv_slug (f x) = nv_slug x \<and> (valid_status (nv_status x) \<longrightarrow> valid_status (nv_status (f x)))"
  shows "control_ok (c\<lparr>cp_environments := update_rows P f (cp_environments c)\<rparr>)"
proof -
  have "nv_id ` set (update_rows P f (cp_environments c)) = environment_ids c" using assms(2) by (intro image_update_rows) blast
  then show ?thesis using assms environments_ok_update[of "cp_next c" "tenant_ids c" "cp_environments c" P f]
    by (simp add: control_ok_def)
qed

lemma control_ok_tokens:
  assumes "control_ok c" and "tokens_ok (cp_next c) (tenant_ids c) (environment_ids c) ks"
  shows "control_ok (c\<lparr>cp_tokens := ks\<rparr>)"
  using assms by (simp add: control_ok_def)

text \<open>A renamed environment: at most one row changes, and no other row of the tenant has the new name.\<close>

lemma renamed_distinct:
  assumes "distinct (map nv_id vs)" and "distinct (map (\<lambda>v. (nv_tenant v, nv_slug v)) vs)"
    and "\<And>x. x \<in> set vs \<Longrightarrow> nv_id x = i \<Longrightarrow> nv_tenant (f x) = tenant \<and> nv_slug (f x) = new"
    and "\<And>x. x \<in> set vs \<Longrightarrow> nv_id x \<noteq> i \<Longrightarrow> (nv_tenant x, nv_slug x) \<noteq> (tenant, new)"
  shows "distinct (map (\<lambda>v. (nv_tenant v, nv_slug v)) (update_rows (\<lambda>x. nv_id x = i) f vs))"
  using assms
proof (induction vs)
  case (Cons v vs)
  have other: "nv_id x \<noteq> nv_id v" if "x \<in> set vs" for x using Cons.prems(1) that by simp (metis image_eqI)
  have rest: "update_rows (\<lambda>x. nv_id x = i) f vs = vs" if "nv_id v = i"
    using other that unfolding update_rows_def by (intro map_idI) auto
  have IH: "distinct (map (\<lambda>v. (nv_tenant v, nv_slug v)) (update_rows (\<lambda>x. nv_id x = i) f vs))"
    using Cons.prems by (intro Cons.IH) simp_all
  show ?case
  proof (cases "nv_id v = i")
    case True
    have free: "(nv_tenant x, nv_slug x) \<noteq> (tenant, new)" if "x \<in> set vs" for x
      using other[OF that] that True by (intro Cons.prems(4)) auto
    have "(tenant, new) \<notin> (\<lambda>v. (nv_tenant v, nv_slug v)) ` set vs" unfolding image_iff by (metis free)
    then show ?thesis using True Cons.prems(2) Cons.prems(3)[of v] by (simp add: rest)
  next
    case False
    have free: "(nv_tenant x, nv_slug x) \<noteq> (nv_tenant v, nv_slug v)" if x: "x \<in> set (update_rows (\<lambda>x. nv_id x = i) f vs)" for x
    proof -
      obtain y where y: "y \<in> set vs" "x = (if nv_id y = i then f y else y)" using x by (auto simp: set_update_rows)
      have "(nv_tenant y, nv_slug y) \<noteq> (nv_tenant v, nv_slug v)" using Cons.prems(2) y(1) by (auto simp: image_iff)
      then show ?thesis using Cons.prems(3)[of y] Cons.prems(4)[of v] y False by (auto split: if_splits)
    qed
    have "(nv_tenant v, nv_slug v) \<notin> (\<lambda>v. (nv_tenant v, nv_slug v)) ` set (update_rows (\<lambda>x. nv_id x = i) f vs)"
      unfolding image_iff by (metis free)
    then show ?thesis using False IH by simp
  qed
qed simp

lemma control_ok_rename:
  assumes ok: "control_ok c" and v: "v \<in> set (cp_environments c)"
    and free: "(nv_tenant v, new) \<notin> (\<lambda>x. (nv_tenant x, nv_slug x)) ` {x \<in> set (cp_environments c). nv_id x \<noteq> nv_id v}"
    and f: "\<And>x. nv_id (f x) = nv_id x \<and> nv_public (f x) = nv_public x \<and> nv_tenant (f x) = nv_tenant x \<and> nv_slug (f x) = new \<and>
      (valid_status (nv_status x) \<longrightarrow> valid_status (nv_status (f x)))"
  shows "control_ok (c\<lparr>cp_environments := update_rows (\<lambda>x. nv_id x = nv_id v) f (cp_environments c)\<rparr>)"
proof -
  let ?vs = "update_rows (\<lambda>x. nv_id x = nv_id v) f (cp_environments c)"
  have env: "environments_ok (cp_next c) (tenant_ids c) (cp_environments c)" using ok by (simp add: control_ok_def)
  have ids: "nv_id ` set ?vs = environment_ids c" using f by (intro image_update_rows) blast
  have same: "x = v" if "x \<in> set (cp_environments c)" "nv_id x = nv_id v" for x
    using env that v by (auto simp: environments_ok_def distinct_map inj_on_def)
  have other: "(nv_tenant x, nv_slug x) \<noteq> (nv_tenant v, new)" if "x \<in> set (cp_environments c)" "nv_id x \<noteq> nv_id v" for x
    using free that image_eqI[of _ "\<lambda>x. (nv_tenant x, nv_slug x)" x "{x \<in> set (cp_environments c). nv_id x \<noteq> nv_id v}"] by fastforce
  have "distinct (map (\<lambda>v. (nv_tenant v, nv_slug v)) ?vs)"
    using env f other same by (intro renamed_distinct[where tenant = "nv_tenant v" and new = new]) (auto simp: environments_ok_def)
  moreover have "distinct (map nv_id ?vs)" "distinct (map nv_public ?vs)"
    using env f by (simp_all add: map_update_rows environments_ok_def)
  ultimately have "environments_ok (cp_next c) (tenant_ids c) ?vs"
    using env f by (auto simp: environments_ok_def set_update_rows)
  then show ?thesis using ok by (simp add: control_ok_def ids)
qed

section \<open>Every operation keeps the invariant\<close>

lemma insert_environment_ok:
  assumes "control_ok c" and "insert_environment v c = Inr c'" and "nv_id v = control_id c" and "nv_status v = ''active''"
  shows "control_ok c'"
proof -
  have c': "c' = c\<lparr>cp_environments := cp_environments c @ [v], cp_next := Suc (cp_next c)\<rparr>"
    and ok: "environments_ok (cp_next c) (tenant_ids c) (cp_environments c)"
    and new: "nv_tenant v \<in> tenant_ids c" "nv_public v \<notin> nv_public ` set (cp_environments c)"
      "(nv_tenant v, nv_slug v) \<notin> (\<lambda>x. (nv_tenant x, nv_slug x)) ` set (cp_environments c)"
    using assms(1,2) by (auto simp: insert_environment_def control_ok_def)
  have "nv_id v \<notin> environment_ids c"
    using ok unfolding assms(3) control_id_def by (intro id_below_fresh) (simp add: environments_ok_def)
  then have "environments_ok (Suc (cp_next c)) (tenant_ids c) (cp_environments c @ [v])"
    using ok new assms(3,4) environments_ok_Suc[OF ok] by (simp add: environments_ok_def control_id_def valid_status_def)
  moreover have "tokens_ok (Suc (cp_next c)) (tenant_ids c) (insert (nv_id v) (environment_ids c)) (cp_tokens c)"
    using assms(1) by (auto simp: control_ok_def intro: tokens_ok_Suc tokens_ok_mono)
  ultimately show ?thesis using assms(1) by (simp add: control_ok_def c' control_ok_Suc)
qed

lemma ensure_default_environment_ok:
  assumes "control_ok c" and "ensure_default_environment pub tenant c = Inr (v, c')"
  shows "control_ok c'"
  using assms by (auto simp: ensure_default_environment_def Let_def new_environment_def insert_environment_ok split: option.splits)

lemma create_tenant_loop_ok:
  "control_ok c \<Longrightarrow> create_tenant_loop n gen ws slug name c = Inr (t, c') \<Longrightarrow> control_ok c'"
proof (induction n arbitrary: slug)
  case (Suc n)
  show ?case
  proof (cases "slug \<in> te_slug ` set (cp_tenants c)")
    case True
    then show ?thesis using Suc by (auto split: if_splits)
  next
    case False
    have fresh: "control_id c \<notin> tenant_ids c"
      using Suc.prems(1) unfolding control_id_def by (intro id_below_fresh) (simp add: control_ok_def tenants_ok_def)
    have new: "control_ok (c\<lparr>cp_tenants := cp_tenants c @ [t], cp_next := Suc (cp_next c)\<rparr>)"
      if t: "te_id t = control_id c" "te_slug t = slug" "te_workspace t = ws n" "te_status t = ''active''"
        "ws n \<notin> te_workspace ` set (cp_tenants c)" for t
    proof -
      note ok = Suc.prems(1)[unfolded control_ok_def]
      have "tenants_ok (Suc (cp_next c)) (cp_tenants c @ [t])"
        using ok t False fresh tenants_ok_Suc[of "cp_next c" "cp_tenants c"]
        by (simp add: tenants_ok_def control_id_def valid_status_def)
      moreover have "environments_ok (Suc (cp_next c)) (insert (te_id t) (tenant_ids c)) (cp_environments c)"
        using ok by (blast intro: environments_ok_Suc environments_ok_mono)
      moreover have "tokens_ok (Suc (cp_next c)) (insert (te_id t) (tenant_ids c)) (environment_ids c) (cp_tokens c)"
        using ok by (blast intro: tokens_ok_Suc tokens_ok_mono)
      moreover have "events_ok (cp_tenants c @ [t]) (cp_events c)" using ok t by (auto simp: events_ok_def)
      ultimately show ?thesis using ok by (simp add: control_ok_def control_ok_Suc)
    qed
    show ?thesis using Suc.prems(2) False new by (auto simp: Let_def split: if_splits)
  qed
qed simp

lemma create_tenant_ok:
  assumes "control_ok c"
  shows "control_ok (fst (create_tenant gen ws pub dflt slug name c))"
proof -
  have "control_ok (fst (case create_tenant_loop 5 gen ws s n c of Inl e \<Rightarrow> (c, Inl e)
      | Inr (t, c') \<Rightarrow> if dflt
          then (case ensure_default_environment pub (te_id t) c' of Inl e \<Rightarrow> (c', Inl e) | Inr (v, c'') \<Rightarrow> (c'', Inr t))
          else (c', Inr t)))" for s n
  proof (cases "create_tenant_loop 5 gen ws s n c")
    case (Inr r)
    obtain t c1 where r: "r = (t, c1)" by (cases r)
    have c1: "control_ok c1" using create_tenant_loop_ok[OF assms] Inr r by blast
    then show ?thesis using ensure_default_environment_ok[OF c1, of pub "te_id t"]
      by (auto simp: Inr r split: sum.splits)
  qed (simp add: assms)
  then show ?thesis by (simp only: create_tenant_def Let_def)
qed

end
