(* ===== verification/ControlRuns.thy ===== *)
theory ControlRuns
  imports ControlInvariant
begin

text \<open>
  Runs of the control plane: a step is one call of \<^verbatim>\<open>pkg/store\<close> with whatever arguments, and every step keeps the
  invariant of \<open>ControlInvariant\<close>.
\<close>

section \<open>Tenants and environments\<close>

lemma set_tenant_entitlements_ok:
  assumes "control_ok c" and "set_tenant_entitlements slug plan a b d actor c = Inr c'"
  shows "control_ok c'"
proof -
  obtain t where t: "t \<in> set (cp_tenants c)"
    and c': "c' = c\<lparr>cp_tenants := update_rows (\<lambda>t. te_slug t = trim_space slug) (\<lambda>t. t\<lparr>te_plan := if trim_space plan = [] then ''starter'' else trim_space plan,
        te_max_environments := a, te_max_state_resources := b, te_max_environment_resources := d\<rparr>) (cp_tenants c),
      cp_events := cp_events c @ [\<lparr>ve_kind = ''tenant_entitlements_update'', ve_tenant = te_id t, ve_actor = actor\<rparr>]\<rparr>"
    using assms(2) by (auto simp: set_tenant_entitlements_def Let_def dest!: one_row_of_Inr)
  show ?thesis unfolding c' using assms(1) t by (intro control_ok_tenants[where tenant = "te_id t"]) auto
qed

lemma create_environment_ok:
  assumes "control_ok c" and "create_environment pub now selector slug tier key mode c = Inr (v, c')"
  shows "control_ok c'"
  using assms by (auto simp: create_environment_def Let_def new_environment_def intro: insert_environment_ok)

lemma update_rows_cong: "(\<And>x. x \<in> set xs \<Longrightarrow> P x = Q x) \<Longrightarrow> update_rows P f xs = update_rows Q f xs"
  by (simp add: update_rows_def)

lemma environment_key_unique:
  assumes "control_ok c" and "v \<in> set (cp_environments c)" and "x \<in> set (cp_environments c)"
  shows "nv_tenant x = nv_tenant v \<and> nv_slug x = nv_slug v \<longleftrightarrow> nv_id x = nv_id v"
proof -
  have "distinct (map nv_id (cp_environments c))" "distinct (map (\<lambda>v. (nv_tenant v, nv_slug v)) (cp_environments c))"
    using assms(1) by (simp_all add: control_ok_def environments_ok_def)
  then show ?thesis using assms(2,3) by (auto simp: distinct_map inj_on_def)
qed

lemma rename_environment_ok:
  assumes ok: "control_ok c" and ren: "rename_environment now tenant current new0 actor reason c = Inr (v', c')"
  shows "control_ok c'"
proof -
  define new where "new = trim_space new0"
  define f :: "environment \<Rightarrow> environment" where "f = (\<lambda>v. v\<lparr>nv_slug := new, nv_changed_at := Some now, nv_changed_by := trim_space actor, nv_reason := trim_space reason\<rparr>)"
  obtain t v where "get_tenant_by_slug c (trim_space tenant) = Inr t"
    and one: "one_row_of EnvironmentNotFound (\<lambda>v. nv_tenant v = te_id t \<and> nv_slug v = trim_space current) (cp_environments c) = Inr v"
    using ren by (auto simp: rename_environment_def Let_def)
  then have free: "(te_id t, new) \<notin> (\<lambda>x. (nv_tenant x, nv_slug x)) ` set (cp_environments c)" and t: "te_id t \<in> tenant_ids c"
    and c': "c' = c\<lparr>cp_environments := update_rows (\<lambda>v. nv_tenant v = te_id t \<and> nv_slug v = trim_space current) f (cp_environments c),
      cp_events := cp_events c @ [\<lparr>ve_kind = ''environment_renamed'', ve_tenant = te_id t, ve_actor = trim_space actor\<rparr>]\<rparr>"
    using ren by (simp_all add: rename_environment_def Let_def f_def new_def)
  have v: "v \<in> set (cp_environments c)" "nv_tenant v = te_id t" "nv_slug v = trim_space current"
    using one_row_of_Inr[OF one] by simp_all
  have rows: "update_rows (\<lambda>x. nv_tenant x = te_id t \<and> nv_slug x = trim_space current) f (cp_environments c)
      = update_rows (\<lambda>x. nv_id x = nv_id v) f (cp_environments c)"
    using environment_key_unique[OF ok v(1)] v(2,3) by (intro update_rows_cong) auto
  have "control_ok (c\<lparr>cp_environments := update_rows (\<lambda>x. nv_id x = nv_id v) f (cp_environments c)\<rparr>)"
    using free v by (intro control_ok_rename[OF ok v(1), where new = new]) (auto simp: f_def)
  from control_ok_event[OF this, of "\<lparr>ve_kind = ''environment_renamed'', ve_tenant = te_id t, ve_actor = trim_space actor\<rparr>"] t
  show ?thesis unfolding c' rows by simp
qed

lemma update_environment_ok:
  assumes "control_ok c" and "update_environment i f c = Inr c'"
    and "\<And>x. nv_id (f x) = nv_id x \<and> nv_public (f x) = nv_public x \<and> nv_tenant (f x) = nv_tenant x \<and>
      nv_slug (f x) = nv_slug x \<and> nv_status (f x) = nv_status x"
  shows "control_ok c'"
  using assms by (auto simp: update_environment_def split: if_splits intro!: control_ok_environments)

lemma set_environment_dsn_ok: "control_ok c \<Longrightarrow> set_environment_dsn i dsn c = Inr c' \<Longrightarrow> control_ok c'"
  unfolding set_environment_dsn_def by (erule (1) update_environment_ok) simp_all

lemma complete_dedicated_provision_ok: "control_ok c \<Longrightarrow> complete_dedicated_provision now i host dsn c = Inr c' \<Longrightarrow> control_ok c'"
  unfolding complete_dedicated_provision_def by (erule (1) update_environment_ok) simp_all

lemma fail_dedicated_provision_ok: "control_ok c \<Longrightarrow> fail_dedicated_provision now i msg c = Inr c' \<Longrightarrow> control_ok c'"
  unfolding fail_dedicated_provision_def by (erule (1) update_environment_ok) simp_all

lemma request_dedicated_upgrade_ok:
  assumes "control_ok c" and "request_dedicated_upgrade pick now tenant env c = Inr (v, c')"
  shows "control_ok c'"
proof (cases "c' = c")
  case False
  then obtain i g where u: "update_environment i (\<lambda>x. x\<lparr>nv_tier := ''dedicated_host'', nv_provision := ''provisioning'',
      nv_source_dsn := null_if_empty g, nv_error := None,
      nv_started_at := (case nv_started_at x of None \<Rightarrow> Some now | Some t \<Rightarrow> Some t), nv_finished_at := None\<rparr>) c = Inr c'"
    using assms(2) by (auto simp: request_dedicated_upgrade_def Let_def split: if_splits)
  show ?thesis by (rule update_environment_ok[OF assms(1) u]) simp
qed (simp add: assms)

lemma set_environment_lock_default_ok: "control_ok c \<Longrightarrow> set_environment_lock_default selector slug mode c = Inr c' \<Longrightarrow> control_ok c'"
  by (auto simp: set_environment_lock_default_def Let_def intro!: control_ok_environments)

section \<open>Lifecycle\<close>

lemma set_tenant_status_ok:
  assumes "control_ok c" and "set_tenant_status now slug status actor reason c = Inr c'"
  shows "control_ok c'"
  using assms
  by (auto simp: set_tenant_status_def Let_def check_status_def valid_status_def intro!: control_ok_tenants dest!: one_row_of_Inr)

lemma delete_tenant_ok:
  assumes "control_ok c" and "delete_tenant now slug actor reason c = Inr c'"
  shows "control_ok c'"
  using assms by (auto simp: delete_tenant_def Let_def valid_status_def intro!: control_ok_tenants dest!: one_row_of_Inr)

lemma restate_environment_ok:
  assumes ok: "control_ok c" and v: "v \<in> set (cp_environments c)" and "valid_status status"
    and "restate_environment now v final status actor reason c = Inr c'"
  shows "control_ok c'"
proof -
  define f :: "environment \<Rightarrow> environment" where "f = (\<lambda>x. x\<lparr>nv_status := status, nv_slug := final, nv_changed_at := Some now, nv_changed_by := actor, nv_reason := reason\<rparr>)"
  define e where "e = \<lparr>ve_kind = ''environment_lifecycle_update'', ve_tenant = nv_tenant v, ve_actor = actor\<rparr>"
  have free: "(nv_tenant v, final) \<notin> (\<lambda>x. (nv_tenant x, nv_slug x)) ` {x \<in> set (cp_environments c). nv_id x \<noteq> nv_id v}"
    and t: "nv_tenant v \<in> tenant_ids c"
    and c': "c' = c\<lparr>cp_environments := update_rows (\<lambda>x. nv_id x = nv_id v) f (cp_environments c), cp_events := cp_events c @ [e]\<rparr>"
    using assms(4) by (auto simp: restate_environment_def f_def e_def)
  have "control_ok (c\<lparr>cp_environments := update_rows (\<lambda>x. nv_id x = nv_id v) f (cp_environments c)\<rparr>)"
    using free assms(3) by (intro control_ok_rename[OF ok v, where new = final]) (auto simp: f_def)
  from control_ok_event[OF this, of e] t show ?thesis unfolding c' by (simp add: e_def)
qed

lemma set_environment_status_ok:
  assumes "control_ok c" and "set_environment_status raw now tenant env status actor reason c = Inr c'"
  shows "control_ok c'"
  using assms
  by (auto simp: set_environment_status_def Let_def check_status_def valid_status_def dest!: one_row_of_Inr
      elim!: restate_environment_ok[rotated 3])

lemma set_token_status_ok:
  assumes "control_ok c" and "set_token_status now i status actor reason c = Inr c'"
  shows "control_ok c'"
proof -
  obtain k where k: "k \<in> set (cp_tokens c)" "valid_status status"
    and c': "c' = c\<lparr>cp_tokens := update_rows (\<lambda>x. tk_id x = i) (\<lambda>x. x\<lparr>tk_status := status, tk_changed_at := Some now,
                 tk_changed_by := trim_space actor, tk_reason := trim_space reason\<rparr>) (cp_tokens c),
      cp_events := cp_events c @ [\<lparr>ve_kind = ''api_token_lifecycle_update'', ve_tenant = tk_tenant k, ve_actor = trim_space actor\<rparr>]\<rparr>"
    and t: "tk_tenant k \<in> tenant_ids c"
    using assms(2) by (auto simp: set_token_status_def Let_def check_status_def valid_status_def dest!: one_row_of_Inr)
  have "control_ok (c\<lparr>cp_tokens := update_rows (\<lambda>x. tk_id x = i) (\<lambda>x. x\<lparr>tk_status := status, tk_changed_at := Some now,
                 tk_changed_by := trim_space actor, tk_reason := trim_space reason\<rparr>) (cp_tokens c)\<rparr>)"
    using assms(1) k(2) by (intro control_ok_tokens tokens_ok_update) (auto simp: control_ok_def)
  from control_ok_event[OF this] t show ?thesis unfolding c' by simp
qed

lemma delete_environment_ok:
  assumes "control_ok c" and "delete_environment raw now states tenant env actor reason c = Inr c'"
  shows "control_ok c'"
proof -
  obtain v ks final by' why where v: "v \<in> set (cp_environments c)"
    and ks: "ks = update_rows (\<lambda>k. tk_env k = nv_id v \<and> tk_status k \<noteq> ''archived'')
                 (\<lambda>k. k\<lparr>tk_status := ''archived'', tk_changed_at := Some now, tk_changed_by := by', tk_reason := why\<rparr>) (cp_tokens c)"
    and r: "restate_environment now v final ''archived'' by' why (c\<lparr>cp_tokens := ks\<rparr>) = Inr c'"
    using assms(2) by (auto simp: delete_environment_def Let_def dest!: one_row_of_Inr)
  have "control_ok (c\<lparr>cp_tokens := ks\<rparr>)"
    unfolding ks using assms(1) by (intro control_ok_tokens tokens_ok_update) (auto simp: control_ok_def valid_status_def)
  then show ?thesis by (rule restate_environment_ok[OF _ _ _ r]) (simp_all add: v valid_status_def)
qed

lemma image_neq: "f ` {x \<in> A. f x \<noteq> y} = f ` A - {y}"
  by auto

lemma purge_archived_tenant_ok:
  assumes "control_ok c" and "purge_archived_tenant states slug older c = Inr c'"
  shows "control_ok c'"
proof -
  obtain t where "one_row_of NoRows (\<lambda>t. te_slug t = trim_space slug \<and> archived_before older t) (cp_tenants c) = Inr t"
    using assms(2) by (auto simp: purge_archived_tenant_def Let_def)
  then have env: "tk_env ` {k \<in> set (cp_tokens c). tk_tenant k \<noteq> te_id t} \<inter> nv_id ` {v \<in> set (cp_environments c). nv_tenant v = te_id t} = {}"
    and ev: "te_id t \<notin> ve_tenant ` set (cp_events c)"
    and c': "c' = c\<lparr>cp_tokens := filter (\<lambda>k. tk_tenant k \<noteq> te_id t) (cp_tokens c),
      cp_environments := filter (\<lambda>v. nv_tenant v \<noteq> te_id t) (cp_environments c), cp_tenants := filter (\<lambda>x. te_id x \<noteq> te_id t) (cp_tenants c)\<rparr>"
    using assms(2) by (simp_all add: purge_archived_tenant_def Let_def)
  note ok = assms(1)[unfolded control_ok_def]
  have "tk_env k \<in> nv_id ` {v \<in> set (cp_environments c). nv_tenant v \<noteq> te_id t}"
    if "k \<in> set (cp_tokens c)" "tk_tenant k \<noteq> te_id t" for k
  proof -
    have "tk_env k \<in> environment_ids c" using ok that(1) by (simp add: tokens_ok_def)
    then obtain v where v: "v \<in> set (cp_environments c)" "nv_id v = tk_env k" by (metis imageE)
    moreover have "nv_tenant v \<noteq> te_id t"
    proof
      assume "nv_tenant v = te_id t"
      then have "tk_env k \<in> nv_id ` {v \<in> set (cp_environments c). nv_tenant v = te_id t}" using v by force
      moreover have "tk_env k \<in> tk_env ` {k \<in> set (cp_tokens c). tk_tenant k \<noteq> te_id t}" using that by blast
      ultimately show False using env by blast
    qed
    ultimately show ?thesis by (metis (mono_tags, lifting) image_eqI mem_Collect_eq)
  qed
  then have "tokens_ok (cp_next c) (te_id ` {x \<in> set (cp_tenants c). te_id x \<noteq> te_id t})
      (nv_id ` {v \<in> set (cp_environments c). nv_tenant v \<noteq> te_id t}) (filter (\<lambda>k. tk_tenant k \<noteq> te_id t) (cp_tokens c))"
    using tokens_ok_filter[of "cp_next c" "tenant_ids c" "environment_ids c" "cp_tokens c" "\<lambda>k. tk_tenant k \<noteq> te_id t"] ok
    by (auto simp: tokens_ok_def)
  moreover have "tenants_ok (cp_next c) (filter (\<lambda>x. te_id x \<noteq> te_id t) (cp_tenants c))"
    using ok by (simp add: tenants_ok_def distinct_map_filter)
  moreover have "environments_ok (cp_next c) (te_id ` {x \<in> set (cp_tenants c). te_id x \<noteq> te_id t})
      (filter (\<lambda>v. nv_tenant v \<noteq> te_id t) (cp_environments c))"
    using ok by (auto simp: environments_ok_def distinct_map_filter)
  moreover have "events_ok (filter (\<lambda>x. te_id x \<noteq> te_id t) (cp_tenants c)) (cp_events c)"
    using ok ev by (simp add: events_ok_def image_neq subset_Diff_insert)
  ultimately show ?thesis using ok by (simp add: control_ok_def c')
qed

section \<open>Tokens\<close>

lemma insert_token_ok:
  assumes "control_ok c" and "insert_token k c = Inr c'" and "tk_id k = control_id c" and "tk_status k = ''active''"
  shows "control_ok c'"
proof -
  have c': "c' = c\<lparr>cp_tokens := cp_tokens c @ [k], cp_next := Suc (cp_next c)\<rparr>"
    and ok: "tokens_ok (cp_next c) (tenant_ids c) (environment_ids c) (cp_tokens c)"
    and new: "tk_tenant k \<in> tenant_ids c" "tk_env k \<in> environment_ids c"
      "(tk_env k, tk_name k) \<notin> (\<lambda>x. (tk_env x, tk_name x)) ` set (cp_tokens c)"
      "tk_hash k \<notin> set (live_hashes (cp_tokens c))"
    using assms(1,2) by (auto simp: insert_token_def control_ok_def live_hashes_def)
  have "tk_id k \<notin> tk_id ` set (cp_tokens c)"
    using ok unfolding assms(3) control_id_def by (intro id_below_fresh) (simp add: tokens_ok_def)
  then have "tokens_ok (Suc (cp_next c)) (tenant_ids c) (environment_ids c) (cp_tokens c @ [k])"
    using new assms(3,4) tokens_ok_Suc[OF ok] by (simp add: tokens_ok_def control_id_def valid_status_def live_hashes_def)
  then show ?thesis using assms(1) by (simp add: control_ok_def c' control_ok_Suc)
qed

lemma upserted_hashes:
  assumes "distinct (map key ks)" and "distinct (live_hashes ks)"
    and "\<And>x. x \<in> set ks \<Longrightarrow> tk_revoked_at x = None \<Longrightarrow> key x \<noteq> i \<Longrightarrow> tk_hash x \<noteq> h"
    and f: "\<And>x. tk_hash (f x) = h"
  shows "distinct (live_hashes (update_rows (\<lambda>x. key x = i) f ks))"
  using assms(1-3)
proof (induction ks)
  case (Cons k ks)
  have other: "key x \<noteq> key k" if "x \<in> set ks" for x using Cons.prems(1) that by simp (metis image_eqI)
  have rest: "update_rows (\<lambda>x. key x = i) f ks = ks" if "key k = i"
    using other that unfolding update_rows_def by (intro map_idI) auto
  have IH: "distinct (live_hashes (update_rows (\<lambda>x. key x = i) f ks))"
    using Cons.prems by (intro Cons.IH) (auto simp: live_hashes_def split: if_splits)
  show ?case
  proof (cases "key k = i")
    case True
    have "h \<notin> set (live_hashes ks)"
      using Cons.prems(3) other True unfolding live_hashes_def by (auto simp: image_iff)
    then show ?thesis using True Cons.prems(2) by (simp add: rest f live_hashes_def split: if_splits)
  next
    case False
    have "tk_hash k \<notin> set (live_hashes (update_rows (\<lambda>x. key x = i) f ks))" if live: "tk_revoked_at k = None"
    proof
      assume "tk_hash k \<in> set (live_hashes (update_rows (\<lambda>x. key x = i) f ks))"
      then obtain x where x: "x \<in> set ks" "tk_hash k = tk_hash (if key x = i then f x else x)"
        "tk_revoked_at (if key x = i then f x else x) = None"
        by (auto simp: live_hashes_def set_update_rows)
      show False
      proof (cases "key x = i")
        case True
        then show False using x(2) f Cons.prems(3)[of k] live False by simp
      next
        case False
        then have "tk_hash k \<in> set (live_hashes ks)" using x unfolding live_hashes_def by force
        then show False using Cons.prems(2) live by (simp add: live_hashes_def)
      qed
    qed
    then show ?thesis using False IH by (simp add: live_hashes_def)
  qed
qed (simp add: live_hashes_def)

lemma upsert_token_ok:
  assumes ok: "control_ok c" and up: "upsert_token now tenant env name hash shown c = Inr c'"
  shows "control_ok c'"
proof (cases "(env, name) \<in> (\<lambda>x. (tk_env x, tk_name x)) ` set (cp_tokens c)")
  case False
  then show ?thesis using up by (intro insert_token_ok[OF ok]) (auto simp: upsert_token_def new_token_def)
next
  case True
  define f where "f = (\<lambda>x :: api_token. x\<lparr>tk_hash := hash, tk_prefix := shown, tk_revoked_at := None\<rparr>)"
  define ks where "ks = update_rows (\<lambda>x. (tk_env x, tk_name x) = (env, name)) f (cp_tokens c)"
  have free: "hash \<notin> tk_hash ` {x \<in> set (cp_tokens c). tk_revoked_at x = None \<and> (tk_env x, tk_name x) \<noteq> (env, name)}"
    and c': "c' = c\<lparr>cp_tokens := ks\<rparr>"
    using up True by (auto simp: upsert_token_def ks_def f_def)
  have t: "tokens_ok (cp_next c) (tenant_ids c) (environment_ids c) (cp_tokens c)" using ok by (simp add: control_ok_def)
  have "distinct (live_hashes ks)"
    unfolding ks_def using t free
    by (intro upserted_hashes[where key = "\<lambda>x. (tk_env x, tk_name x)" and h = hash]) (auto simp: tokens_ok_def f_def)
  moreover have "map tk_id ks = map tk_id (cp_tokens c)"
      "map (\<lambda>k. (tk_env k, tk_name k)) ks = map (\<lambda>k. (tk_env k, tk_name k)) (cp_tokens c)"
    unfolding ks_def by (intro map_update_rows, simp add: f_def)+
  ultimately have "tokens_ok (cp_next c) (tenant_ids c) (environment_ids c) ks"
    using t by (auto simp: tokens_ok_def ks_def set_update_rows f_def)
  then show ?thesis unfolding c' by (rule control_ok_tokens[OF ok])
qed

lemma touch_tokens_ok: "control_ok c \<Longrightarrow> control_ok (touch_tokens now hash c)"
  unfolding touch_tokens_def by (intro control_ok_tokens tokens_ok_update) (auto simp: control_ok_def)

lemma authenticate_api_token_ok: "control_ok c \<Longrightarrow> control_ok (fst (authenticate_api_token H now secret tenant c))"
  by (auto simp: authenticate_api_token_def Let_def touch_tokens_ok split: option.splits)

lemma authenticate_backend_token_fst: "fst (authenticate_backend_token H po now secret tenant st c) = fst (authenticate_api_token H now secret tenant c)"
  by (auto simp: authenticate_backend_token_def split: prod.splits sum.splits option.splits list.splits)

lemma token_environment_ok:
  assumes "control_ok c" and "token_environment pick pub t tenant env c = (c', r)"
  shows "control_ok c'"
  using assms ensure_default_environment_ok[OF assms(1), of pub "te_id t"]
  by (auto simp: token_environment_def split: sum.splits if_splits prod.splits)

text \<open>What a call that returns a token has done.\<close>

lemma create_api_token_cases:
  obtains e c1 t where "create_api_token H pick pub now secret shown tenant env name c = (c1, Inl e)"
      "c1 = c \<or> (\<exists>r. token_environment pick pub t (trim_space tenant) (if trim_space env = [] then ''default'' else trim_space env) c = (c1, r))"
  | t v c1 c2 k where "create_api_token H pick pub now secret shown tenant env name c = (c2, Inr k)"
      "get_tenant_by_selector c (trim_space tenant) = Inr t" "te_status t = ''active''"
      "token_environment pick pub t (trim_space tenant) (if trim_space env = [] then ''default'' else trim_space env) c = (c1, Inr v)"
      "nv_status v = ''active''" "k = new_token c1 now (te_id t) (nv_id v) (trim_space name) (H secret) shown" "insert_token k c1 = Inr c2"
proof (cases "trim_space tenant = [] \<or> trim_space name = []")
  case True
  then show thesis using that(1)[of c] by (auto simp: create_api_token_def Let_def)
next
  case named: False
  show thesis
  proof (cases "get_tenant_by_selector c (trim_space tenant)")
    case (Inl e)
    then show thesis using named that(1)[of c] by (auto simp: create_api_token_def Let_def)
  next
    case t: (Inr t)
    obtain c1 r where te: "token_environment pick pub t (trim_space tenant) (if trim_space env = [] then ''default'' else trim_space env) c = (c1, r)"
      by fastforce
    show thesis
    proof (cases r)
      case (Inl e)
      then show thesis using named t te that(1)[of c] that(1)[of c1 e t] by (cases "te_status t = ''active''") (auto simp: create_api_token_def Let_def)
    next
      case (Inr v)
      let ?k = "new_token c1 now (te_id t) (nv_id v) (trim_space name) (H secret) shown"
      show thesis
      proof (cases "te_status t = ''active'' \<and> nv_status v = ''active''")
        case False
        then show thesis using named t te Inr that(1)[of c _ t] that(1)[of c1 _ t]
          by (cases "te_status t = ''active''") (auto simp: create_api_token_def Let_def)
      next
        case True
        then show thesis using named t te Inr that(1)[of c1 _ t] that(2)[of _ ?k t c1 v]
          by (cases "insert_token ?k c1") (auto simp: create_api_token_def Let_def)
      qed
    qed
  qed
qed

lemma create_api_token_ok:
  assumes "control_ok c"
  shows "control_ok (fst (create_api_token H pick pub now secret shown tenant env name c))"
proof (cases rule: create_api_token_cases[of H pick pub now secret shown tenant env name c])
  case (1 e c1 t)
  then show ?thesis using assms token_environment_ok[OF assms] by auto
next
  case (2 t v c1 c2 k)
  have "control_ok c1" by (rule token_environment_ok[OF assms 2(4)])
  then show ?thesis using insert_token_ok[OF _ 2(7)] 2(1,6) by (simp add: new_token_def)
qed

lemma bootstrap_tenant_token_ok:
  assumes "control_ok c"
  shows "control_ok (fst (bootstrap_tenant_token H gen ws pub now slug tn name plaintext c))"
proof -
  obtain c1 r where c1: "(case get_tenant_by_slug c slug of
              Inr t \<Rightarrow> (c, Inr t) | Inl e \<Rightarrow> create_tenant gen ws pub True slug tn c) = (c1, r)" by fastforce
  then have ok: "control_ok c1" using create_tenant_ok[OF assms, of gen ws pub True slug tn] assms
    by (auto split: sum.splits)
  show ?thesis
    unfolding bootstrap_tenant_token_def c1 using ok
    by (auto split: sum.splits intro: ensure_default_environment_ok upsert_token_ok)
qed

lemma revoke_api_token_ok: "control_ok c \<Longrightarrow> revoke_api_token now i c = Inr c' \<Longrightarrow> control_ok c'"
  by (auto simp: revoke_api_token_def control_ok_def intro!: control_ok_tokens[unfolded control_ok_def] tokens_ok_update)

lemma delete_api_token_ok:
  assumes "control_ok c" and "delete_api_token i actor c = Inr c'"
  shows "control_ok c'"
proof -
  obtain k where "one_row_of TokenNotFound (\<lambda>k. tk_id k = trim_space i) (cp_tokens c) = Inr k"
    using assms(2) by (auto simp: delete_api_token_def Let_def split: if_splits)
  then have t: "tk_tenant k \<in> tenant_ids c"
    and c': "c' = c\<lparr>cp_tokens := filter (\<lambda>k. tk_id k \<noteq> trim_space i) (cp_tokens c),
      cp_events := cp_events c @ [\<lparr>ve_kind = ''api_token_deleted'', ve_tenant = tk_tenant k, ve_actor = trim_space actor\<rparr>]\<rparr>"
    using assms(2) by (simp_all add: delete_api_token_def Let_def split: if_splits)
  have "control_ok (c\<lparr>cp_tokens := filter (\<lambda>k. tk_id k \<noteq> trim_space i) (cp_tokens c)\<rparr>)"
    using assms(1) by (intro control_ok_tokens tokens_ok_filter) (auto simp: control_ok_def)
  from control_ok_event[OF this] t show ?thesis unfolding c' by simp
qed

section \<open>Roles\<close>

lemma control_ok_grants: "control_ok c \<Longrightarrow> grants_ok (cp_next c) gs \<Longrightarrow> control_ok (c\<lparr>cp_grants := gs\<rparr>)"
  by (simp add: control_ok_def)

lemma ensure_principal_role_cases:
  assumes "ensure_principal_role now kind subject role scope ref by' c = Inr c'"
  obtains "c' = c"
  | g e where "c' = c\<lparr>cp_grants := cp_grants c @ [g], cp_next := Suc (cp_next c), cp_events := cp_events c @ [e]\<rparr>"
      "gr_id g = control_id c" "gr_revoked_at g = None" "ve_tenant e \<in> tenant_ids c"
      "grant_key g \<notin> grant_key ` {g \<in> set (cp_grants c). gr_revoked_at g = None}"
proof -
  let ?scope = "if trim_space scope = [] then ''global'' else trim_space scope"
  let ?g = "\<lparr>gr_id = control_id c, gr_subject_kind = trim_space kind, gr_subject = trim_space subject, gr_role = trim_space role,
     gr_scope_kind = ?scope, gr_scope_ref = trim_space ref, gr_granted_by = trim_space by', gr_granted_at = now, gr_revoked_at = None\<rparr>"
  show thesis
  proof (cases "trim_space role \<notin> fst ` set (cp_roles c) \<or>
      (\<exists>g \<in> set (cp_grants c). same_active_grant (trim_space kind) (trim_space subject) (trim_space role) ?scope (trim_space ref) g)")
    case True
    then show thesis using assms that(1) by (auto simp: ensure_principal_role_def Let_def split: if_splits)
  next
    case False
    have "grant_key ?g \<notin> grant_key ` {g \<in> set (cp_grants c). gr_revoked_at g = None}"
      using False by (auto simp: grant_key_def same_active_grant_def)
    then show thesis using assms False that(2)[of _ ?g] by (auto simp: ensure_principal_role_def Let_def split: if_splits)
  qed
qed

lemma ensure_principal_role_ok:
  assumes ok: "control_ok c" and "ensure_principal_role now kind subject role scope ref by' c = Inr c'"
  shows "control_ok c'"
  using assms(2)
proof (cases rule: ensure_principal_role_cases)
  case (2 g e)
  have gs: "grants_ok (cp_next c) (cp_grants c)" using ok by (simp add: control_ok_def)
  have "gr_id g \<notin> gr_id ` set (cp_grants c)"
    using gs unfolding 2(2) control_id_def by (intro id_below_fresh) (simp add: grants_ok_def)
  then have "grants_ok (Suc (cp_next c)) (cp_grants c @ [g])"
    using grants_ok_Suc[OF gs] 2(2,3,5) by (simp add: grants_ok_def control_id_def)
  then have "control_ok (c\<lparr>cp_grants := cp_grants c @ [g], cp_next := Suc (cp_next c)\<rparr>)"
    using ok by (simp add: control_ok_def control_ok_Suc)
  from control_ok_event[OF this, of e] show ?thesis using 2(4) by (simp add: 2(1))
qed (simp add: ok)

lemma active_grants_update:
  assumes "\<And>g. P g \<Longrightarrow> gr_revoked_at (f g) \<noteq> None" and "distinct (map grant_key (filter (\<lambda>g. gr_revoked_at g = None) gs))"
  shows "distinct (map grant_key (filter (\<lambda>g. gr_revoked_at g = None) (update_rows P f gs)))"
proof -
  have "filter (\<lambda>g. gr_revoked_at g = None) (update_rows P f gs) = filter (\<lambda>g. \<not> P g) (filter (\<lambda>g. gr_revoked_at g = None) gs)"
    using assms(1) by (induction gs) auto
  then show ?thesis using assms(2) by (simp add: distinct_map_filter del: filter_filter)
qed

lemma revoke_principal_role_ok:
  assumes ok: "control_ok c" and "revoke_principal_role now i by' c = Inr c'"
  shows "control_ok c'"
proof -
  define f where "f = (\<lambda>g :: role_grant. g\<lparr>gr_revoked_at := Some now,
    gr_granted_by := (if gr_granted_by g = [] \<and> trim_space by' \<noteq> [] then trim_space by' else gr_granted_by g)\<rparr>)"
  obtain e where c': "c' = c\<lparr>cp_grants := update_rows (\<lambda>g. gr_id g = trim_space i \<and> gr_revoked_at g = None) f (cp_grants c),
      cp_events := cp_events c @ [e]\<rparr>" and e: "ve_tenant e \<in> tenant_ids c"
    using assms(2) by (auto simp: revoke_principal_role_def Let_def f_def)
  have "grants_ok (cp_next c) (update_rows (\<lambda>g. gr_id g = trim_space i \<and> gr_revoked_at g = None) f (cp_grants c))"
    using ok active_grants_update[of "\<lambda>g. gr_id g = trim_space i \<and> gr_revoked_at g = None" f "cp_grants c"]
    by (auto simp: control_ok_def grants_ok_def map_update_rows set_update_rows f_def)
  from control_ok_event[OF control_ok_grants[OF ok this], of e] e show ?thesis by (simp add: c')
qed

lemma ensure_api_token_role_by_name_ok:
  "control_ok c \<Longrightarrow> ensure_api_token_role_by_name pick now tenant env name role by' c = Inr c' \<Longrightarrow> control_ok c'"
  by (auto simp: ensure_api_token_role_by_name_def Let_def split: list.splits elim: ensure_principal_role_ok)

lemma operator_token_loop_ok:
  assumes "\<And>i s c. control_ok c \<Longrightarrow> control_ok (fst (create i s c))"
  shows "control_ok c \<Longrightarrow> control_ok (fst (operator_token_loop n attempt create name e c))"
proof (induction n arbitrary: attempt e c)
  case (Suc n)
  obtain c1 r where "create attempt (if attempt = 0 then name else name @ ''-'' @ show_nat (Suc attempt)) c = (c1, r)" by fastforce
  then show ?case using assms[OF Suc.prems, of attempt "if attempt = 0 then name else name @ ''-'' @ show_nat (Suc attempt)"] Suc.IH
    by (auto split: sum.splits)
qed simp

lemma create_operator_token_ok:
  assumes "control_ok c"
  shows "control_ok (fst (create_operator_token H pick pub now secrets shown name role scope ref by' c))"
proof -
  obtain c1 r where loop: "operator_token_loop 5 0 (\<lambda>i n. create_api_token H pick pub now (secrets i) shown ''self-hosted'' ''default'' n)
      (trim_space name) NoRows c = (c1, r)" by fastforce
  have "control_ok (fst (operator_token_loop 5 0 (\<lambda>i n. create_api_token H pick pub now (secrets i) shown ''self-hosted'' ''default'' n)
      (trim_space name) NoRows c))" by (intro operator_token_loop_ok create_api_token_ok assms)
  then have "control_ok c1" by (simp add: loop)
  then show ?thesis
    using assms unfolding create_operator_token_def Let_def loop
    by (auto split: sum.splits intro: ensure_principal_role_ok delete_api_token_ok)
qed

end
