(* ===== verification/ControlSafety.thy ===== *)
theory ControlSafety
  imports ControlRuns
begin

text \<open>
  What holds in every run of the control plane. \<open>served_step\<close> is a call of the API, \<open>control_step\<close> adds the first-run
  setup of a tenant and its token, and a run begins with the tables the migrations leave: the self-hosted tenant, its
  default environment, the roles, no token.
\<close>

section \<open>Runs\<close>

inductive served_step :: "(string \<Rightarrow> string) \<Rightarrow> control \<Rightarrow> control \<Rightarrow> bool" for H where
  Create_tenant: "served_step H c (fst (create_tenant gen ws pub dflt slug name c))"
| Entitlements: "set_tenant_entitlements slug plan a b d actor c = Inr c' \<Longrightarrow> served_step H c c'"
| Create_environment: "create_environment pub now selector slug tier key mode c = Inr (v, c') \<Longrightarrow> served_step H c c'"
| Default_environment: "ensure_default_environment pub tenant c = Inr (v, c') \<Longrightarrow> served_step H c c'"
| Rename_environment: "rename_environment now tenant current new actor reason c = Inr (v, c') \<Longrightarrow> served_step H c c'"
| Dsn: "set_environment_dsn i dsn c = Inr c' \<Longrightarrow> served_step H c c'"
| Lock_default: "set_environment_lock_default selector slug mode c = Inr c' \<Longrightarrow> served_step H c c'"
| Request_upgrade: "request_dedicated_upgrade pick now tenant env c = Inr (v, c') \<Longrightarrow> served_step H c c'"
| Complete_provision: "complete_dedicated_provision now i host dsn c = Inr c' \<Longrightarrow> served_step H c c'"
| Fail_provision: "fail_dedicated_provision now i msg c = Inr c' \<Longrightarrow> served_step H c c'"
| Tenant_status: "set_tenant_status now slug status actor reason c = Inr c' \<Longrightarrow> served_step H c c'"
| Environment_status: "set_environment_status raw now tenant env status actor reason c = Inr c' \<Longrightarrow> served_step H c c'"
| Token_status: "set_token_status now i status actor reason c = Inr c' \<Longrightarrow> served_step H c c'"
| Delete_environment: "delete_environment raw now states tenant env actor reason c = Inr c' \<Longrightarrow> served_step H c c'"
| Delete_tenant: "delete_tenant now slug actor reason c = Inr c' \<Longrightarrow> served_step H c c'"
| Purge: "purge_archived_tenant states slug older c = Inr c' \<Longrightarrow> served_step H c c'"
| Create_token: "served_step H c (fst (create_api_token H pick pub now secret shown tenant env name c))"
| Authenticate: "served_step H c (fst (authenticate_backend_token H po now secret tenant st c))"
| Revoke_token: "revoke_api_token now i c = Inr c' \<Longrightarrow> served_step H c c'"
| Delete_token: "delete_api_token i actor c = Inr c' \<Longrightarrow> served_step H c c'"
| Grant: "ensure_principal_role now kind subject role scope ref by' c = Inr c' \<Longrightarrow> served_step H c c'"
| Grant_by_name: "ensure_api_token_role_by_name tpick now tenant env name role by' c = Inr c' \<Longrightarrow> served_step H c c'"
| Revoke_grant: "revoke_principal_role now i by' c = Inr c' \<Longrightarrow> served_step H c c'"
| Operator_token: "served_step H c (fst (create_operator_token H pick pub now secrets shown name role scope ref by' c))"

inductive control_step :: "(string \<Rightarrow> string) \<Rightarrow> control \<Rightarrow> control \<Rightarrow> bool" for H where
  Served: "served_step H c c' \<Longrightarrow> control_step H c c'"
| Bootstrap: "control_step H c (fst (bootstrap_tenant_token H gen ws pub now slug tn name plaintext c))"

definition initial_control :: "(string \<times> string list) list \<Rightarrow> string \<Rightarrow> control" where
  "initial_control roles pub =
     \<lparr>cp_tenants = [\<lparr>te_id = show_nat 0, te_workspace = ''ws_000000000000'', te_slug = ''self-hosted'', te_name = ''Self-hosted (default)'',
        te_kind = ''organization'', te_owner = None, te_status = ''active'', te_changed_at = None, te_changed_by = [], te_reason = [],
        te_plan = ''starter'', te_max_environments = 0, te_max_state_resources = 0, te_max_environment_resources = 0\<rparr>],
      cp_environments = [\<lparr>nv_id = show_nat 1, nv_public = pub, nv_tenant = show_nat 0, nv_slug = ''default'', nv_lock_default = ''auto'',
        nv_status = ''active'', nv_tier = ''shared_host'', nv_provision = ''ready'', nv_instance_key = ''shared'', nv_database_name = None,
        nv_dsn = None, nv_host = [], nv_source_dsn = None, nv_error = None, nv_started_at = None, nv_finished_at = None,
        nv_changed_at = None, nv_changed_by = [], nv_reason = []\<rparr>],
      cp_tokens = [], cp_grants = [], cp_roles = roles, cp_events = [], cp_next = 2\<rparr>"

definition control_reachable :: "(string \<Rightarrow> string) \<Rightarrow> control \<Rightarrow> bool" where
  "control_reachable H c \<longleftrightarrow> (\<exists>roles pub. (control_step H)\<^sup>*\<^sup>* (initial_control roles pub) c)"

lemma initial_control_ok: "control_ok (initial_control roles pub)"
proof -
  have "id_below 2 (show_nat 0)" "id_below 2 (show_nat 1)"
    unfolding id_below_def by (rule exI[of _ 0], simp) (rule exI[of _ 1], simp)
  then show ?thesis
    by (simp add: initial_control_def control_ok_def tenants_ok_def environments_ok_def tokens_ok_def grants_ok_def events_ok_def
        live_hashes_def valid_status_def)
qed

lemma served_step_ok:
  assumes "served_step H c c'" and "control_ok c"
  shows "control_ok c'"
  using assms
proof (cases rule: served_step.cases)
  case (Authenticate po now secret tenant st)
  then show ?thesis using assms(2) by (simp add: authenticate_backend_token_fst authenticate_api_token_ok)
qed (use assms(2) in \<open>blast intro: create_tenant_ok set_tenant_entitlements_ok create_environment_ok ensure_default_environment_ok
    rename_environment_ok set_environment_dsn_ok set_environment_lock_default_ok request_dedicated_upgrade_ok
    complete_dedicated_provision_ok fail_dedicated_provision_ok set_tenant_status_ok set_environment_status_ok set_token_status_ok
    delete_environment_ok delete_tenant_ok purge_archived_tenant_ok create_api_token_ok revoke_api_token_ok delete_api_token_ok
    ensure_principal_role_ok ensure_api_token_role_by_name_ok revoke_principal_role_ok create_operator_token_ok\<close>)+

lemma control_step_ok: "control_step H c c' \<Longrightarrow> control_ok c \<Longrightarrow> control_ok c'"
  by (cases rule: control_step.cases) (auto intro: served_step_ok bootstrap_tenant_token_ok)

lemma control_run_ok: "(control_step H)\<^sup>*\<^sup>* c c' \<Longrightarrow> control_ok c \<Longrightarrow> control_ok c'"
  by (induction rule: rtranclp_induct) (auto intro: control_step_ok)

lemma served_run_ok: "(served_step H)\<^sup>*\<^sup>* c c' \<Longrightarrow> control_ok c \<Longrightarrow> control_ok c'"
  by (induction rule: rtranclp_induct) (auto intro: served_step_ok)

lemma reachable_ok: "control_reachable H c \<Longrightarrow> control_ok c"
  using control_run_ok initial_control_ok by (auto simp: control_reachable_def)

section \<open>Rows by key\<close>

lemma find_by_key:
  assumes "distinct (map key xs)" and "x \<in> set xs"
  shows "find (\<lambda>y. key y = key x) xs = Some x"
  using assms
proof (induction xs)
  case (Cons y ys)
  show ?case
  proof (cases "x = y")
    case False
    then have "x \<in> set ys" using Cons.prems(2) by simp
    moreover from this have "key y \<noteq> key x" using Cons.prems(1) by (auto simp: image_iff)
    ultimately show ?thesis using Cons by simp
  qed simp
qed simp

lemma joined_tokens_iff:
  assumes "control_ok c"
  shows "(k, t, v) \<in> set (joined_tokens c) \<longleftrightarrow>
    k \<in> set (cp_tokens c) \<and> t \<in> set (cp_tenants c) \<and> te_id t = tk_tenant k \<and> v \<in> set (cp_environments c) \<and> nv_id v = tk_env k"
proof -
  have d: "distinct (map te_id (cp_tenants c))" "distinct (map nv_id (cp_environments c))"
    using assms by (simp_all add: control_ok_def tenants_ok_def environments_ok_def)
  have "joined_token c k' = Some (k, t, v) \<longleftrightarrow> k' = k \<and> t \<in> set (cp_tenants c) \<and> te_id t = tk_tenant k \<and>
      v \<in> set (cp_environments c) \<and> nv_id v = tk_env k" for k'
  proof
    assume "joined_token c k' = Some (k, t, v)"
    then have *: "k' = k" "find (\<lambda>t. te_id t = tk_tenant k) (cp_tenants c) = Some t" "find (\<lambda>v. nv_id v = tk_env k) (cp_environments c) = Some v"
      by (auto simp: joined_token_def split: option.splits)
    show "k' = k \<and> t \<in> set (cp_tenants c) \<and> te_id t = tk_tenant k \<and> v \<in> set (cp_environments c) \<and> nv_id v = tk_env k"
      using * by (auto simp: find_Some_iff)
  next
    assume "k' = k \<and> t \<in> set (cp_tenants c) \<and> te_id t = tk_tenant k \<and> v \<in> set (cp_environments c) \<and> nv_id v = tk_env k"
    then show "joined_token c k' = Some (k, t, v)"
      using find_by_key[OF d(1), of t] find_by_key[OF d(2), of v] by (simp add: joined_token_def)
  qed
  then show ?thesis by (force simp: joined_tokens_def List.map_filter_def)
qed

lemma live_hash_unique:
  assumes "control_ok c" and "k \<in> set (cp_tokens c)" and "k' \<in> set (cp_tokens c)"
    and "tk_revoked_at k = None" and "tk_revoked_at k' = None" and "tk_hash k = tk_hash k'"
  shows "k = k'"
proof -
  have "inj_on tk_hash (set (filter (\<lambda>k. tk_revoked_at k = None) (cp_tokens c)))"
    using assms(1) unfolding control_ok_def tokens_ok_def live_hashes_def distinct_map by blast
  then show ?thesis using assms(2-6) by (auto dest: inj_onD)
qed

lemma tenant_unique: "control_ok c \<Longrightarrow> t \<in> set (cp_tenants c) \<Longrightarrow> t' \<in> set (cp_tenants c) \<Longrightarrow> te_id t = te_id t' \<Longrightarrow> t = t'"
  by (auto simp: control_ok_def tenants_ok_def distinct_map dest: inj_onD)

lemma environment_unique:
  "control_ok c \<Longrightarrow> v \<in> set (cp_environments c) \<Longrightarrow> v' \<in> set (cp_environments c) \<Longrightarrow> nv_id v = nv_id v' \<Longrightarrow> v = v'"
  by (auto simp: control_ok_def environments_ok_def distinct_map dest: inj_onD)

section \<open>What a secret is worth\<close>

text \<open>A secret is accepted exactly for a live token with its hash whose tenant and environment are active, and what it is
  accepted as is that tenant and that environment.\<close>

lemma authenticate_api_token_iff:
  assumes ok: "control_ok c"
  shows "snd (authenticate_api_token H now secret tenant c) = Inr p \<longleftrightarrow>
    trim_space secret \<noteq> [] \<and> (\<exists>k t v. (k, t, v) \<in> set (joined_tokens c) \<and> token_accepted (H (trim_space secret)) tenant (k, t, v) \<and>
      p = principal_of t v [] (te_slug t @ ''/'' @ nv_slug v @ ''/'' @ tk_name k) ''http-api-token'')"
proof (cases "find (token_accepted (H (trim_space secret)) tenant) (joined_tokens c)")
  case None
  then show ?thesis unfolding find_None_iff by (auto simp: authenticate_api_token_def Let_def None)
next
  case (Some r)
  obtain k t v where r: "r = (k, t, v)" by (metis surj_pair)
  have in0: "(k, t, v) \<in> set (joined_tokens c)" "token_accepted (H (trim_space secret)) tenant (k, t, v)"
    using Some r by (auto simp: find_Some_iff in_set_conv_nth)
  have unique: "k' = k \<and> t' = t \<and> v' = v"
    if "(k', t', v') \<in> set (joined_tokens c)" "token_accepted (H (trim_space secret)) tenant (k', t', v')" for k' t' v'
  proof -
    have "k' = k" using that in0 live_hash_unique[OF ok, of k' k] by (simp add: joined_tokens_iff[OF ok] token_accepted_def)
    moreover have "t' = t" using that in0 \<open>k' = k\<close> tenant_unique[OF ok, of t' t] by (simp add: joined_tokens_iff[OF ok])
    moreover have "v' = v" using that in0 \<open>k' = k\<close> environment_unique[OF ok, of v' v] by (simp add: joined_tokens_iff[OF ok])
    ultimately show ?thesis by simp
  qed
  have "(\<exists>k' t' v'. (k', t', v') \<in> set (joined_tokens c) \<and> token_accepted (H (trim_space secret)) tenant (k', t', v') \<and>
      p = principal_of t' v' [] (te_slug t' @ ''/'' @ nv_slug v' @ ''/'' @ tk_name k') ''http-api-token'') \<longleftrightarrow>
      p = principal_of t v [] (te_slug t @ ''/'' @ nv_slug v @ ''/'' @ tk_name k) ''http-api-token''"
    using in0 unique by metis
  then show ?thesis by (simp add: authenticate_api_token_def Let_def Some r) metis
qed

lemma get_tenant_by_selector_in: "get_tenant_by_selector c s = Inr t \<Longrightarrow> t \<in> set (cp_tenants c)"
  by (auto simp: get_tenant_by_selector_def get_tenant_by_workspace_def get_tenant_by_slug_def Let_def dest: one_row_of_Inr
      split: sum.splits if_splits)

lemma get_environment_by_tenant_slug_in:
  assumes "\<And>xs. set (pick xs) \<subseteq> set xs" and "get_environment_by_tenant_slug pick c tenant env = Inr v"
  shows "v \<in> set (cp_environments c)"
proof -
  obtain P vs where "pick (filter P (cp_environments c)) = v # vs"
    using assms(2) by (auto simp: get_environment_by_tenant_slug_def Let_def split: list.splits)
  then show ?thesis using assms(1)[of "filter P (cp_environments c)"] by auto
qed

lemma token_environment_frame:
  assumes "token_environment pick pub t tenant env c = (c', r)"
  shows "cp_tenants c' = cp_tenants c \<and> cp_tokens c' = cp_tokens c \<and> cp_next c \<le> cp_next c'"
  using assms
  by (auto simp: token_environment_def ensure_default_environment_def insert_environment_def Let_def
      split: sum.splits if_splits option.splits prod.splits)

lemma token_environment_in:
  assumes "\<And>xs. set (pick xs) \<subseteq> set xs" and "token_environment pick pub t tenant env c = (c', Inr v)"
  shows "v \<in> set (cp_environments c')"
  using assms(2) get_environment_by_tenant_slug_in[OF assms(1)]
  by (auto simp: token_environment_def split: sum.splits if_splits prod.splits)

text \<open>C16: A token that CreateAPIToken returns is accepted at once, under every hint that names its workspace and under no
  other, as the tenant the caller selected and the environment the token was made for.\<close>

theorem created_token_accepted:
  assumes "control_reachable H c" and "\<And>xs. set (pick xs) \<subseteq> set xs"
    and "create_api_token H pick pub now secret shown tenant env name c = (c', Inr k)"
    and "secret \<noteq> []" and "trim_space secret = secret"
  shows "\<exists>t v. get_tenant_by_selector c (trim_space tenant) = Inr t \<and> te_id t = tk_tenant k \<and> v \<in> set (cp_environments c') \<and> nv_id v = tk_env k \<and>
    snd (authenticate_api_token H later secret hint c') =
      (if hint = [] \<or> te_slug t = trim_space hint \<or> te_workspace t = trim_space hint
       then Inr (principal_of t v [] (te_slug t @ ''/'' @ nv_slug v @ ''/'' @ tk_name k) ''http-api-token'') else Inl Unauthenticated)"
proof -
  note ok = reachable_ok[OF assms(1)]
  have ok': "control_ok c'" using create_api_token_ok[OF ok, of H pick pub now secret shown tenant env name] by (simp add: assms(3))
  show ?thesis
  proof (cases rule: create_api_token_cases[of H pick pub now secret shown tenant env name c])
    case (2 t v c1 c2 k1)
    then have k: "k1 = k" "c2 = c'" using assms(3) by simp_all
    have c': "c' = c1\<lparr>cp_tokens := cp_tokens c1 @ [k], cp_next := Suc (cp_next c1)\<rparr>"
      using 2(7) by (auto simp: insert_token_def k)
    have t: "t \<in> set (cp_tenants c')" using get_tenant_by_selector_in[OF 2(2)] token_environment_frame[OF 2(4)] by (simp add: c')
    have v: "v \<in> set (cp_environments c')" using token_environment_in[OF assms(2) 2(4)] by (simp add: c')
    have new: "tk_tenant k = te_id t" "tk_env k = nv_id v" "tk_hash k = H secret" "tk_revoked_at k = None" "tk_status k = ''active''"
      using 2(6) by (simp_all add: k new_token_def)
    have "k \<in> set (cp_tokens c')" by (simp add: c')
    then have row: "(k, t, v) \<in> set (joined_tokens c')" using t v new by (simp add: joined_tokens_iff[OF ok'])
    have only: "k' = k \<and> t' = t \<and> v' = v" if "(k', t', v') \<in> set (joined_tokens c')" "tk_hash k' = H secret" "tk_revoked_at k' = None" for k' t' v'
    proof -
      have "k' = k" using that row new live_hash_unique[OF ok', of k' k] by (simp add: joined_tokens_iff[OF ok'])
      then show ?thesis using that row tenant_unique[OF ok', of t' t] environment_unique[OF ok', of v' v]
        by (simp add: joined_tokens_iff[OF ok'])
    qed
    let ?hint = "hint = [] \<or> te_slug t = trim_space hint \<or> te_workspace t = trim_space hint"
    let ?p = "principal_of t v [] (te_slug t @ ''/'' @ nv_slug v @ ''/'' @ tk_name k) ''http-api-token''"
    have acc: "token_accepted (H secret) hint (k, t, v) \<longleftrightarrow> ?hint" using new 2(3,5) by (simp add: token_accepted_def)
    have live: "tk_hash k' = H secret \<and> tk_revoked_at k' = None" if "token_accepted (H secret) hint (k', t', v')" for k' t' v'
      using that by (simp add: token_accepted_def)
    have "snd (authenticate_api_token H later secret hint c') = Inr p \<longleftrightarrow> ?hint \<and> p = ?p" for p
    proof
      assume "snd (authenticate_api_token H later secret hint c') = Inr p"
      then obtain k' t' v' where r: "(k', t', v') \<in> set (joined_tokens c')" "token_accepted (H secret) hint (k', t', v')"
        "p = principal_of t' v' [] (te_slug t' @ ''/'' @ nv_slug v' @ ''/'' @ tk_name k') ''http-api-token''"
        unfolding authenticate_api_token_iff[OF ok'] assms(5) by blast
      have "k' = k \<and> t' = t \<and> v' = v" by (rule only[OF r(1)]) (use live[OF r(2)] in simp_all)
      then show "?hint \<and> p = ?p" using r acc by blast
    next
      assume "?hint \<and> p = ?p"
      then show "snd (authenticate_api_token H later secret hint c') = Inr p"
        unfolding authenticate_api_token_iff[OF ok'] assms(5) using acc row assms(4) by blast
    qed
    moreover have "snd (authenticate_api_token H later secret hint c') = Inl e \<Longrightarrow> e = Unauthenticated" for e
      by (auto simp: authenticate_api_token_def Let_def split: if_splits option.splits)
    ultimately have "snd (authenticate_api_token H later secret hint c') = (if ?hint then Inr ?p else Inl Unauthenticated)"
      by (cases "snd (authenticate_api_token H later secret hint c')") auto
    then show ?thesis using 2(2) new v by metis
  qed (use assms(3) in simp)
qed

section \<open>A revoked token\<close>

text \<open>Every live token of a later state was live before or has a later number.\<close>

definition spares :: "control \<Rightarrow> control \<Rightarrow> bool" where
  "spares c c' \<longleftrightarrow> cp_next c \<le> cp_next c' \<and> (\<forall>k \<in> set (cp_tokens c'). tk_revoked_at k = None \<longrightarrow>
     (\<exists>k0 \<in> set (cp_tokens c). tk_id k0 = tk_id k \<and> tk_revoked_at k0 = None) \<or> (\<exists>n \<ge> cp_next c. tk_id k = show_nat n))"

lemma spares_refl [simp]: "spares c c"
  by (auto simp: spares_def)

lemma spares_trans:
  assumes "spares a b" and "spares b c"
  shows "spares a c"
  unfolding spares_def
proof (intro conjI ballI impI)
  show "cp_next a \<le> cp_next c" using assms by (simp add: spares_def)
  fix k assume k: "k \<in> set (cp_tokens c)" "tk_revoked_at k = None"
  then consider k1 where "k1 \<in> set (cp_tokens b)" "tk_id k1 = tk_id k" "tk_revoked_at k1 = None" | n where "cp_next b \<le> n" "tk_id k = show_nat n"
    using assms(2) unfolding spares_def by blast
  then show "(\<exists>k0 \<in> set (cp_tokens a). tk_id k0 = tk_id k \<and> tk_revoked_at k0 = None) \<or> (\<exists>n \<ge> cp_next a. tk_id k = show_nat n)"
  proof cases
    case 1
    then show ?thesis using assms(1) unfolding spares_def by fastforce
  next
    case 2
    then show ?thesis using assms(1) unfolding spares_def by (meson le_trans)
  qed
qed

lemma spares_same: "cp_tokens c' = cp_tokens c \<Longrightarrow> cp_next c \<le> cp_next c' \<Longrightarrow> spares c c'"
  by (auto simp: spares_def)

lemma spares_update:
  assumes "cp_tokens c' = update_rows P f (cp_tokens c)" and "cp_next c' = cp_next c"
    and "\<And>x. P x \<Longrightarrow> tk_id (f x) = tk_id x \<and> (tk_revoked_at (f x) = None \<longrightarrow> tk_revoked_at x = None)"
  shows "spares c c'"
  unfolding spares_def
proof (intro conjI ballI impI disjI1)
  fix k assume k: "k \<in> set (cp_tokens c')" "tk_revoked_at k = None"
  then obtain x where "x \<in> set (cp_tokens c)" "k = (if P x then f x else x)" by (auto simp: assms(1) set_update_rows)
  then show "\<exists>k0 \<in> set (cp_tokens c). tk_id k0 = tk_id k \<and> tk_revoked_at k0 = None"
    using k(2) assms(3)[of x] by (intro bexI[of _ x]) (auto split: if_splits)
qed (simp add: assms(2))

lemma spares_insert_token: "insert_token k c = Inr c' \<Longrightarrow> tk_id k = control_id c \<Longrightarrow> spares c c'"
  by (auto simp: spares_def insert_token_def control_id_def)

lemma spares_ensure_default: "ensure_default_environment pub tenant c = Inr (v, c') \<Longrightarrow> spares c c'"
  by (auto simp: ensure_default_environment_def insert_environment_def Let_def intro!: spares_same split: option.splits)

lemma spares_create_tenant: "spares c (fst (create_tenant gen ws pub dflt slug name c))"
proof -
  have loop: "cp_tokens c' = cp_tokens c \<and> cp_next c \<le> cp_next c'" if "create_tenant_loop n gen ws s nm c = Inr (t, c')" for n s nm t c'
    using that by (induction n arbitrary: s) (auto simp: Let_def split: if_splits)
  have "spares c (fst (case create_tenant_loop 5 gen ws s n c of Inl e \<Rightarrow> (c, Inl e)
      | Inr (t, c') \<Rightarrow> if dflt
          then (case ensure_default_environment pub (te_id t) c' of Inl e \<Rightarrow> (c', Inl e) | Inr (v, c'') \<Rightarrow> (c'', Inr t))
          else (c', Inr t)))" for s n
  proof (cases "create_tenant_loop 5 gen ws s n c")
    case (Inr r)
    obtain t c1 where r: "r = (t, c1)" by (cases r)
    have c1: "spares c c1" using loop Inr r by (intro spares_same) blast+
    then have "spares c c2" if "ensure_default_environment pub (te_id t) c1 = Inr (v, c2)" for v c2
      using spares_ensure_default[OF that] spares_trans by blast
    then show ?thesis using c1 by (auto simp: Inr r split: sum.splits)
  qed simp
  then show ?thesis by (simp only: create_tenant_def Let_def)
qed

lemma spares_create_api_token: "spares c (fst (create_api_token H pick pub now secret shown tenant env name c))"
proof (cases rule: create_api_token_cases[of H pick pub now secret shown tenant env name c])
  case (1 e c1 t)
  then show ?thesis using token_environment_frame by (auto intro!: spares_same)
next
  case (2 t v c1 c2 k)
  have "spares c c1" using token_environment_frame[OF 2(4)] by (auto intro!: spares_same)
  moreover have "spares c1 c2" using 2(6) by (intro spares_insert_token[OF 2(7)]) (simp add: new_token_def)
  ultimately show ?thesis using spares_trans by (simp add: 2(1))
qed

lemma spares_ensure_role:
  assumes "ensure_principal_role now kind subject role scope ref by' c = Inr c'"
  shows "spares c c'"
  using assms by (cases rule: ensure_principal_role_cases) (auto intro!: spares_same)

lemma spares_delete_token: "delete_api_token i actor c = Inr c' \<Longrightarrow> spares c c'"
  by (auto simp: delete_api_token_def Let_def spares_def split: if_splits)

lemma spares_operator_loop:
  assumes "\<And>i s c. spares c (fst (create i s c))"
  shows "spares c (fst (operator_token_loop n attempt create name e c))"
proof (induction n arbitrary: attempt e c)
  case (Suc n)
  obtain c1 r where c1: "create attempt (if attempt = 0 then name else name @ ''-'' @ show_nat (Suc attempt)) c = (c1, r)" by fastforce
  have "spares c c1" using assms[of c attempt "if attempt = 0 then name else name @ ''-'' @ show_nat (Suc attempt)"] by (simp only: c1 fst_conv)
  then have "spares c (fst (operator_token_loop n (Suc attempt) create name e' c1))" for e' using Suc spares_trans by blast
  then show ?case using \<open>spares c c1\<close> unfolding operator_token_loop.simps c1 by (auto split: sum.splits)
qed simp

lemma spares_operator_token: "spares c (fst (create_operator_token H pick pub now secrets shown name role scope ref by' c))"
proof -
  obtain c1 r where loop: "operator_token_loop 5 0 (\<lambda>i n. create_api_token H pick pub now (secrets i) shown ''self-hosted'' ''default'' n)
      (trim_space name) NoRows c = (c1, r)" by fastforce
  have "spares c (fst (operator_token_loop 5 0 (\<lambda>i n. create_api_token H pick pub now (secrets i) shown ''self-hosted'' ''default'' n)
      (trim_space name) NoRows c))" by (intro spares_operator_loop spares_create_api_token)
  then have c1: "spares c c1" by (simp add: loop)
  have role: "spares c c2" if "ensure_principal_role now a b d e f g c1 = Inr c2" for a b d e f g c2
    using that c1 spares_ensure_role spares_trans by blast
  have gone: "spares c c2" if "delete_api_token i g c1 = Inr c2" for i g c2
    using that c1 spares_delete_token spares_trans by blast
  show ?thesis using c1 unfolding create_operator_token_def Let_def loop by (auto split: sum.splits intro: role gone)
qed

lemma spares_restate:
  "restate_environment now v final status actor reason c = Inr c' \<Longrightarrow> cp_tokens c' = cp_tokens c \<and> cp_next c' = cp_next c"
  by (auto simp: restate_environment_def)

lemma delete_environment_cases:
  assumes "delete_environment raw now states tenant0 env0 actor0 reason0 c = Inr c'"
  obtains v t actor reason where "v \<in> set (cp_environments c)" "environment_named c (trim_space tenant0) (trim_space env0) v"
    "t \<in> set (cp_tenants c)" "te_id t = nv_tenant v" "active_states states t v = 0"
    "c' = c\<lparr>cp_tokens := update_rows (\<lambda>k. tk_env k = nv_id v \<and> tk_status k \<noteq> ''archived'')
          (\<lambda>k. k\<lparr>tk_status := ''archived'', tk_changed_at := Some now, tk_changed_by := actor, tk_reason := reason\<rparr>) (cp_tokens c),
        cp_environments := update_rows (\<lambda>x. nv_id x = nv_id v) (\<lambda>x. x\<lparr>nv_status := ''archived'',
          nv_slug := archived_label_name raw (trim_space env0), nv_changed_at := Some now, nv_changed_by := actor, nv_reason := reason\<rparr>)
          (cp_environments c),
        cp_events := cp_events c @ [\<lparr>ve_kind = ''environment_lifecycle_update'', ve_tenant = nv_tenant v, ve_actor = actor\<rparr>]\<rparr>"
proof -
  obtain v t where v: "one_row_of EnvironmentNotFound (environment_named c (trim_space tenant0) (trim_space env0)) (cp_environments c) = Inr v"
    and t: "one_row_of EnvironmentNotFound (\<lambda>t. te_id t = nv_tenant v) (cp_tenants c) = Inr t"
    using assms by (auto simp: delete_environment_def Let_def)
  note rows = one_row_of_Inr[OF v] one_row_of_Inr[OF t]
  show thesis
    by (rule that[of v t "trim_space actor0" "if trim_space reason0 = [] then ''environment delete'' else trim_space reason0"])
      (use rows assms in \<open>simp_all add: delete_environment_def Let_def v t restate_environment_def\<close>)
qed

lemma served_step_spares:
  assumes "served_step H c c'"
  shows "spares c c'"
  using assms
proof (cases rule: served_step.cases)
  case (Create_environment pub now selector slug tier key mode v)
  then obtain v' where "insert_environment v' c = Inr c'" by (auto simp: create_environment_def Let_def)
  then show ?thesis by (auto simp: insert_environment_def intro!: spares_same)
next
  case (Entitlements slug plan a b d actor)
  then show ?thesis by (auto simp: set_tenant_entitlements_def Let_def intro!: spares_same)
next
  case (Rename_environment now tenant current new actor reason v)
  then show ?thesis by (auto simp: rename_environment_def Let_def intro!: spares_same)
next
  case (Dsn i dsn)
  then show ?thesis by (auto simp: set_environment_dsn_def update_environment_def intro!: spares_same split: if_splits)
next
  case (Lock_default selector slug mode)
  then show ?thesis by (auto simp: set_environment_lock_default_def Let_def intro!: spares_same)
next
  case (Request_upgrade pick now tenant env v)
  then have "c' = c \<or> (\<exists>i f. update_environment i f c = Inr c')"
    by (auto simp: request_dedicated_upgrade_def Let_def split: if_splits)
  then show ?thesis by (auto simp: update_environment_def intro!: spares_same split: if_splits)
next
  case (Complete_provision now i host dsn)
  then show ?thesis by (auto simp: complete_dedicated_provision_def update_environment_def intro!: spares_same split: if_splits)
next
  case (Fail_provision now i msg)
  then show ?thesis by (auto simp: fail_dedicated_provision_def update_environment_def intro!: spares_same split: if_splits)
next
  case (Tenant_status now slug status actor reason)
  then show ?thesis by (auto simp: set_tenant_status_def Let_def intro!: spares_same)
next
  case (Environment_status raw now tenant env status actor reason)
  then show ?thesis by (auto simp: set_environment_status_def Let_def intro!: spares_same dest!: spares_restate)
next
  case (Token_status now i status actor reason)
  then have "cp_tokens c' = update_rows (\<lambda>x. tk_id x = i) (\<lambda>x. x\<lparr>tk_status := status, tk_changed_at := Some now,
      tk_changed_by := trim_space actor, tk_reason := trim_space reason\<rparr>) (cp_tokens c)" "cp_next c' = cp_next c"
    by (auto simp: set_token_status_def Let_def)
  then show ?thesis by (rule spares_update) simp
next
  case (Delete_environment raw now states tenant env actor reason)
  then show ?thesis
  proof (rule delete_environment_cases)
    fix v by' why
    assume "c' = c\<lparr>cp_tokens := update_rows (\<lambda>k. tk_env k = nv_id v \<and> tk_status k \<noteq> ''archived'')
          (\<lambda>k. k\<lparr>tk_status := ''archived'', tk_changed_at := Some now, tk_changed_by := by', tk_reason := why\<rparr>) (cp_tokens c),
        cp_environments := update_rows (\<lambda>x. nv_id x = nv_id v) (\<lambda>x. x\<lparr>nv_status := ''archived'',
          nv_slug := archived_label_name raw (trim_space env), nv_changed_at := Some now, nv_changed_by := by', nv_reason := why\<rparr>)
          (cp_environments c),
        cp_events := cp_events c @ [\<lparr>ve_kind = ''environment_lifecycle_update'', ve_tenant = nv_tenant v, ve_actor = by'\<rparr>]\<rparr>"
    then have "cp_tokens c' = update_rows (\<lambda>k. tk_env k = nv_id v \<and> tk_status k \<noteq> ''archived'')
        (\<lambda>k. k\<lparr>tk_status := ''archived'', tk_changed_at := Some now, tk_changed_by := by', tk_reason := why\<rparr>) (cp_tokens c)"
      "cp_next c' = cp_next c" by simp_all
    then show ?thesis by (rule spares_update) simp
  qed
next
  case (Delete_tenant now slug actor reason)
  then show ?thesis by (auto simp: delete_tenant_def Let_def intro!: spares_same)
next
  case (Purge states slug older)
  then show ?thesis by (auto simp: purge_archived_tenant_def Let_def spares_def)
next
  case (Authenticate po now secret tenant st)
  have touch: "spares c (touch_tokens now h c)" for h
    by (rule spares_update[where f = "\<lambda>k. k\<lparr>tk_last_used_at := Some now\<rparr>"
        and P = "\<lambda>k. tk_hash k = h \<and> tk_revoked_at k = None"]) (simp_all add: touch_tokens_def)
  have "c' = fst (authenticate_api_token H now secret tenant c)" using Authenticate by (simp add: authenticate_backend_token_fst)
  then show ?thesis using touch by (auto simp: authenticate_api_token_def Let_def split: option.splits)
next
  case (Revoke_token now i)
  then have "cp_tokens c' = update_rows (\<lambda>k. tk_id k = i \<and> tk_revoked_at k = None) (\<lambda>k. k\<lparr>tk_revoked_at := Some now\<rparr>) (cp_tokens c)"
    "cp_next c' = cp_next c" by (auto simp: revoke_api_token_def)
  then show ?thesis by (rule spares_update) simp
next
  case (Grant_by_name tpick now tenant env name role by')
  then show ?thesis by (auto simp: ensure_api_token_role_by_name_def Let_def split: list.splits dest: spares_ensure_role)
next
  case (Revoke_grant now i by')
  then show ?thesis by (auto simp: revoke_principal_role_def Let_def intro!: spares_same)
qed (auto intro: spares_create_tenant spares_ensure_default spares_create_api_token spares_delete_token spares_ensure_role spares_operator_token)

lemma served_run_spares: "(served_step H)\<^sup>*\<^sup>* c c' \<Longrightarrow> spares c c'"
  by (induction rule: rtranclp_induct) (auto intro: spares_trans served_step_spares)

end
