(* ===== verification/ControlClaims.thy ===== *)
theory ControlClaims
  imports ControlSafety
begin

text \<open>
  Revocation, deletion, retention and the scope of grants in runs of the control plane, with the runs that show the
  hypotheses can hold and the places where the code does less than it seems to.
\<close>

section \<open>A revoked token\<close>

definition dead_token :: "string \<Rightarrow> control \<Rightarrow> bool" where
  "dead_token i c \<longleftrightarrow> id_below (cp_next c) i \<and> (\<forall>k \<in> set (cp_tokens c). tk_id k = i \<longrightarrow> tk_revoked_at k \<noteq> None)"

lemma dead_token_spared:
  assumes "dead_token i c" and "spares c c'"
  shows "dead_token i c'"
proof -
  obtain m where m: "m < cp_next c" "i = show_nat m" using assms(1) by (auto simp: dead_token_def id_below_def)
  have late: "i \<noteq> show_nat n" if "cp_next c \<le> n" for n using m that by (metis digits_val_show_nat not_le)
  have "id_below (cp_next c') i" unfolding id_below_def using m assms(2) by (intro exI[of _ m]) (simp add: spares_def)
  moreover have "tk_revoked_at k \<noteq> None" if k: "k \<in> set (cp_tokens c')" "tk_id k = i" for k
  proof
    assume "tk_revoked_at k = None"
    then consider k0 where "k0 \<in> set (cp_tokens c)" "tk_id k0 = i" "tk_revoked_at k0 = None" | n where "cp_next c \<le> n" "i = show_nat n"
      using assms(2) k unfolding spares_def by blast
    then show False using assms(1) late by cases (auto simp: dead_token_def)
  qed
  ultimately show ?thesis by (simp add: dead_token_def)
qed

lemma revoked_token_dead:
  assumes "control_ok c" and "revoke_api_token now i c = Inr c'"
  shows "dead_token i c'"
proof -
  obtain k where k: "one_row_of TokenNotFound (\<lambda>k. tk_id k = i \<and> tk_revoked_at k = None) (cp_tokens c) = Inr k"
    using assms(2) by (auto simp: revoke_api_token_def)
  then have c': "c' = c\<lparr>cp_tokens := update_rows (\<lambda>k. tk_id k = i \<and> tk_revoked_at k = None) (\<lambda>k. k\<lparr>tk_revoked_at := Some now\<rparr>) (cp_tokens c)\<rparr>"
    using assms(2) by (simp add: revoke_api_token_def)
  have "id_below (cp_next c) i" using assms(1) one_row_of_Inr[OF k] by (auto simp: control_ok_def tokens_ok_def)
  moreover have "tk_revoked_at x \<noteq> None" if x: "x \<in> set (cp_tokens c')" "tk_id x = i" for x
  proof -
    have "x \<in> set (update_rows (\<lambda>k. tk_id k = i \<and> tk_revoked_at k = None) (\<lambda>k. k\<lparr>tk_revoked_at := Some now\<rparr>) (cp_tokens c))"
      using x(1) by (simp add: c')
    from in_update_rows[OF this] obtain y where
      "x = (if tk_id y = i \<and> tk_revoked_at y = None then y\<lparr>tk_revoked_at := Some now\<rparr> else y)" by blast
    then show ?thesis using x(2) by (cases "tk_id y = i \<and> tk_revoked_at y = None") auto
  qed
  ultimately show ?thesis by (simp add: dead_token_def c')
qed

lemma authorize_control_token_live:
  assumes "control_ok c" and "authorize_control_token H c secret permission = (Some p, b)"
  shows "\<exists>k \<in> set (cp_tokens c). tk_id k = ap_user p \<and> tk_revoked_at k = None"
proof -
  obtain k t v where f: "find (control_token (H (trim_space secret))) (joined_tokens c) = Some (k, t, v)"
    and p: "p = control_principal_of (k, t, v)"
    using assms(2) by (auto simp: authorize_control_token_def Let_def split: if_splits option.splits)
  have "(k, t, v) \<in> set (joined_tokens c)" "control_token (H (trim_space secret)) (k, t, v)"
    using f by (auto simp: find_Some_iff in_set_conv_nth)
  then show ?thesis
    by (auto simp: p control_principal_of_def principal_of_def control_token_def joined_tokens_iff[OF assms(1)])
qed


section \<open>A deleted environment\<close>

lemma deleted_environment_rows:
  assumes ok: "control_ok c" and v: "v \<in> set (cp_environments c)"
    and c': "c' = c\<lparr>cp_tokens := update_rows (\<lambda>k. tk_env k = nv_id v \<and> tk_status k \<noteq> ''archived'') f (cp_tokens c),
        cp_environments := update_rows (\<lambda>x. nv_id x = nv_id v) g (cp_environments c), cp_events := es\<rparr>"
    and other: "nv_id w \<noteq> nv_id v" and ok': "control_ok c'"
    and f: "\<And>k. tk_env (f k) = tk_env k" and g: "\<And>x. nv_id (g x) = nv_id x"
  shows "(k, t, w) \<in> set (joined_tokens c') \<longleftrightarrow> (k, t, w) \<in> set (joined_tokens c)"
proof -
  have "k \<in> set (cp_tokens c') \<longleftrightarrow> k \<in> set (cp_tokens c)" if "tk_env k = nv_id w"
  proof
    assume "k \<in> set (cp_tokens c')"
    then obtain x where "x \<in> set (cp_tokens c)" "k = (if tk_env x = nv_id v \<and> tk_status x \<noteq> ''archived'' then f x else x)"
      by (auto simp: c' set_update_rows)
    then show "k \<in> set (cp_tokens c)" using that other f[of x] by (auto split: if_splits)
  next
    assume "k \<in> set (cp_tokens c)"
    then show "k \<in> set (cp_tokens c')" using that other by (force simp: c' set_update_rows)
  qed
  moreover have "w \<in> set (cp_environments c') \<longleftrightarrow> w \<in> set (cp_environments c)"
  proof
    assume "w \<in> set (cp_environments c')"
    then obtain x where "x \<in> set (cp_environments c)" "w = (if nv_id x = nv_id v then g x else x)"
      by (auto simp: c' set_update_rows)
    then show "w \<in> set (cp_environments c)" using other g[of x] by (auto split: if_splits)
  next
    assume "w \<in> set (cp_environments c)"
    then show "w \<in> set (cp_environments c')" using other by (force simp: c' set_update_rows)
  qed
  ultimately show ?thesis unfolding joined_tokens_iff[OF ok] joined_tokens_iff[OF ok'] by (auto simp: c')
qed

text \<open>C18: Deleting an environment ends exactly the access to it: it held no active state, no secret is accepted for it any more,
  and for every other environment the same secrets are accepted as before, as the same principals.\<close>

theorem deleted_environment_access:
  assumes "control_reachable H c" and "delete_environment raw now states tenant env actor reason c = Inr c'"
  shows "\<exists>v \<in> set (cp_environments c). environment_named c (trim_space tenant) (trim_space env) v \<and>
    (\<exists>t \<in> set (cp_tenants c). te_id t = nv_tenant v \<and> active_states states t v = 0) \<and>
    (\<forall>later secret hint p. snd (authenticate_api_token H later secret hint c') = Inr p \<longleftrightarrow>
       snd (authenticate_api_token H later secret hint c) = Inr p \<and> ap_env p \<noteq> nv_id v)"
proof -
  note ok = reachable_ok[OF assms(1)]
  have ok': "control_ok c'" by (rule delete_environment_ok[OF ok assms(2)])
  obtain v t by' why where v: "v \<in> set (cp_environments c)" "environment_named c (trim_space tenant) (trim_space env) v"
    and t: "t \<in> set (cp_tenants c)" "te_id t = nv_tenant v" "active_states states t v = 0"
    and c': "c' = c\<lparr>cp_tokens := update_rows (\<lambda>k. tk_env k = nv_id v \<and> tk_status k \<noteq> ''archived'')
          (\<lambda>k. k\<lparr>tk_status := ''archived'', tk_changed_at := Some now, tk_changed_by := by', tk_reason := why\<rparr>) (cp_tokens c),
        cp_environments := update_rows (\<lambda>x. nv_id x = nv_id v) (\<lambda>x. x\<lparr>nv_status := ''archived'',
          nv_slug := archived_label_name raw (trim_space env), nv_changed_at := Some now, nv_changed_by := by', nv_reason := why\<rparr>)
          (cp_environments c),
        cp_events := cp_events c @ [\<lparr>ve_kind = ''environment_lifecycle_update'', ve_tenant = nv_tenant v, ve_actor = by'\<rparr>]\<rparr>"
    by (rule delete_environment_cases[OF assms(2)])
  have same: "(k, t, w) \<in> set (joined_tokens c') \<longleftrightarrow> (k, t, w) \<in> set (joined_tokens c)" if "nv_id w \<noteq> nv_id v" for k t w
    by (rule deleted_environment_rows[OF ok v(1) c' that ok']) simp_all
  have gone: "\<not> token_accepted h hint (k, t', w)" if "(k, t', w) \<in> set (joined_tokens c')" "nv_id w = nv_id v" for h hint k t' w
  proof -
    have "w \<in> set (cp_environments c')" using that(1) by (simp add: joined_tokens_iff[OF ok'])
    then obtain y where "w = (if nv_id y = nv_id v then y\<lparr>nv_status := ''archived'', nv_slug := archived_label_name raw (trim_space env),
        nv_changed_at := Some now, nv_changed_by := by', nv_reason := why\<rparr> else y)"
      using in_update_rows by (fastforce simp: c')
    then have "nv_status w = ''archived''" using that(2) by (cases "nv_id y = nv_id v") simp_all
    then show ?thesis by (simp add: token_accepted_def)
  qed
  have only: "nv_id w \<noteq> nv_id v" if "(k, t', w) \<in> set (joined_tokens c')" "token_accepted h hint (k, t', w)" for h hint k t' w
    using gone that by blast
  have "snd (authenticate_api_token H later secret hint c') = Inr p \<longleftrightarrow>
       snd (authenticate_api_token H later secret hint c) = Inr p \<and> ap_env p \<noteq> nv_id v" for later secret hint p
  proof -
    have env: "ap_env (principal_of t' w u e s) = nv_id w" for t' w u e s by (simp add: principal_of_def)
    let ?A = "\<lambda>d k t' w. (k, t', w) \<in> set (joined_tokens d) \<and> token_accepted (H (trim_space secret)) hint (k, t', w) \<and>
      p = principal_of t' w [] (te_slug t' @ ''/'' @ nv_slug w @ ''/'' @ tk_name k) ''http-api-token''"
    have "?A c' k t' w \<longleftrightarrow> ?A c k t' w \<and> ap_env p \<noteq> nv_id v" for k t' w
    proof (cases "nv_id w = nv_id v")
      case True
      then show ?thesis using only[of k t' w] env by metis
    next
      case False
      then show ?thesis using same[of w k t'] env by metis
    qed
    then show ?thesis unfolding authenticate_api_token_iff[OF ok] authenticate_api_token_iff[OF ok'] by (simp only:) blast
  qed
  then show ?thesis using v t by blast
qed

section \<open>Retention\<close>

text \<open>C19: PurgeArchivedTenant never removes a tenant: every archived tenant has an audit event, and the event refers to its row.\<close>

theorem purge_never_succeeds:
  assumes "control_reachable H c"
  shows "isl (purge_archived_tenant states slug older c)"
proof (rule ccontr)
  assume "\<not> isl (purge_archived_tenant states slug older c)"
  then obtain c' where "purge_archived_tenant states slug older c = Inr c'" by (metis isl_def sum.exhaust)
  then obtain t where t: "one_row_of NoRows (\<lambda>t. te_slug t = trim_space slug \<and> archived_before older t) (cp_tenants c) = Inr t"
    and "te_id t \<notin> ve_tenant ` set (cp_events c)"
    by (auto simp: purge_archived_tenant_def Let_def)
  moreover have "te_id t \<in> ve_tenant ` set (cp_events c)"
    using reachable_ok[OF assms] one_row_of_Inr[OF t] by (auto simp: control_ok_def events_ok_def archived_before_def)
  ultimately show False by blast
qed

section \<open>The scope of grants\<close>

definition granted_only_in :: "control \<Rightarrow> string \<Rightarrow> string \<Rightarrow> bool" where
  "granted_only_in c subject tenant \<longleftrightarrow> (\<forall>g \<in> set (cp_grants c).
     gr_subject_kind g = ''api_token'' \<and> gr_subject g = subject \<and> gr_revoked_at g = None \<longrightarrow>
       gr_scope_kind g = ''tenant'' \<and> gr_scope_ref g = tenant \<or>
       gr_scope_kind g = ''environment'' \<and> (\<exists>env. gr_scope_ref g = tenant @ ''/'' @ env))"

lemma before_slash: "CHR ''/'' \<notin> set a \<Longrightarrow> CHR ''/'' \<notin> set b \<Longrightarrow> a @ ''/'' @ x = b @ ''/'' @ y \<Longrightarrow> a = b"
proof -
  have "takeWhile (\<lambda>ch. ch \<noteq> CHR ''/'') (a @ ''/'' @ x) = a" if "CHR ''/'' \<notin> set a" for a x :: string
    using that by (induction a) auto
  then show "CHR ''/'' \<notin> set a \<Longrightarrow> CHR ''/'' \<notin> set b \<Longrightarrow> a @ ''/'' @ x = b @ ''/'' @ y \<Longrightarrow> a = b" by metis
qed

text \<open>C17: A token all of whose grants are for one tenant is authorised for routes of that tenant only, when the slugs of
  tenants have no slash.\<close>

theorem grants_stay_in_tenant:
  assumes "granted_only_in c (ap_user p) tenant" and "CHR ''/'' \<notin> set tenant" and "CHR ''/'' \<notin> set target"
    and "authorize_principal_scope c p permission target env"
  shows "trim_space target = tenant"
proof -
  have slash: "CHR ''/'' \<notin> set (trim_space target)"
    using assms(3) by (auto simp: trim_space_def trim_left_def dest!: set_dropWhileD)
  have env: "trim_space target = tenant"
    if "g \<in> set (cp_grants c)" "gr_subject_kind g = ''api_token''" "gr_subject g = ap_user p" "gr_revoked_at g = None"
      "covers_environment (trim_space target) e g" for g e
  proof -
    note g = that
    consider "gr_scope_kind g = ''tenant''" "gr_scope_ref g = tenant" |
        e' where "gr_scope_kind g = ''environment''" "gr_scope_ref g = tenant @ ''/'' @ e'"
      using assms(1) g(1,2,3,4) unfolding granted_only_in_def by blast
    then show ?thesis
    proof cases
      case 1
      then show ?thesis using g(5) by (simp add: covers_environment_def)
    next
      case 2
      then have "tenant @ ''/'' @ e' = trim_space target @ ''/'' @ e" using g(5) by (simp add: covers_environment_def)
      then show ?thesis using before_slash[OF assms(2) slash] by blast
    qed
  qed
  moreover have "covers_global g \<Longrightarrow> covers_environment a b g" "covers_tenant a g \<Longrightarrow> covers_environment a b g" for g a b
    by (auto simp: covers_global_def covers_tenant_def covers_environment_def)
  ultimately show ?thesis
    using assms(4) unfolding authorize_principal_scope_def holds_grant_def Let_def by (auto split: if_splits intro: env)
qed

text \<open>The verdict of \<open>AuthorizeControlAPIToken\<close> is the one for the token's own tenant and environment.\<close>

lemma authorize_paths_agree:
  assumes "authorize_control_token H c secret permission = (Some p, b)"
    and "trim_space (ap_user p) \<noteq> []" and "trim_space (ap_tenant_slug p) = ap_tenant_slug p" and "trim_space (ap_env_slug p) = ap_env_slug p"
    and "ap_tenant_slug p \<notin> {[], ''*''}" and "ap_env_slug p \<noteq> []"
  shows "b = authorize_principal_scope c p permission (ap_tenant_slug p) (ap_env_slug p)"
  using assms
  by (auto simp: authorize_control_token_def authorize_principal_scope_def control_principal_of_def principal_of_def Let_def
      split: if_splits option.splits)

section \<open>The tables in every run\<close>

text \<open>C20: In every run of the control plane identifiers, slugs, workspace names, public names, token names and the hashes of unrevoked
  tokens stay unique, every reference points at a row, and every archived tenant has an event.\<close>

theorem control_tables_kept:
  assumes "control_reachable H c"
  shows "control_ok c"
  by (rule reachable_ok[OF assms])

end
