(* ===== verification/ControlExamples.thy ===== *)
theory ControlExamples
  imports ControlClaims
begin

text \<open>
  A run of the control plane with a token, its revocation, a deleted environment and an archived tenant, where the hypotheses
  of the properties hold, and runs that show what the code does not prevent.
\<close>

section \<open>A run\<close>

definition ex_hash :: "string \<Rightarrow> string" where
  "ex_hash s = ''h'' @ s"

definition ex_control :: control where
  "ex_control = initial_control [(''viewer'', [''tenant.read''])] ''env_0''"

definition ex_created :: "control \<times> (control_error, api_token) result" where
  "ex_created = create_api_token ex_hash (\<lambda>xs. xs) ''env_1'' 1 ''s3cret'' ''s3'' ''self-hosted'' [] ''ci'' ex_control"

definition ex_with_token :: control where
  "ex_with_token = fst ex_created"

definition ex_token :: api_token where
  "ex_token = projr (snd ex_created)"

definition ex_revoked :: control where
  "ex_revoked = projr (revoke_api_token 2 ''2'' ex_with_token)"

definition ex_deleted :: control where
  "ex_deleted = projr (delete_environment (Some (0, 1, 255)) 3 [] ''self-hosted'' ''default'' ''ann'' [] ex_with_token)"

definition ex_acme :: control where
  "ex_acme = fst (create_tenant (\<lambda>n. ''ws_x'') (\<lambda>n. ''ws_1'') ''env_2'' False ''acme'' [] ex_control)"

definition ex_archived :: control where
  "ex_archived = projr (delete_tenant 4 ''acme'' ''ann'' [] ex_acme)"

definition ex_granted :: control where
  "ex_granted = projr (ensure_principal_role 5 ''api_token'' ''2'' ''viewer'' ''tenant'' ''self-hosted'' ''ann'' ex_with_token)"

definition ex_principal_of :: "control \<Rightarrow> access_principal" where
  "ex_principal_of c = the (fst (authorize_control_token ex_hash c ''s3cret'' ''tenant.read''))"

lemma ex_created_ok: "\<not> isl (snd ex_created)"
  by code_simp

lemma ex_created_eq: "create_api_token ex_hash (\<lambda>xs. xs) ''env_1'' 1 ''s3cret'' ''s3'' ''self-hosted'' [] ''ci'' ex_control
    = (ex_with_token, Inr ex_token)"
proof -
  have "ex_created = (fst ex_created, snd ex_created)" by simp
  also have "snd ex_created = Inr ex_token" unfolding ex_token_def by (rule not_isl_Inr[OF ex_created_ok])
  finally show ?thesis by (simp add: ex_with_token_def ex_created_def)
qed

lemma ex_revoked_eq: "revoke_api_token 2 ''2'' ex_with_token = Inr ex_revoked"
  unfolding ex_revoked_def by (rule not_isl_Inr) code_simp

lemma ex_deleted_eq: "delete_environment (Some (0, 1, 255)) 3 [] ''self-hosted'' ''default'' ''ann'' [] ex_with_token = Inr ex_deleted"
  unfolding ex_deleted_def by (rule not_isl_Inr) code_simp

lemma ex_archived_eq: "delete_tenant 4 ''acme'' ''ann'' [] ex_acme = Inr ex_archived"
  unfolding ex_archived_def by (rule not_isl_Inr) code_simp

lemma ex_granted_eq: "ensure_principal_role 5 ''api_token'' ''2'' ''viewer'' ''tenant'' ''self-hosted'' ''ann'' ex_with_token = Inr ex_granted"
  unfolding ex_granted_def by (rule not_isl_Inr) code_simp

lemma ex_reach: "control_reachable ex_hash ex_control"
  unfolding control_reachable_def ex_control_def by blast

lemma reach_step: "control_reachable H c \<Longrightarrow> served_step H c c' \<Longrightarrow> control_reachable H c'"
  unfolding control_reachable_def by (meson Served rtranclp.rtrancl_into_rtrancl)

lemma ex_reach_token: "control_reachable ex_hash ex_with_token"
  unfolding ex_with_token_def ex_created_def by (rule reach_step[OF ex_reach Create_token])

lemma ex_reach_archived: "control_reachable ex_hash ex_archived"
proof -
  have "control_reachable ex_hash ex_acme" unfolding ex_acme_def by (rule reach_step[OF ex_reach Create_tenant])
  then show ?thesis by (rule reach_step) (rule Delete_tenant[OF ex_archived_eq])
qed

lemma ex_reach_granted: "control_reachable ex_hash ex_granted"
  by (rule reach_step[OF ex_reach_token]) (rule Grant[OF ex_granted_eq])

section \<open>The properties on the run\<close>

theorem control_tables_kept_witness: "control_ok ex_archived \<and> length (cp_tenants ex_archived) = 2"
proof -
  have "length (cp_tenants ex_archived) = 2" by code_simp
  then show ?thesis using control_tables_kept[OF ex_reach_archived] by simp
qed

theorem created_token_accepted_witness:
  "\<exists>t v. te_id t = tk_tenant ex_token \<and> snd (authenticate_api_token ex_hash 9 ''s3cret'' [] ex_with_token) =
     Inr (principal_of t v [] (te_slug t @ ''/'' @ nv_slug v @ ''/'' @ tk_name ex_token) ''http-api-token'')"
proof -
  have "trim_space ''s3cret'' = ''s3cret''" by code_simp
  then show ?thesis
    using created_token_accepted[OF ex_reach _ ex_created_eq, of 9 "[]"] by auto
qed


theorem deleted_environment_access_witness:
  "(\<exists>v \<in> set (cp_environments ex_with_token). environment_named ex_with_token (trim_space ''self-hosted'') (trim_space ''default'') v) \<and>
   isl (snd (authenticate_api_token ex_hash 9 ''s3cret'' [] ex_deleted)) \<and>
   \<not> isl (snd (authenticate_api_token ex_hash 9 ''s3cret'' [] ex_with_token))"
proof -
  have "isl (snd (authenticate_api_token ex_hash 9 ''s3cret'' [] ex_deleted))"
    "\<not> isl (snd (authenticate_api_token ex_hash 9 ''s3cret'' [] ex_with_token))" by code_simp+
  then show ?thesis using deleted_environment_access[OF ex_reach_token ex_deleted_eq] by blast
qed

theorem purge_never_succeeds_witness:
  "isl (purge_archived_tenant [] ''acme'' 100 ex_archived) \<and> map pc_slug (list_purge_candidates ex_archived 100 []) = [''acme'']"
proof -
  have "map pc_slug (list_purge_candidates ex_archived 100 []) = [''acme'']" by code_simp
  then show ?thesis using purge_never_succeeds[OF ex_reach_archived] by blast
qed

lemma ex_granted_only: "granted_only_in ex_granted (ap_user (ex_principal_of ex_granted)) ''self-hosted''"
proof -
  have "map (\<lambda>g. (gr_scope_kind g, gr_scope_ref g)) (cp_grants ex_granted) = [(''tenant'', ''self-hosted'')]" by code_simp
  then show ?thesis unfolding granted_only_in_def by (auto simp: map_eq_Cons_conv)
qed

theorem grants_stay_in_tenant_witness:
  "authorize_principal_scope ex_granted (ex_principal_of ex_granted) ''tenant.read'' '' self-hosted'' [] \<and> trim_space '' self-hosted'' = ''self-hosted''"
proof -
  have a: "authorize_principal_scope ex_granted (ex_principal_of ex_granted) ''tenant.read'' '' self-hosted'' []" by code_simp
  show ?thesis using a grants_stay_in_tenant[OF ex_granted_only _ _ a] by simp
qed

section \<open>What the code does not prevent\<close>

text \<open>Renaming without a reason always fails: the reason becomes \<^verbatim>\<open>NULL\<close> in a \<^verbatim>\<open>NOT NULL\<close> column.\<close>

lemma rename_needs_reason: "trim_space reason = [] \<Longrightarrow> isl (rename_environment now tenant current new actor reason c)"
  by (cases "rename_environment now tenant current new actor reason c") (auto simp: rename_environment_def Let_def)

text \<open>A role is granted to nobody but a token: the audit event of another subject names no tenant.\<close>

lemma grant_to_account_fails:
  assumes "control_ok c" and "trim_space kind \<noteq> ''api_token''" and "ensure_principal_role now kind subject role scope ref by' c = Inr c'"
  shows "c' = c"
proof -
  have "[] \<notin> tenant_ids c"
  proof
    assume "[] \<in> tenant_ids c"
    then have "id_below (cp_next c) []" using assms(1) by (auto simp: control_ok_def tenants_ok_def)
    then show False using show_nat_digits by (metis id_below_def)
  qed
  then show ?thesis using assms(2,3) by (auto simp: ensure_principal_role_def subject_tenant_def Let_def split: if_splits)
qed

text \<open>A role that does not exist is no error, and no grant.\<close>

lemma unknown_role_granted:
  "trim_space kind \<noteq> [] \<Longrightarrow> trim_space subject \<noteq> [] \<Longrightarrow> trim_space role \<noteq> [] \<Longrightarrow> trim_space role \<notin> fst ` set (cp_roles c) \<Longrightarrow>
   ensure_principal_role now kind subject role scope ref by' c = Inr c"
  by (simp add: ensure_principal_role_def Let_def)

text \<open>The token of a suspended tenant is refused by the backend and still authorised by the control plane.\<close>

definition ex_suspended :: control where
  "ex_suspended = projr (set_tenant_status 6 ''self-hosted'' ''suspended'' ''ann'' ''unpaid'' ex_granted)"

lemma suspended_tenant_authorized:
  "isl (snd (authenticate_api_token ex_hash 9 ''s3cret'' [] ex_suspended))"
  "snd (authorize_control_token ex_hash ex_suspended ''s3cret'' ''tenant.read'')"
  by code_simp+

text \<open>The first-run setup revives a revoked token.\<close>

lemma bootstrap_revives:
  "map tk_revoked_at (cp_tokens ex_revoked) = [Some 2]"
  "map tk_revoked_at (cp_tokens (fst (bootstrap_tenant_token ex_hash (\<lambda>n. []) (\<lambda>n. []) [] 7 ''self-hosted'' [] ''ci'' ''s3cret'' ex_revoked))) = [None]"
  by code_simp+

text \<open>A tenant whose slug is the workspace name of another: the token gets the tenant of one and the environment of the other.\<close>

definition ex_two :: control where
  "ex_two = fst (create_tenant (\<lambda>n. []) (\<lambda>n. ''ws_2'') ''env_b'' True ''ws_1'' []
     (fst (create_tenant (\<lambda>n. []) (\<lambda>n. ''ws_1'') ''env_a'' True ''acme'' [] ex_control)))"

definition ex_mixed :: "control \<times> (control_error, api_token) result" where
  "ex_mixed = create_api_token ex_hash rev ''env_c'' 1 ''s3cret'' ''s3'' ''ws_1'' [] ''ci'' ex_two"

lemma token_of_two_tenants:
  "\<not> isl (snd ex_mixed)"
  "map (\<lambda>(k, t, v). (te_slug t, tenant_slug_of (fst ex_mixed) v)) (joined_tokens (fst ex_mixed)) = [(''acme'', ''ws_1'')]"
  by code_simp+

text \<open>A grant for the environment \<open>b/c\<close> of the tenant \<open>a\<close> is one for the environment \<open>c\<close> of the tenant \<open>a/b\<close>.\<close>

lemma slash_in_slug:
  "covers_environment ''a/b'' ''c'' \<lparr>gr_id = [], gr_subject_kind = ''api_token'', gr_subject = [], gr_role = [],
     gr_scope_kind = ''environment'', gr_scope_ref = ''a'' @ ''/'' @ ''b/c'', gr_granted_by = [], gr_granted_at = 0, gr_revoked_at = None\<rparr>"
  by (simp add: covers_environment_def)

end
