(* ===== verification/HttpBackend.thy ===== *)
theory HttpBackend
  imports StoreHistory ControlClaims
begin

text \<open>
  The Terraform HTTP backend (\<^verbatim>\<open>internal/backend/server.go\<close>): authentication of a request (\<^verbatim>\<open>pkg/auth\<close>: credentials.go,
  database_token.go, static_token.go), the check of the path against the principal, and the five methods of a state with the
  status of every outcome. The control plane gives the principal, the store does the work.

  What the standard library decodes (JSON, Basic credentials) is an argument, \<open>codec\<close>; \<open>up\<close> says whether the store of the
  environment can be reached, and a store that answers does not fail with a network error.
\<close>

section \<open>Requests\<close>

record http_request =
  rq_method :: string
  rq_path :: string
  rq_name :: string
  rq_query_id :: string
  rq_query_state_name :: string
  rq_query_name :: string
  rq_header_state_name :: string
  rq_authorization :: string
  rq_user_agent :: string
  rq_body :: string

record codec =
  cd_valid :: "string \<Rightarrow> bool"
  cd_state :: "string \<Rightarrow> tf_state option"
  cd_lock :: "string \<Rightarrow> lock_info option"
  cd_text :: "string \<Rightarrow> string option"
  cd_basic :: "string \<Rightarrow> (string \<times> string) option"

datatype reply_body =
    NoBody
  | ErrorBody string
  | StateBody tf_state
  | LockBody lock_info
  | ConflictBody "string list" int

record http_reply =
  rp_status :: nat
  rp_body :: reply_body

definition reply :: "nat \<Rightarrow> reply_body \<Rightarrow> http_reply" where
  "reply status body = \<lparr>rp_status = status, rp_body = body\<rparr>"

definition error_reply :: "nat \<Rightarrow> string \<Rightarrow> http_reply" where
  "error_reply status msg = reply status (ErrorBody msg)"

section \<open>Credentials\<close>

text \<open>Secret and tenant hint. A Basic password that is empty is no credential.\<close>

definition extract_credentials :: "codec \<Rightarrow> http_request \<Rightarrow> (string \<times> string) option" where
  "extract_credentials cd r =
     (let h = trim_space (rq_authorization r); lower = to_lower h
      in if h = [] then None
         else if has_prefix lower ''bearer '' then
           (let t = trim_space (drop 7 h) in if t = [] then None else Some (t, []))
         else if has_prefix lower ''basic '' then
           (case cd_basic cd (rq_authorization r) of
              None \<Rightarrow> None
            | Some (user, pass) \<Rightarrow> if pass = [] then None else Some (pass, user))
         else None)"

definition state_name_from_request :: "http_request \<Rightarrow> string" where
  "state_name_from_request r =
     (if trim_space (rq_header_state_name r) \<noteq> [] then trim_space (rq_header_state_name r)
      else if trim_space (rq_query_state_name r) \<noteq> [] then trim_space (rq_query_state_name r)
      else if trim_space (rq_query_name r) \<noteq> [] then trim_space (rq_query_name r)
      else trim_space (trim_prefix ''/'' (trim_prefix ''portal/'' (trim_prefix ''state-unlock/'' (trim_prefix ''states/''
        (trim_prefix ''v1/'' (trim_prefix ''/'' (trim_space (rq_path r)))))))))"

datatype auth_mode = OpenMode | StaticMode string | DatabaseMode

definition self_hosted_principal :: "string \<Rightarrow> access_principal" where
  "self_hosted_principal source =
     \<lparr>ap_tenant = ''00000000-0000-0000-0000-000000000000'', ap_workspace = [], ap_env = [], ap_tenant_slug = [], ap_env_slug = [],
      ap_env_public = [], ap_lock_default = [], ap_instance_key = [], ap_tenant_status = [], ap_plan = [], ap_max_environments = 0,
      ap_max_state_resources = 0, ap_max_environment_resources = 0, ap_user = [], ap_email = [], ap_source = source\<rparr>"

definition authenticate_request ::
    "codec \<Rightarrow> (string \<Rightarrow> string) \<Rightarrow> auth_mode \<Rightarrow> portal_tables \<Rightarrow> nat \<Rightarrow> http_request \<Rightarrow> control \<Rightarrow>
     control \<times> (control_error, access_principal) result" where
  "authenticate_request cd H mode po now r c =
     (case mode of
        OpenMode \<Rightarrow> (c, Inr (self_hosted_principal ''http''))
      | StaticMode token \<Rightarrow>
          if trim_space token = [] then (c, Inr (self_hosted_principal ''http''))
          else (case extract_credentials cd r of
             None \<Rightarrow> (c, Inl Unauthenticated)
           | Some (secret, hint) \<Rightarrow>
               if secret = trim_space token then (c, Inr (self_hosted_principal ''http-token'')) else (c, Inl Unauthenticated))
      | DatabaseMode \<Rightarrow>
          (case extract_credentials cd r of
             None \<Rightarrow> (c, Inl Unauthenticated)
           | Some (secret, hint) \<Rightarrow> authenticate_backend_token H po now secret hint (state_name_from_request r) c))"

text \<open>What the store sees of the principal.\<close>

definition store_principal :: "access_principal \<Rightarrow> principal" where
  "store_principal p = \<lparr>pr_tenant = ap_tenant p, pr_workspace = ap_workspace p, pr_environment = ap_env_public p,
     pr_lock_default = ap_lock_default p\<rparr>"

definition validate_state_name :: "access_principal \<Rightarrow> string \<Rightarrow> bool" where
  "validate_state_name p name =
     (let ws = trim_space (ap_workspace p); env = trim_space (ap_env_public p)
      in if ws = [] \<or> env = [] then True
         else (case split_on (CHR ''/'') (trim_slashes (trim_space name)) of
            a # b # _ \<Rightarrow> trim_space a \<noteq> [] \<and> trim_space b \<noteq> [] \<and> a = ws \<and> b = env
          | _ \<Rightarrow> False))"

text \<open>The user of the Basic credentials, or the first word of the user agent.\<close>

definition actor_from_request :: "codec \<Rightarrow> http_request \<Rightarrow> string" where
  "actor_from_request cd r =
     (case cd_basic cd (rq_authorization r) of
        Some (user, pass) \<Rightarrow> if user \<noteq> [] then user
          else if rq_user_agent r \<noteq> [] then takeWhile (\<lambda>ch. ch \<noteq> CHR '' '') (rq_user_agent r) else ''unknown''
      | None \<Rightarrow> if rq_user_agent r \<noteq> [] then takeWhile (\<lambda>ch. ch \<noteq> CHR '' '') (rq_user_agent r) else ''unknown'')"

definition max_state_body :: int where
  "max_state_body = 512 * 1024 * 1024"

definition max_lock_body :: int where
  "max_lock_body = 64 * 1024"

section \<open>Methods\<close>

definition handle_get :: "access_principal \<Rightarrow> string \<Rightarrow> db \<Rightarrow> http_reply" where
  "handle_get p name d =
     (case get_current_state d (ap_tenant p) name of
        Inr st \<Rightarrow> reply 200 (StateBody st)
      | Inl StateNotFound \<Rightarrow> error_reply 404 ''not found''
      | Inl e \<Rightarrow> error_reply 500 ''internal error'')"

definition post_error :: "store_error \<Rightarrow> http_reply" where
  "post_error e =
     (case e of
        InvalidState \<Rightarrow> error_reply 400 ''invalid state''
      | SerialConflict \<Rightarrow> error_reply 409 ''state serial already stored; use a higher serial''
      | MergeFailed LineageMismatch \<Rightarrow> error_reply 409 ''state lineage mismatch''
      | MergeFailed (WriteSetConflict addresses serial) \<Rightarrow> reply 409 (ConflictBody addresses serial)
      | StateLocked \<Rightarrow> error_reply 423 ''state is locked; no lock id supplied''
      | LockMismatch \<Rightarrow> error_reply 409 ''lock id does not match current lock''
      | EntitlementExceeded a b \<Rightarrow> error_reply 403 ''entitlement exceeded''
      | StateNotActive s \<Rightarrow> error_reply 403 ''state not active''
      | TenantNotActive s \<Rightarrow> error_reply 403 ''tenant not active''
      | _ \<Rightarrow> error_reply 500 ''internal error'')"

definition handle_post ::
    "codec \<Rightarrow> (json \<Rightarrow> string) \<Rightarrow> (string \<Rightarrow> string) \<Rightarrow> (instance_map \<Rightarrow> instance_map) \<Rightarrow> access_principal \<Rightarrow> string \<Rightarrow> http_request \<Rightarrow> db \<Rightarrow>
     http_reply \<times> db" where
  "handle_post cd js sha iter p name r d =
     (if max_state_body < int (length (rq_body r)) then (error_reply 400 ''read body'', d)
      else if \<not> cd_valid cd (rq_body r) then (error_reply 400 ''state body must be valid JSON'', d)
      else (case write_state js sha iter (store_principal p) name (rq_query_id r) (cd_state cd (rq_body r)) ''http_backend''
              (actor_from_request cd r) d of
             Inr d' \<Rightarrow> (reply 200 NoBody, d') | Inl e \<Rightarrow> (post_error e, d)))"

definition delete_error :: "store_error \<Rightarrow> http_reply" where
  "delete_error e =
     (case e of
        StateNotFound \<Rightarrow> error_reply 404 ''not found''
      | StateLocked \<Rightarrow> error_reply 423 ''state is locked; no lock id supplied''
      | LockMismatch \<Rightarrow> error_reply 409 ''lock id does not match current lock''
      | TenantNotActive s \<Rightarrow> error_reply 403 ''tenant not active''
      | _ \<Rightarrow> error_reply 500 ''internal error'')"

definition handle_delete :: "codec \<Rightarrow> access_principal \<Rightarrow> string \<Rightarrow> http_request \<Rightarrow> db \<Rightarrow> http_reply \<times> db" where
  "handle_delete cd p name r d =
     (case delete_state (store_principal p) name (rq_query_id r) (actor_from_request cd r) d of
        Inr d' \<Rightarrow> (reply 200 NoBody, d') | Inl e \<Rightarrow> (delete_error e, d))"

definition handle_lock :: "codec \<Rightarrow> nat \<Rightarrow> access_principal \<Rightarrow> string \<Rightarrow> http_request \<Rightarrow> db \<Rightarrow> http_reply \<times> db" where
  "handle_lock cd now p name r d =
     (if max_lock_body < int (length (rq_body r)) then (error_reply 400 ''read body'', d)
      else (case cd_lock cd (rq_body r) of
         None \<Rightarrow> (error_reply 400 ''lock body must be valid JSON'', d)
       | Some info \<Rightarrow>
           if li_id info = [] then (error_reply 400 ''lock body must include ID'', d)
           else (case acquire_lock (store_principal p) name info now d of
              Inr d' \<Rightarrow> (reply 200 NoBody, d')
            | Inl (AlreadyLocked held) \<Rightarrow> (reply 423 (LockBody held), d)
            | Inl (TenantNotActive s) \<Rightarrow> (error_reply 403 ''tenant not active'', d)
            | Inl e \<Rightarrow> (error_reply 500 ''internal error'', d))))"

definition is_likely_lock_id :: "string \<Rightarrow> bool" where
  "is_likely_lock_id s \<longleftrightarrow> trim_space s \<noteq> [] \<and> length s \<le> 256 \<and>
     (\<forall>ch \<in> set s. CHR ''a'' \<le> ch \<and> ch \<le> CHR ''z'' \<or> CHR ''A'' \<le> ch \<and> ch \<le> CHR ''Z'' \<or> CHR ''0'' \<le> ch \<and> ch \<le> CHR ''9'' \<or>
        ch \<in> set ''-_:.@/+'')"

text \<open>The empty text for a lock means the release of whatever is held. A body that decodes and has no identifier asks for that too.\<close>

definition parse_unlock_request :: "codec \<Rightarrow> string \<Rightarrow> string \<Rightarrow> (bool \<times> string) option" where
  "parse_unlock_request cd body query =
     (let trimmed = trim_space body; q = trim_space query
      in if trimmed = [] then (if q \<noteq> [] then Some (False, q) else Some (True, []))
         else (case cd_lock cd trimmed of
            Some info \<Rightarrow> if trim_space (li_id info) = [] then Some (True, []) else Some (False, trim_space (li_id info))
          | None \<Rightarrow>
              (case cd_text cd trimmed of
                 Some s \<Rightarrow> if trim_space s = [] then Some (True, []) else Some (False, trim_space s)
               | None \<Rightarrow> if is_likely_lock_id trimmed then Some (False, trimmed)
                         else if q \<noteq> [] then Some (False, q) else None)))"

definition unlock_error :: "store_error \<Rightarrow> http_reply" where
  "unlock_error e =
     (case e of
        LockMismatch \<Rightarrow> error_reply 409 ''lock id does not match current lock''
      | TenantNotActive s \<Rightarrow> error_reply 403 ''tenant not active''
      | _ \<Rightarrow> error_reply 500 ''internal error'')"

definition force_unlock_error :: "store_error \<Rightarrow> http_reply" where
  "force_unlock_error e =
     (case e of TenantNotActive s \<Rightarrow> error_reply 403 ''tenant not active'' | _ \<Rightarrow> error_reply 500 ''internal error'')"

definition handle_unlock :: "codec \<Rightarrow> access_principal \<Rightarrow> string \<Rightarrow> http_request \<Rightarrow> db \<Rightarrow> http_reply \<times> db" where
  "handle_unlock cd p name r d =
     (if max_lock_body < int (length (rq_body r)) then (error_reply 400 ''read body'', d)
      else (case parse_unlock_request cd (rq_body r) (rq_query_id r) of
         None \<Rightarrow> (error_reply 400 ''unlock body must be valid JSON or a lock id string'', d)
       | Some (force, lock_id) \<Rightarrow>
           if force
           then (case force_release_lock (store_principal p) name (actor_from_request cd r) d of
                   Inr d' \<Rightarrow> (reply 200 NoBody, d') | Inl e \<Rightarrow> (force_unlock_error e, d))
           else (case release_lock (store_principal p) name lock_id (actor_from_request cd r) d of
                   Inr d' \<Rightarrow> (reply 200 NoBody, d') | Inl e \<Rightarrow> (unlock_error e, d))))"

section \<open>The state routes\<close>

definition state_method :: "codec \<Rightarrow> (json \<Rightarrow> string) \<Rightarrow> (string \<Rightarrow> string) \<Rightarrow> (instance_map \<Rightarrow> instance_map) \<Rightarrow> bool \<Rightarrow> nat \<Rightarrow> access_principal \<Rightarrow>
    http_request \<Rightarrow> db \<Rightarrow> http_reply \<times> db" where
  "state_method cd js sha iter up now p r d =
     (if rq_method r \<notin> {''GET'', ''POST'', ''DELETE'', ''LOCK'', ''UNLOCK''} then (error_reply 405 ''method not supported'', d)
      else if \<not> up then (error_reply 503 ''environment unavailable'', d)
      else if rq_method r = ''GET'' then (handle_get p (rq_name r) d, d)
      else if rq_method r = ''POST'' then handle_post cd js sha iter p (rq_name r) r d
      else if rq_method r = ''DELETE'' then handle_delete cd p (rq_name r) r d
      else if rq_method r = ''LOCK'' then handle_lock cd now p (rq_name r) r d
      else handle_unlock cd p (rq_name r) r d)"

definition handle_state :: "codec \<Rightarrow> (json \<Rightarrow> string) \<Rightarrow> (string \<Rightarrow> string) \<Rightarrow> (instance_map \<Rightarrow> instance_map) \<Rightarrow> bool \<Rightarrow> nat \<Rightarrow> access_principal \<Rightarrow>
    http_request \<Rightarrow> db \<Rightarrow> http_reply \<times> db" where
  "handle_state cd js sha iter up now p r d =
     (if rq_name r = [] then (error_reply 400 ''state name is required'', d)
      else if \<not> validate_state_name p (rq_name r) then (error_reply 403 ''wrong workspace or environment'', d)
      else state_method cd js sha iter up now p r d)"

definition handle_state_unlock_post :: "codec \<Rightarrow> bool \<Rightarrow> access_principal \<Rightarrow> http_request \<Rightarrow> db \<Rightarrow> http_reply \<times> db" where
  "handle_state_unlock_post cd up p r d =
     (if rq_name r = [] then (error_reply 400 ''state name is required'', d)
      else if \<not> validate_state_name p (rq_name r) then (error_reply 403 ''wrong workspace or environment'', d)
      else if rq_method r \<noteq> ''POST'' then (error_reply 405 ''method not supported'', d)
      else if \<not> up then (error_reply 503 ''environment unavailable'', d)
      else handle_unlock cd p (rq_name r) r d)"

datatype availability = Ready | NotReady | CheckFails

definition with_auth ::
    "codec \<Rightarrow> (string \<Rightarrow> string) \<Rightarrow> auth_mode \<Rightarrow> portal_tables \<Rightarrow> availability option \<Rightarrow> nat \<Rightarrow> http_request \<Rightarrow>
     (access_principal \<Rightarrow> db \<Rightarrow> http_reply \<times> db) \<Rightarrow> control \<Rightarrow> db \<Rightarrow> http_reply \<times> control \<times> db" where
  "with_auth cd H mode po ready now r handler c d =
     (case ready of
        Some CheckFails \<Rightarrow> (error_reply 503 ''service unavailable'', c, d)
      | Some NotReady \<Rightarrow> (error_reply 503 ''system is not initialized'', c, d)
      | _ \<Rightarrow>
          (case authenticate_request cd H mode po now r c of
             (c', Inl e) \<Rightarrow> (error_reply 401 ''unauthenticated'', c', d)
           | (c', Inr p) \<Rightarrow> (case handler p d of (rep, d') \<Rightarrow> (rep, c', d'))))"

definition serve_state ::
    "codec \<Rightarrow> (json \<Rightarrow> string) \<Rightarrow> (string \<Rightarrow> string) \<Rightarrow> (instance_map \<Rightarrow> instance_map) \<Rightarrow> (string \<Rightarrow> string) \<Rightarrow> auth_mode \<Rightarrow> portal_tables \<Rightarrow>
     availability option \<Rightarrow> bool \<Rightarrow> nat \<Rightarrow> http_request \<Rightarrow> control \<Rightarrow> db \<Rightarrow> http_reply \<times> control \<times> db" where
  "serve_state cd js sha iter H mode po ready up now r =
     with_auth cd H mode po ready now r (\<lambda>p. handle_state cd js sha iter up now p r)"

definition serve_state_unlock ::
    "codec \<Rightarrow> (string \<Rightarrow> string) \<Rightarrow> auth_mode \<Rightarrow> portal_tables \<Rightarrow> availability option \<Rightarrow> bool \<Rightarrow> nat \<Rightarrow> http_request \<Rightarrow> control \<Rightarrow> db \<Rightarrow>
     http_reply \<times> control \<times> db" where
  "serve_state_unlock cd H mode po ready up now r =
     with_auth cd H mode po ready now r (\<lambda>p. handle_state_unlock_post cd up p r)"


text \<open>The two routes of a state.\<close>

datatype http_route = StatesRoute | StateUnlockRoute

definition serve ::
    "http_route \<Rightarrow> codec \<Rightarrow> (json \<Rightarrow> string) \<Rightarrow> (string \<Rightarrow> string) \<Rightarrow> (instance_map \<Rightarrow> instance_map) \<Rightarrow> (string \<Rightarrow> string) \<Rightarrow> auth_mode \<Rightarrow>
     portal_tables \<Rightarrow> availability option \<Rightarrow> bool \<Rightarrow> nat \<Rightarrow> http_request \<Rightarrow> control \<Rightarrow> db \<Rightarrow> http_reply \<times> control \<times> db" where
  "serve route cd js sha iter H mode po ready up now r =
     (case route of
        StatesRoute \<Rightarrow> serve_state cd js sha iter H mode po ready up now r
      | StateUnlockRoute \<Rightarrow> serve_state_unlock cd H mode po ready up now r)"

section \<open>What an operation leaves alone\<close>

definition untouched :: "string \<Rightarrow> db \<Rightarrow> db \<Rightarrow> bool" where
  "untouched i d d' \<longleftrightarrow> state_by_id d' i = state_by_id d i \<and>
     filter (\<lambda>v. vr_state_id v = i) (db_versions d') = filter (\<lambda>v. vr_state_id v = i) (db_versions d) \<and>
     locks_of d' i = locks_of d i \<and> rows_of i (db_ledger d') = rows_of i (db_ledger d)"

lemma untouched_refl [simp]: "untouched i d d"
  by (simp add: untouched_def)

lemma untouched_trans: "untouched i d e \<Longrightarrow> untouched i e f \<Longrightarrow> untouched i d f"
  by (simp add: untouched_def)

lemma untouched_log_event [simp]: "untouched i d (log_event k t sid v a p e) \<longleftrightarrow> untouched i d e"
  by (simp add: untouched_def state_by_id_def locks_of_def log_event_def)

lemma untouched_update_state: "i \<noteq> sid \<Longrightarrow> same_keys f \<Longrightarrow> untouched i d (update_state sid f d)"
  by (simp add: untouched_def locks_of_def state_by_id_update option.map_ident)

lemma untouched_locks:
  assumes "db_states d' = db_states d" "db_versions d' = db_versions d" "db_ledger d' = db_ledger d" "locks_of d' i = locks_of d i"
  shows "untouched i d d'"
  using assms by (simp add: untouched_def state_by_id_def)

lemma untouched_upsert:
  assumes "upsert_state p name lineage creator d = Inr (sid, d')" and "i \<noteq> sid"
  shows "untouched i d d'"
  using assms(1)
proof (cases rule: upsert_state_cases)
  case (old r)
  then show ?thesis using untouched_update_state[OF assms(2)] by simp
next
  case (new r)
  then show ?thesis using assms(2)
    by (simp add: untouched_def state_by_id_def add_state_def locks_of_def find_snoc split: option.split)
qed

text \<open>The state that the upsert of a name returns is the tenant's state of that name, if it was there before.\<close>

lemma upsert_state_owner:
  assumes "upsert_state p name lineage creator d = Inr (sid, d')" and "db_ok d" and "sid \<in> state_ids d"
  shows "\<exists>r. state_by_id d sid = Some r \<and> sr_tenant r = pr_tenant p \<and> sr_name r = name"
  using assms(1)
proof (cases rule: upsert_state_cases)
  case (old r)
  then show ?thesis using state_by_id_mem[of d r] assms(2) by (auto simp: db_ok_def)
next
  case (new r)
  then show ?thesis using fresh_not_state[OF assms(2)] assms(3) by simp
qed

lemma write_state_internal_locks:
  assumes "write_state_internal js sha iter p name lock_id raw source actor bypass d0 = Inr d'"
    and "upsert_state p name (st_lineage parsed) (creator_of source) d0 = Inr (sid, d)" and "parse_state raw = Inr parsed"
    and "i \<noteq> sid"
  shows "locks_of d' i = locks_of d0 i"
proof -
  have "filter (\<lambda>l. lk_state_id l = i) (map (\<lambda>x. if lk_state_id x = sid \<and> li_id (lk_info x) = l then x\<lparr>lk_source_serial := s\<rparr> else x) xs)
      = filter (\<lambda>l. lk_state_id l = i) xs" for l s xs
    using assms(4) by (induction xs) auto
  then have adv: "locks_of (advance_lock sid l s e) i = locks_of e i" for l s e
    by (simp add: locks_of_def advance_lock_def)
  from assms(1-3) obtain stored vid d2 d3 where 4:
    "insert_version p sid (assign_serial d sid bypass stored) (st_terraform_version stored)
       (stored\<lparr>st_serial := assign_serial d sid bypass stored\<rparr>) source actor d = Inr (vid, d2)"
    "normalize_state js sha (pr_tenant p) sid vid (assign_serial d sid bypass stored)
       (stored\<lparr>st_serial := assign_serial d sid bypass stored\<rparr>) d2 = Inr d3"
    and d': "d' = (let e = log_state_write p sid vid actor source (assign_serial d sid bypass stored) (set_current sid vid d3)
       in if \<not> bypass \<and> trim_space lock_id \<noteq> [] then advance_lock sid (trim_space lock_id) (assign_serial d sid bypass stored) e else e)"
    by (auto simp: write_state_internal_def Let_def)
  have "locks_of d' i = locks_of d3 i" unfolding d' Let_def by (simp add: adv) (simp add: locks_of_def)
  moreover have "db_locks d2 = db_locks d" using 4(1) by (auto simp: insert_version_def split: if_splits)
  moreover have "db_locks d3 = db_locks d2" using 4(2) by (auto elim!: normalize_stateE)
  moreover have "db_locks d = db_locks d0" by (rule upsert_state_frame[OF assms(2)])
  ultimately show ?thesis by (simp add: locks_of_def)
qed


lemma untouched_write:
  assumes inv: "store_inv js sha d0" and w: "write_state js sha iter p name lock_id raw source actor d0 = Inr d'"
    and i: "i \<in> state_ids d0"
  shows "untouched i d0 d' \<or> (\<exists>r. state_by_id d0 i = Some r \<and> sr_tenant r = pr_tenant p \<and> sr_name r = name)"
proof -
  have ok: "store_ok d0" "db_ok d0" using inv by (simp_all add: store_inv_def store_ok_def)
  from w[unfolded write_state_def] obtain parsed sid d stored v where e: "parse_state raw = Inr parsed"
    "upsert_state p name (st_lineage parsed) (creator_of source) d0 = Inr (sid, d)"
    "route_write iter d sid lock_id False parsed = Inr stored"
    "vr_serial v = assign_serial d sid False stored" "vr_raw v = stored\<lparr>st_serial := vr_serial v\<rparr>"
    "full_write js sha d sid v d'" by (rule write_state_internalE)
  show ?thesis
  proof (cases "i = sid")
    case True
    then show ?thesis using upsert_state_owner[OF e(2) ok(2)] i by simp
  next
    case False
    have "store_ok d" using quiet_store_ok[OF ok(1) quiet_upsert[OF ok(2) e(2)]] .
    moreover have "sid \<in> state_ids d" using upsert_state_ok[OF ok(2) e(2)] by simp
    moreover have "\<forall>s \<in> set (state_serials d sid). s < vr_serial v"
      using next_serial_fresh by (auto simp: e(4) assign_serial_def)
    moreover have "st_version (vr_raw v) = 4"
      using route_write_version[OF e(3)] parse_state_version[OF e(1)] e(5) by simp
    ultimately have a: "version_added d sid v d'" using full_write_added(1) e(6) by blast
    have "rows_of i (db_ledger d') = rows_of i (db_ledger d)" by (rule ledger_added_rows[OF a False])
    moreover have "state_by_id d' i = state_by_id d i"
      using version_addedD(6)[OF a] state_by_id_update[of "\<lambda>r. r\<lparr>sr_current := Some (vr_id v)\<rparr>" sid d i] False
      by (simp add: state_by_id_def set_current_def option.map_ident)
    moreover have "filter (\<lambda>v. vr_state_id v = i) (db_versions d') = filter (\<lambda>v. vr_state_id v = i) (db_versions d)"
      using version_addedD(2,5)[OF a] False by simp
    moreover have "locks_of d' i = locks_of d i"
      using write_state_internal_locks[OF w[unfolded write_state_def] e(2,1) False] upsert_state_frame(2)[OF e(2)]
      by (simp add: locks_of_def)
    ultimately have "untouched i d d'" by (simp add: untouched_def)
    then show ?thesis using untouched_trans[OF untouched_upsert[OF e(2) False]] by blast
  qed
qed

lemma match_any_lifecycle_row:
  assumes "match_any_lifecycle d tenant name = Some r"
  shows "r \<in> set (db_states d) \<and> sr_tenant r = tenant \<and>
    (sr_name r = name \<or> sr_status r = ''archived'' \<and> like (archived_pattern name) (sr_name r))"
  using assms by (auto simp: match_any_lifecycle_def pick_named_def find_Some_iff split: option.splits dest!: nth_mem)

lemma untouched_delete:
  assumes ok: "db_ok d" and w: "delete_state p name lock_id actor d = Inr d'"
  shows "untouched i d d' \<or> (\<exists>r. state_by_id d i = Some r \<and> sr_tenant r = pr_tenant p \<and>
    (sr_name r = name \<or> sr_status r = ''archived'' \<and> like (archived_pattern name) (sr_name r)))"
proof -
  obtain r where r: "match_any_lifecycle d (pr_tenant p) name = Some r"
    and d': "d' = drop_state (sr_id r) (log_event ''state_delete'' (pr_tenant p) (sr_id r) None actor [] d)"
    using w by (auto simp: delete_state_def split: option.splits)
  show ?thesis
  proof (cases "i = sr_id r")
    case True
    then show ?thesis using match_any_lifecycle_row[OF r] state_by_id_mem[of d r] ok by (auto simp: db_ok_def)
  next
    case False
    have "find (\<lambda>x. sr_id x = i) (filter (\<lambda>x. sr_id x \<noteq> sr_id r) xs) = find (\<lambda>x. sr_id x = i) xs" for xs
      using False by (induction xs) auto
    moreover have "filter P (filter Q xs) = filter P xs" if "\<And>x. P x \<Longrightarrow> Q x" for P Q and xs :: "'a list"
      using that by (induction xs) auto
    ultimately have "untouched i d (drop_state (sr_id r) d)"
      using False by (auto simp: untouched_def state_by_id_def locks_of_def rows_of_def drop_state_def intro: filter_cong)
    then show ?thesis unfolding d' by (simp add: untouched_def drop_state_def log_event_def state_by_id_def locks_of_def)
  qed
qed


text \<open>The state that an operation on a name may touch.\<close>

definition addressed :: "string \<Rightarrow> string \<Rightarrow> string \<Rightarrow> state_row \<Rightarrow> bool" where
  "addressed tenant meth name r \<longleftrightarrow> sr_tenant r = tenant \<and>
     (sr_name r = name \<or> meth = ''DELETE'' \<and> sr_status r = ''archived'' \<and> like (archived_pattern name) (sr_name r))"

lemma store_principal_simps [simp]: "pr_tenant (store_principal p) = ap_tenant p"
  by (simp add: store_principal_def)

lemma untouched_acquire:
  assumes "acquire_lock p name info now d = Inr d'" and ok: "db_ok d" and i: "i \<in> state_ids d"
  shows "untouched i d d' \<or> (\<exists>r. state_by_id d i = Some r \<and> sr_tenant r = pr_tenant p \<and> sr_name r = name)"
  using assms(1)
proof (cases rule: acquire_lockE)
  case (1 sid d1 src)
  show ?thesis
  proof (cases "i = sid")
    case True
    then show ?thesis using upsert_state_owner[OF 1(1) ok] i by simp
  next
    case False
    then have "untouched i d1 d'" unfolding 1(6)
      by (simp add: untouched_def insert_lock_def locks_of_def state_by_id_def)
    then show ?thesis using untouched_trans[OF untouched_upsert[OF 1(1) False]] by blast
  qed
qed

lemma locks_of_delete_locks: "(\<And>l. P l \<Longrightarrow> lk_state_id l = sid) \<Longrightarrow> i \<noteq> sid \<Longrightarrow> locks_of (delete_locks P d) i = locks_of d i"
  by (auto simp: locks_of_def delete_locks_def intro!: filter_cong)

lemma untouched_delete_locks:
  "(\<And>l. P l \<Longrightarrow> lk_state_id l = sid) \<Longrightarrow> i \<noteq> sid \<Longrightarrow> untouched i d (delete_locks P d)"
  by (rule untouched_locks) (simp_all add: delete_locks_def locks_of_delete_locks[unfolded delete_locks_def])

lemma find_state_owner:
  "find_state d t name = Some r \<Longrightarrow> db_ok d \<Longrightarrow> state_by_id d (sr_id r) = Some r \<and> sr_tenant r = t \<and> sr_name r = name"
  using find_state_SomeD[of d t name r] state_by_id_mem[of d r] by (simp add: db_ok_def)

lemma untouched_release:
  assumes w: "release_lock p name lock_id actor d = Inr d' \<or> force_release_lock p name actor d = Inr d'" and ok: "db_ok d"
  shows "untouched i d d' \<or> (\<exists>r. state_by_id d i = Some r \<and> sr_tenant r = pr_tenant p \<and> sr_name r = name)"
proof (cases "find_state d (pr_tenant p) name")
  case None
  then show ?thesis using w by (auto simp: release_lock_def force_release_lock_def)
next
  case (Some r)
  have "untouched i d d'" if "i \<noteq> sr_id r"
    using w Some that
    by (auto simp: release_lock_def force_release_lock_def Let_def split: if_splits option.splits
        intro!: untouched_delete_locks[where sid = "sr_id r"])
  then show ?thesis using find_state_owner[OF Some ok] by (cases "i = sr_id r") auto
qed

section \<open>What a method does\<close>

lemmas method_defs = handle_post_def handle_delete_def handle_lock_def post_error_def delete_error_def error_reply_def reply_def

lemma reply_simps [simp]: "rp_status (reply n b) = n" "rp_body (reply n b) = b" "rp_status (error_reply n m) = n" "rp_body (error_reply n m) = ErrorBody m"
  by (simp_all add: reply_def error_reply_def)

lemma post_error_status [simp]: "rp_status (post_error e) \<noteq> 200"
  by (simp add: post_error_def split: store_error.split merge_error.split)

lemma delete_error_status [simp]: "rp_status (delete_error e) \<noteq> 200"
  by (simp add: delete_error_def split: store_error.split)

lemma unlock_error_status [simp]: "rp_status (unlock_error e) \<noteq> 200" "rp_status (force_unlock_error e) \<noteq> 200"
  by (simp_all add: unlock_error_def force_unlock_error_def split: store_error.split)

text \<open>A method either answers something else than 200 and changes nothing, or is one call of the store that succeeded.\<close>

lemma handle_post_cases:
  assumes "handle_post cd js sha iter p name r d = (rep, d')"
  shows "rp_status rep \<noteq> 200 \<and> d' = d \<or> rp_status rep = 200 \<and>
    write_state js sha iter (store_principal p) name (rq_query_id r) (cd_state cd (rq_body r)) ''http_backend''
      (actor_from_request cd r) d = Inr d'"
  using assms by (auto simp: handle_post_def split: if_splits sum.splits)

lemma handle_delete_cases:
  assumes "handle_delete cd p name r d = (rep, d')"
  shows "rp_status rep \<noteq> 200 \<and> d' = d \<or> rp_status rep = 200 \<and>
    delete_state (store_principal p) name (rq_query_id r) (actor_from_request cd r) d = Inr d'"
  using assms by (auto simp: handle_delete_def split: sum.splits)

lemma handle_lock_cases:
  assumes "handle_lock cd now p name r d = (rep, d')"
  shows "rp_status rep \<noteq> 200 \<and> d' = d \<or> rp_status rep = 200 \<and>
    (\<exists>info. cd_lock cd (rq_body r) = Some info \<and> acquire_lock (store_principal p) name info now d = Inr d')"
  using assms by (auto simp: handle_lock_def split: if_splits sum.splits option.splits store_error.splits)

lemma handle_unlock_cases:
  assumes "handle_unlock cd p name r d = (rep, d')"
  shows "rp_status rep \<noteq> 200 \<and> d' = d \<or> rp_status rep = 200 \<and>
    (\<exists>lock_id. release_lock (store_principal p) name lock_id (actor_from_request cd r) d = Inr d' \<or>
      force_release_lock (store_principal p) name (actor_from_request cd r) d = Inr d')"
  using assms by (auto simp: handle_unlock_def split: if_splits sum.splits option.splits prod.splits)

lemma handle_get_body:
  assumes "rp_body (handle_get p name d) = StateBody st"
  shows "get_current_state d (ap_tenant p) name = Inr st"
  using assms by (auto simp: handle_get_def split: sum.splits store_error.splits)

lemma handle_state_cases:
  assumes "handle_state cd js sha iter up now p r d = (rep, d')"
  shows "rp_status rep \<noteq> 200 \<and> d' = d \<or> rp_status rep = 200 \<and> validate_state_name p (rq_name r) \<and>
     (rq_method r = ''GET'' \<and> d' = d \<or>
      rq_method r = ''POST'' \<and> write_state js sha iter (store_principal p) (rq_name r) (rq_query_id r) (cd_state cd (rq_body r)) ''http_backend''
          (actor_from_request cd r) d = Inr d' \<or>
      rq_method r = ''DELETE'' \<and> delete_state (store_principal p) (rq_name r) (rq_query_id r) (actor_from_request cd r) d = Inr d' \<or>
      rq_method r = ''LOCK'' \<and> (\<exists>info. acquire_lock (store_principal p) (rq_name r) info now d = Inr d') \<or>
      rq_method r = ''UNLOCK'' \<and> (\<exists>lock_id. release_lock (store_principal p) (rq_name r) lock_id (actor_from_request cd r) d = Inr d' \<or>
         force_release_lock (store_principal p) (rq_name r) (actor_from_request cd r) d = Inr d'))"
  using assms
  by (auto simp: handle_state_def state_method_def split: if_splits
      dest!: handle_post_cases handle_delete_cases handle_lock_cases handle_unlock_cases)

lemma handle_state_untouched:
  assumes "handle_state cd js sha iter up now p r d = (rep, d')" and inv: "store_inv js sha d" and i: "i \<in> state_ids d"
  shows "untouched i d d' \<or> validate_state_name p (rq_name r) \<and>
    (\<exists>s. state_by_id d i = Some s \<and> addressed (ap_tenant p) (rq_method r) (rq_name r) s)"
proof -
  have ok: "db_ok d" using inv by (simp add: store_inv_def store_ok_def)
  show ?thesis
    using handle_state_cases[OF assms(1)] untouched_write[OF inv, of _ "store_principal p" "rq_name r"]
      untouched_delete[OF ok, of "store_principal p" "rq_name r"] untouched_acquire[OF _ ok i, of "store_principal p" "rq_name r"]
      untouched_release[OF _ ok, of "store_principal p" "rq_name r"] i
    unfolding addressed_def store_principal_simps by (metis untouched_refl)
qed

lemma handle_state_unlock_post_cases:
  assumes "handle_state_unlock_post cd up p r d = (rep, d')"
  shows "rp_status rep \<noteq> 200 \<and> d' = d \<or> rp_status rep = 200 \<and> validate_state_name p (rq_name r) \<and>
    (\<exists>lock_id. release_lock (store_principal p) (rq_name r) lock_id (actor_from_request cd r) d = Inr d' \<or>
      force_release_lock (store_principal p) (rq_name r) (actor_from_request cd r) d = Inr d')"
  using assms by (auto simp: handle_state_unlock_post_def split: if_splits dest!: handle_unlock_cases)

lemma with_auth_cases:
  assumes "with_auth cd H mode po ready now r handler c d = (rep, c', d')"
  shows "rp_status rep \<in> {401, 503} \<and> d' = d \<or>
    (\<exists>p. authenticate_request cd H mode po now r c = (c', Inr p) \<and> handler p d = (rep, d'))"
  using assms by (auto simp: with_auth_def split: option.splits availability.splits prod.splits sum.splits)


lemma handle_state_unlock_untouched:
  assumes "handle_state_unlock_post cd up p r d = (rep, d')" and ok: "db_ok d"
  shows "untouched i d d' \<or> validate_state_name p (rq_name r) \<and>
    (\<exists>s. state_by_id d i = Some s \<and> addressed (ap_tenant p) (rq_method r) (rq_name r) s)"
  using handle_state_unlock_post_cases[OF assms(1)] untouched_release[OF _ ok, of "store_principal p" "rq_name r"]
  unfolding addressed_def store_principal_simps by (metis untouched_refl)

lemma serve_untouched:
  assumes "serve route cd js sha iter H mode po ready up now r c d = (rep, c', d')" and inv: "store_inv js sha d" and i: "i \<in> state_ids d"
    and u: "\<not> untouched i d d'"
  shows "\<exists>p s. authenticate_request cd H mode po now r c = (c', Inr p) \<and> validate_state_name p (rq_name r) \<and>
    state_by_id d i = Some s \<and> addressed (ap_tenant p) (rq_method r) (rq_name r) s"
proof (cases route)
  case StatesRoute
  then have "with_auth cd H mode po ready now r (\<lambda>p. handle_state cd js sha iter up now p r) c d = (rep, c', d')"
    using assms(1) by (simp add: serve_def serve_state_def)
  from with_auth_cases[OF this] u obtain p where p: "authenticate_request cd H mode po now r c = (c', Inr p)"
    "handle_state cd js sha iter up now p r d = (rep, d')" by auto
  then show ?thesis using handle_state_untouched[OF p(2) inv i] u by blast
next
  case StateUnlockRoute
  then have "with_auth cd H mode po ready now r (\<lambda>p. handle_state_unlock_post cd up p r) c d = (rep, c', d')"
    using assms(1) by (simp add: serve_def serve_state_unlock_def)
  from with_auth_cases[OF this] u obtain p where p: "authenticate_request cd H mode po now r c = (c', Inr p)"
    "handle_state_unlock_post cd up p r d = (rep, d')" by auto
  moreover have "db_ok d" using inv by (simp add: store_inv_def store_ok_def)
  ultimately show ?thesis using handle_state_unlock_untouched[OF p(2)] u by blast
qed

end
