(* ===== verification/HttpClaims.thy ===== *)
theory HttpClaims
  imports HttpBackend ControlExamples
begin

text \<open>
  What the HTTP backend guarantees over the control plane and the store together: who can change a state, and what a refused
  request means.
\<close>

section \<open>Who is served\<close>

text \<open>A live token for the environment, or a personal token of a member of the tenant who may use the environment.\<close>

definition holds_credential :: "portal_tables \<Rightarrow> control \<Rightarrow> string \<Rightarrow> tenant_account \<Rightarrow> environment \<Rightarrow> bool" where
  "holds_credential po c hash t v \<longleftrightarrow>
     (\<exists>k \<in> set (cp_tokens c). tk_hash k = hash \<and> tk_revoked_at k = None \<and> tk_status k = ''active'' \<and>
        tk_tenant k = te_id t \<and> tk_env k = nv_id v) \<or>
     (\<exists>a. (a, hash, False) \<in> set (po_pats po) \<and> (te_slug t, a, False) \<in> set (po_members po) \<and> nv_tenant v = te_id t \<and>
        (te_kind t = ''personal'' \<and> te_owner t = Some a \<or> (a, nv_id v, False) \<in> set (po_grants po)))"

lemma touch_tokens_keeps [simp]: "cp_tenants (touch_tokens now h c) = cp_tenants c" "cp_environments (touch_tokens now h c) = cp_environments c"
  by (simp_all add: touch_tokens_def)

lemma authenticate_api_token_keeps:
  "cp_tenants (fst (authenticate_api_token H now s t c)) = cp_tenants c"
  "cp_environments (fst (authenticate_api_token H now s t c)) = cp_environments c"
  by (simp_all add: authenticate_api_token_def Let_def split: option.split)

lemma backend_principal:
  assumes ok: "control_ok c" and "authenticate_backend_token H po now secret hint st c = (c', Inr p)"
  shows "\<exists>t v user email source. p = principal_of t v user email source \<and> t \<in> set (cp_tenants c) \<and> te_status t = ''active'' \<and>
    v \<in> set (cp_environments c) \<and> nv_status v = ''active'' \<and> holds_credential po c (H (trim_space secret)) t v"
proof (cases "snd (authenticate_api_token H now secret hint c)")
  case (Inr q)
  then have "q = p" using assms(2) by (simp add: authenticate_backend_token_def case_prod_beta)
  then obtain k t v where k: "(k, t, v) \<in> set (joined_tokens c)" "token_accepted (H (trim_space secret)) hint (k, t, v)"
    "p = principal_of t v [] (te_slug t @ ''/'' @ nv_slug v @ ''/'' @ tk_name k) ''http-api-token''"
    using Inr authenticate_api_token_iff[OF ok, of H now secret hint p] by blast
  then have "holds_credential po c (H (trim_space secret)) t v"
    unfolding joined_tokens_iff[OF ok] by (auto simp: holds_credential_def token_accepted_def)
  moreover have "t \<in> set (cp_tenants c)" "te_status t = ''active''" "v \<in> set (cp_environments c)" "nv_status v = ''active''"
    using k(1,2) unfolding joined_tokens_iff[OF ok] token_accepted_def by auto
  ultimately show ?thesis using k(3) by blast
next
  case (Inl e)
  define c1 where "c1 = fst (authenticate_api_token H now secret hint c)"
  have "\<exists>ws pub m rest. pat_matches po c1 (H (trim_space secret)) ws pub = m # rest \<and>
      p = principal_of (fst (snd (snd m))) (snd (snd (snd m))) (fst m) (fst (snd m)) ''portal-pat''"
    using assms(2) Inl
    by (simp add: authenticate_backend_token_def case_prod_beta c1_def split: if_splits option.splits list.splits)
      (metis prod.collapse)
  then obtain ws pub a email t v where "(a, email, t, v) \<in> set (pat_matches po c1 (H (trim_space secret)) ws pub)"
    and p: "p = principal_of t v a email ''portal-pat''" by (metis list.set_intros(1) prod.collapse)
  moreover from this(1) have "t \<in> set (cp_tenants c)" "te_status t = ''active''" "v \<in> set (cp_environments c)" "nv_status v = ''active''"
      "holds_credential po c (H (trim_space secret)) t v"
    using authenticate_api_token_keeps[of H now secret hint c, folded c1_def] by (auto simp: pat_matches_def holds_credential_def)
  ultimately show ?thesis by blast
qed

lemma validate_state_name_segments:
  assumes "validate_state_name p name"
  shows "trim_space (ap_workspace p) = [] \<or> trim_space (ap_env_public p) = [] \<or>
    (\<exists>rest. split_on (CHR ''/'') (trim_slashes (trim_space name)) = trim_space (ap_workspace p) # trim_space (ap_env_public p) # rest)"
  using assms by (auto simp: validate_state_name_def Let_def split: if_splits list.splits)

section \<open>A state that is locked\<close>

lemma route_write_locked: "route_write iter d sid lock_id False st = Inl StateLocked \<Longrightarrow> lock_id = [] \<and> locks_of d sid \<noteq> []"
  by (auto simp: route_write_def optimistic_merge_def check_lock_for_write_def check_any_lock_blocks_def probe_lock_def Let_def
      parse_state_def read_lock_source_serial_def bind_result_def lift_error_def split: if_splits option.splits list.splits sum.splits)


lemma locks_only_known: "db_ok d \<Longrightarrow> locks_of d sid \<noteq> [] \<Longrightarrow> sid \<in> state_ids d"
  by (auto simp: db_ok_def locks_ok_def locks_of_def filter_empty_conv)

text \<open>A state whose upsert finds it locked was there, under that name.\<close>

lemma upsert_locked:
  assumes "upsert_state p name lineage creator d = Inr (sid, d')" and "db_ok d" and "l \<in> set (locks_of d' sid)"
  shows "\<exists>s \<in> set (db_states d). sr_tenant s = pr_tenant p \<and> sr_name s = name \<and> l \<in> set (locks_of d (sr_id s))"
proof -
  have l: "l \<in> set (locks_of d sid)" using assms(3) upsert_state_frame(2)[OF assms(1)] by (simp add: locks_of_def)
  then have "sid \<in> state_ids d" using locks_only_known[OF assms(2), of sid] by (cases "locks_of d sid") auto
  then show ?thesis using upsert_state_owner[OF assms(1,2)] l by (auto dest: state_by_id_SomeD)
qed

lemma upsert_state_errors: "upsert_state p name lineage creator d \<noteq> Inl StateLocked" "upsert_state p name lineage creator d \<noteq> Inl (AlreadyLocked i)"
  by (auto simp: upsert_state_def check_upsert_def parse_lifecycle_status_def Let_def bind_result_eq_Inl split: option.splits prod.splits if_splits)

lemma enforce_errors: "enforce_tenant_active d t \<noteq> Inl StateLocked" "enforce_tenant_active d t \<noteq> Inl (AlreadyLocked i)"
  "enforce_state_limits p d sid name s \<noteq> Inl StateLocked"
  by (auto simp: enforce_tenant_active_def enforce_state_limits_def Let_def split: option.splits if_splits prod.splits)

lemma write_tail_errors: "insert_version p sid serial tfv doc source actor d \<noteq> Inl StateLocked"
  "normalize_state js sha t sid vid serial s d \<noteq> Inl StateLocked" "parse_state raw \<noteq> Inl StateLocked"
  by (auto simp: insert_version_def normalize_state_def parse_state_def bind_result_eq_Inl lift_error_def split: option.splits sum.splits)

lemma write_state_locked:
  assumes "write_state js sha iter p name lock_id raw source actor d = Inl StateLocked" and ok: "db_ok d"
  shows "lock_id = [] \<and> (\<exists>s \<in> set (db_states d). sr_tenant s = pr_tenant p \<and> sr_name s = name \<and> locks_of d (sr_id s) \<noteq> [])"
proof -
  obtain parsed sid d1 where u: "upsert_state p name (st_lineage parsed) (creator_of source) d = Inr (sid, d1)"
    and w: "route_write iter d1 sid lock_id False parsed = Inl StateLocked"
    using assms(1) unfolding write_state_def write_state_internal_def Let_def bind_result_eq_Inl
    by (auto simp: upsert_state_errors enforce_errors write_tail_errors bind_result_eq_Inl split: prod.splits)
  have "lock_id = []" "locks_of d1 sid \<noteq> []" using route_write_locked[OF w] by blast+
  then show ?thesis using upsert_locked[OF u ok, of "hd (locks_of d1 sid)"] by force
qed

lemma delete_state_locked:
  assumes "delete_state p name lock_id actor d = Inl StateLocked"
  shows "lock_id = [] \<and> (\<exists>s \<in> set (db_states d). addressed (pr_tenant p) ''DELETE'' name s \<and> locks_of d (sr_id s) \<noteq> [])"
  using assms
  by (auto simp: delete_state_def bind_result_eq_Inl enforce_errors check_lock_for_write_def probe_lock_def addressed_def
      split: option.splits list.splits if_splits dest!: match_any_lifecycle_row)

lemma acquire_lock_held:
  assumes "acquire_lock p name info now d = Inl (AlreadyLocked held)" and ok: "db_ok d"
  shows "\<exists>s \<in> set (db_states d). sr_tenant s = pr_tenant p \<and> sr_name s = name \<and> held \<in> lk_info ` set (locks_of d (sr_id s))"
proof -
  obtain sid d1 where u: "upsert_state p name [] CreatorBackend d = Inr (sid, d1)"
    and w: "scan_existing_lock d1 sid = Some held \<or> probe_lock d1 sid = Some held \<or> map_option lk_info (find_lock d1 sid (li_id info)) = Some held"
    using assms(1) unfolding acquire_lock_def bind_result_eq_Inl Let_def
    by (auto simp: upsert_state_errors enforce_errors split: prod.splits if_splits option.splits)
  have scan: "scan_existing_lock d1 sid = Some h \<Longrightarrow> h \<in> lk_info ` set (locks_of d1 sid)" for h
    unfolding scan_existing_lock_def by (metis (no_types, lifting) image_eqI list.case_eq_if list.set_sel(1) option.distinct(1) option.inject set_sort list.exhaust_sel)
  have "held \<in> lk_info ` set (locks_of d1 sid)"
    using w
  proof (elim disjE)
    assume "probe_lock d1 sid = Some held" then show ?thesis by (auto simp: probe_lock_def split: list.splits)
  next
    assume "map_option lk_info (find_lock d1 sid (li_id info)) = Some held"
    then show ?thesis by (auto simp: find_lock_def find_Some_iff locks_of_def)
  qed (rule scan)
  then obtain l where "l \<in> set (locks_of d1 sid)" "lk_info l = held" by blast
  then show ?thesis using upsert_locked[OF u ok] by (metis image_eqI)
qed


section \<open>The properties\<close>


lemma handle_state_423:
  assumes "handle_state cd js sha iter up now p r d = (rep, d')" and "rp_status rep = 423" and ok: "db_ok d"
  shows "\<exists>s \<in> set (db_states d). addressed (ap_tenant p) (rq_method r) (rq_name r) s \<and> locks_of d (sr_id s) \<noteq> [] \<and>
    (if rq_method r = ''LOCK'' then \<exists>l \<in> set (locks_of d (sr_id s)). rp_body rep = LockBody (lk_info l) else rq_query_id r = [])"
proof -
  consider "rq_method r = ''POST''" "write_state js sha iter (store_principal p) (rq_name r) (rq_query_id r) (cd_state cd (rq_body r))
        ''http_backend'' (actor_from_request cd r) d = Inl StateLocked"
    | "rq_method r = ''DELETE''" "delete_state (store_principal p) (rq_name r) (rq_query_id r) (actor_from_request cd r) d = Inl StateLocked"
    | info held where "rq_method r = ''LOCK''" "acquire_lock (store_principal p) (rq_name r) info now d = Inl (AlreadyLocked held)"
        "rp_body rep = LockBody held"
    using assms(1,2)
    by (auto simp: handle_state_def state_method_def handle_post_def post_error_def handle_delete_def delete_error_def handle_lock_def
        handle_get_def handle_unlock_def unlock_error_def force_unlock_error_def
        split: if_splits sum.splits option.splits prod.splits store_error.splits merge_error.splits)
  then show ?thesis
  proof cases
    case 1
    then show ?thesis using write_state_locked[OF 1(2) ok] by (auto simp: addressed_def)
  next
    case 2
    then show ?thesis using delete_state_locked[OF 2(2)] by (auto simp: addressed_def)
  next
    case 3
    then show ?thesis using acquire_lock_held[OF 3(2) ok] by (auto simp: addressed_def)
  qed
qed

text \<open>C22: A request of the two state routes that is not answered with 200 changes no table of the store. When the answer is
  423 then the request was for a state that is locked: a lock request gets the information of a lock that is held, and a write or a
  deletion had no lock identifier.\<close>

theorem http_refusal_changes_nothing:
  assumes "reachable js sha iter d" and "visits iter"
    and "serve route cd js sha iter H mode po ready up now r c d = (rep, c', d')" and "rp_status rep \<noteq> 200"
  shows "d' = d \<and> (rp_status rep = 423 \<longrightarrow> (\<exists>p. \<exists>s \<in> set (db_states d). snd (authenticate_request cd H mode po now r c) = Inr p \<and>
    addressed (ap_tenant p) (rq_method r) (rq_name r) s \<and> locks_of d (sr_id s) \<noteq> [] \<and>
    (if rq_method r = ''LOCK'' then \<exists>l \<in> set (locks_of d (sr_id s)). rp_body rep = LockBody (lk_info l) else rq_query_id r = [])))"
proof -
  have ok: "db_ok d" using reachable_inv[OF assms(1,2)] by (simp add: store_inv_def store_ok_def)
  show ?thesis
  proof (cases route)
    case StatesRoute
    then have w: "with_auth cd H mode po ready now r (\<lambda>p. handle_state cd js sha iter up now p r) c d = (rep, c', d')"
      using assms(3) by (simp add: serve_def serve_state_def)
    show ?thesis
      using with_auth_cases[OF w] handle_state_cases[of cd js sha iter up now _ r d rep d'] handle_state_423[OF _ _ ok, of cd js sha iter up now _ r rep d'] assms(4)
      by fastforce
  next
    case StateUnlockRoute
    then have w: "with_auth cd H mode po ready now r (\<lambda>p. handle_state_unlock_post cd up p r) c d = (rep, c', d')"
      using assms(3) by (simp add: serve_def serve_state_unlock_def)
    have "rp_status rep' \<noteq> 423" if "handle_state_unlock_post cd up p r d = (rep', e)" for p rep' e
      using that by (auto simp: handle_state_unlock_post_def handle_unlock_def unlock_error_def force_unlock_error_def
          split: if_splits sum.splits option.splits prod.splits store_error.splits)
    then show ?thesis using with_auth_cases[OF w] handle_state_unlock_post_cases[of cd up _ r d rep d'] assms(4) by fastforce
  qed
qed


section \<open>Two clients and a lock\<close>

text \<open>The token of the run of the control plane, on a state that ann has locked.\<close>

definition ex_codec :: codec where
  "ex_codec = \<lparr>cd_valid = (\<lambda>b. True), cd_state = (\<lambda>b. None), cd_lock = (\<lambda>b. Some (ex_lock b)), cd_text = (\<lambda>b. None), cd_basic = (\<lambda>b. None)\<rparr>"

definition ex_request :: "string \<Rightarrow> string \<Rightarrow> http_request" where
  "ex_request meth body = \<lparr>rq_method = meth, rq_path = ''/v1/states/ws_000000000000/env_0/a'', rq_name = ''ws_000000000000/env_0/a'',
     rq_query_id = [], rq_query_state_name = [], rq_query_name = [], rq_header_state_name = [], rq_authorization = ''Bearer s3cret'',
     rq_user_agent = [], rq_body = body\<rparr>"

definition ex_portal :: portal_tables where
  "ex_portal = \<lparr>po_pats = [], po_accounts = [], po_members = [], po_grants = []\<rparr>"

definition ex_served :: "http_request \<Rightarrow> control \<Rightarrow> db \<Rightarrow> http_reply \<times> control \<times> db" where
  "ex_served r = serve StatesRoute ex_codec (\<lambda>j. []) id id ex_hash DatabaseMode ex_portal None True 7 r"

lemma ex_served_eq: "serve StatesRoute ex_codec (\<lambda>j. []) id id ex_hash DatabaseMode ex_portal None True 7 r c d =
    (fst (ex_served r c d), fst (snd (ex_served r c d)), snd (snd (ex_served r c d)))"
  by (simp add: ex_served_def)

lemma visits_in_order: "visits id"
  by (simp add: visits_def)

definition ex_locked_db :: db where
  "ex_locked_db = projr (run_lock_op (\<lambda>j. []) (LockOp \<lparr>pr_tenant = ''0'', pr_workspace = [], pr_environment = [], pr_lock_default = []\<rparr>
     ''ws_000000000000/env_0/a'' (ex_lock ''ann'') 1) empty_db)"

lemma ex_locked_reachable: "reachable (\<lambda>j. []) id id ex_locked_db"
  unfolding ex_locked_db_def
  by (rule reachable.Step[OF empty_db_reachable store_step.Lock], rule not_isl_Inr) code_simp

lemma ex_locked_facts: "map sr_id (db_states ex_locked_db) = [''0'']" "map (\<lambda>l. li_id (lk_info l)) (locks_of ex_locked_db ''0'') = [''ann'']"
  by code_simp+


theorem http_refusal_changes_nothing_witness:
  "\<exists>l \<in> set (db_locks ex_locked_db). rp_body (fst (ex_served (ex_request ''LOCK'' ''ann'') ex_with_token ex_locked_db)) = LockBody (lk_info l)"
proof -
  let ?o = "ex_served (ex_request ''LOCK'' ''ann'') ex_with_token ex_locked_db"
  have "rp_status (fst ?o) = 423" by code_simp
  moreover have "rq_method (ex_request ''LOCK'' ''ann'') = ''LOCK''" by (simp add: ex_request_def)
  moreover have "rp_status (fst ?o) = 423 \<longrightarrow> (\<exists>p. \<exists>s \<in> set (db_states ex_locked_db).
      snd (authenticate_request ex_codec ex_hash DatabaseMode ex_portal 7 (ex_request ''LOCK'' ''ann'') ex_with_token) = Inr p \<and>
      addressed (ap_tenant p) (rq_method (ex_request ''LOCK'' ''ann'')) (rq_name (ex_request ''LOCK'' ''ann'')) s \<and>
      locks_of ex_locked_db (sr_id s) \<noteq> [] \<and>
      (if rq_method (ex_request ''LOCK'' ''ann'') = ''LOCK'' then \<exists>l \<in> set (locks_of ex_locked_db (sr_id s)). rp_body (fst ?o) = LockBody (lk_info l)
       else rq_query_id (ex_request ''LOCK'' ''ann'') = []))"
    by (rule http_refusal_changes_nothing[OF ex_locked_reachable visits_in_order ex_served_eq, THEN conjunct2]) (simp add: calculation)
  ultimately have "\<exists>s :: state_row. \<exists>l \<in> set (locks_of ex_locked_db (sr_id s)). rp_body (fst ?o) = LockBody (lk_info l)" by auto
  then show ?thesis by (auto simp: locks_of_def)
qed


section \<open>What the routes do not prevent\<close>

text \<open>A padded path belongs to the environment for the check of the path, and to none for the quota and the count of active states.\<close>

definition ex_access :: access_principal where
  "ex_access = (self_hosted_principal [])\<lparr>ap_workspace := ''ws'', ap_env_public := ''env''\<rparr>"

lemma padded_path_escapes_quota:
  "validate_state_name ex_access '' ws/env/x''"
  "\<not> like (environment_state_prefix (store_principal ex_access) '' ws/env/x'' @ ''%'') '' ws/env/x''"
  by code_simp+

definition ex_suspended_db :: db where
  "ex_suspended_db = empty_db\<lparr>db_states := [\<lparr>sr_id = ''0'', sr_tenant = ''00000000-0000-0000-0000-000000000000'', sr_name = ''s'',
     sr_lineage = None, sr_status = ''suspended'', sr_exclusive = False, sr_coexistence = ''warn'', sr_current = None\<rparr>], db_next := 1\<rparr>"

text \<open>A suspended state: a write is refused with 403 and a lock with 500.\<close>

lemma lock_of_suspended_state_500:
  "rp_status (fst (handle_lock ex_codec 1 (self_hosted_principal []) ''s'' (ex_request ''LOCK'' ''ann'') ex_suspended_db)) = 500"
  "rp_status (fst (handle_post (ex_codec\<lparr>cd_state := (\<lambda>b. Some (empty_state ''l''))\<rparr>) (\<lambda>j. []) id id (self_hosted_principal []) ''s''
     (ex_request ''POST'' ''b'') ex_suspended_db)) = 403"
  by code_simp+

text \<open>The deletion of a name that does not exist deletes the archive of another one.\<close>

definition ex_archive_db :: db where
  "ex_archive_db = empty_db\<lparr>db_states := [\<lparr>sr_id = ''0'', sr_tenant = ''00000000-0000-0000-0000-000000000000'',
     sr_name = ''axb--archived-1'', sr_lineage = None, sr_status = ''archived'', sr_exclusive = False, sr_coexistence = ''warn'',
     sr_current = None\<rparr>], db_next := 1\<rparr>"

lemma delete_hits_other_archive:
  "rp_status (fst (handle_delete ex_codec (self_hosted_principal []) ''a_b'' (ex_request ''DELETE'' []) ex_archive_db)) = 200"
  "map sr_name (db_states (snd (handle_delete ex_codec (self_hosted_principal []) ''a_b'' (ex_request ''DELETE'' []) ex_archive_db))) = []"
  by code_simp+

text \<open>The identifier of a lock is kept as it came and looked for trimmed: its owner cannot release it.\<close>

lemma padded_lock_not_released:
  "rp_status (fst (handle_lock ex_codec 1 (self_hosted_principal []) ''s'' (ex_request ''LOCK'' '' ann '') empty_db)) = 200"
  "rp_status (fst (handle_unlock ex_codec (self_hosted_principal []) ''s'' (ex_request ''UNLOCK'' '' ann '')
     (snd (handle_lock ex_codec 1 (self_hosted_principal []) ''s'' (ex_request ''LOCK'' '' ann '') empty_db)))) = 409"
  by code_simp+

end
