(* ===== verification/Spec2Isabelle.thy ===== *)
theory Spec2Isabelle
  imports Prelude Address Reservations StateMerge ApplyMerge EngineDelta PlanGraph Ledger Locks StoreHistory StoreWrites StoreDelta
    StateCodec ApplyRuns Orchestrator Evolution ApplyFlow Rollback EngineScope GraphCache ControlExamples HttpClaims
begin

text \<open>
  Kilolock keeps Terraform states in PostgreSQL, one row for each resource instance, so that several runs of Terraform can work
  on one state at once. The client \<^verbatim>\<open>kl\<close> plans, reserves the addresses it touches, runs Terraform on a slice of the state and
  commits the rows it wrote; the server is a Terraform HTTP backend and a state engine over the tables; a control plane has the
  tenants, the environments and the tokens. This development models the core of it in the form the Go code has, and states
  what makes it correct.

  \<^bold>\<open>How the parts interact.\<close> A plan gives a write set of addresses, which the dependency graph closes to a read set
  (\<^verbatim>\<open>internal/plan\<close>) or which the backend expands to a scope over the live graph (\<^verbatim>\<open>internal/backend/state_engine.go\<close>). The
  orchestrator (\<^verbatim>\<open>internal/apply/orchestrator.go\<close>) takes a reservation for each address, slices the state, runs Terraform, and
  commits in a loop: read the current version, check that the read set has not changed, merge the rows it wrote, write the
  next serial, and try again when another client was faster. The store (\<^verbatim>\<open>pkg/store/state.go\<close>) keeps for each version the
  document and, in the ledger (normalize.go), the rows with the interval of serials in which they are live. Whole-state writes
  of plain Terraform go through locks and, for optimistic states, through a three-way merge. Every request is made by a
  principal whom the control plane has authenticated.

  \<^bold>\<open>Theories and code.\<close>

  \<^item> \<open>Prelude\<close>, \<open>GoText\<close>, \<open>Json\<close>: results, Go texts (\<^verbatim>\<open>strings\<close>, \<^verbatim>\<open>strconv\<close>), JSON values. \<open>Claims\<close> and \<open>History\<close>: the
    contracts, as locales, of tables of leases and of versioned tables; the reservations, the locks and the ledger are
    interpretations of them.
  \<^item> \<open>Address\<close>, \<open>StateCodec\<close>: the state document of \<^verbatim>\<open>internal/tfstate\<close> (types.go, address.go), its canonical addresses and how
    they are parsed, and the two decoded forms of one document (\<^verbatim>\<open>internal/slice\<close>).
  \<^item> \<open>PlanGraph\<close>: plan actions, write set, footprint, dependency graph and its closure, the plan spec
    (\<^verbatim>\<open>internal/plan\<close>: plan.go, parse.go, writeset.go, footprint.go, depgraph.go, spec.go, target_scope.go).
  \<^item> \<open>Reservations\<close>: \<^verbatim>\<open>pkg/store/reservations.go\<close>, with a clock and leases. \<open>Locks\<close>: lock.go, state_engine_lock.go, state_lock_mode.go.
  \<^item> \<open>StateMerge\<close>: the merge of optimistic whole-state writes (merge.go). \<open>ApplyMerge\<close>: slices and the merge of the rows of an
    apply (\<^verbatim>\<open>internal/slice/slice.go\<close>, \<^verbatim>\<open>internal/apply/merge.go\<close>, staleness.go). \<open>EngineDelta\<close>: the delta of the state engine
    (state_engine_delta.go, runtf.go, state_engine_commit.go).
  \<^item> \<open>Ledger\<close>: normalize.go, the rows of resources, what a write closes and opens, and the state rebuilt from the open rows.
  \<^item> \<open>Tables\<close>, \<open>Store\<close>: the tables and the write paths of state.go, each transaction a function on the record \<open>db\<close> with an
    error for each way it rolls back. \<open>StoreInvariant\<close>, \<open>StoreKeeps\<close>: the invariant and that every operation keeps it.
  \<^item> \<open>Versions\<close>, \<open>ResourceMutations\<close>, \<open>ResourceReplay\<close>, \<open>ResourceHistory\<close>: versions.go, tags.go, state_engine_mutations.go,
    resource_history.go; \<open>MutationsKeep\<close> and \<open>ReplayKeep\<close> show that they keep the invariant.
  \<^item> \<open>StoreAdvance\<close>: all operations of the store as one step relation \<open>store_step\<close>, and what no step undoes. \<open>StoreHistory\<close>: the
    reachable databases. \<open>StoreWrites\<close>, \<open>StoreDelta\<close>, \<open>Rollback\<close>: what single operations do to them.
  \<^item> \<open>ApplyRuns\<close>: the audit table (apply_runs.go). \<open>Orchestrator\<close>: options, the wait for reservations, one attempt to commit.
    \<open>Evolution\<close>: what other clients can do to a state meanwhile. \<open>ApplyFlow\<close>: the whole run of an apply among them.
  \<^item> \<open>EngineScope\<close>: the live inventory and its graph (state_engine.go of the store), and the expansion of a selection to a
    scope in the backend. \<open>GraphCache\<close>: the cache of graphs, with the requests of concurrent clients as interleaved steps.
  \<^item> \<open>Control\<close>, \<open>ControlAccess\<close>, \<open>ControlTokens\<close>, \<open>ControlRoles\<close>: tenants, environments, their lifecycle, API tokens and
    roles. \<open>ControlInvariant\<close>, \<open>ControlRuns\<close>, \<open>ControlSafety\<close>, \<open>ControlClaims\<close>, \<open>ControlExamples\<close>: the invariant of these tables, that every
    operation keeps it, and what holds in every run.
  \<^item> \<open>HttpBackend\<close>, \<open>HttpClaims\<close>: the state routes of \<^verbatim>\<open>internal/backend/server.go\<close> with the authentication of \<^verbatim>\<open>pkg/auth\<close>, over the
    control plane and the store together.

  \<^bold>\<open>What is shown.\<close> Of the data: addresses, indices, instances and documents survive being written and read back, and where they
  do not (keys that look like numbers, keys with brackets) there is a lemma with the case. Of single operations: the closure
  is the least closed set, the merges keep the writes of both sides and fail exactly when both wrote one address, a delta
  overrides the trunk at its addresses and nowhere else, quotas and locks are respected. Of tables in all runs: two
  conflicting reservations are never held at once; an exclusive state has one lock; the rows live at the serial of a
  version are the resources of the document stored for it; keys and live token hashes are unique. Of composed parts: an apply that commits is
  one serial after the version it merged with, and loses nothing that was written meanwhile; it settles its audit row and
  its reservations however it ends; the graph cache cannot be told from no cache; a revoked token stays revoked; no request changes
  a state of another tenant or environment.

  \<^bold>\<open>Reading the database.\<close> A transaction is a function from tables to an error or new tables. The transactions on one state
  begin with a write of its row, which orders them, so they are atomic; the operations on one exact address of
  state_engine_mutations.go and resource_history.go read before they have locked anything, so there what other clients do
  between the read and the rest is the argument \<open>meanwhile\<close>. Identifiers that the database generates come from a counter.
  Constraints of the schema (\<^verbatim>\<open>pkg/migrate/migrations\<close>) are branches that fail. The order of rows, where a query gives none, and
  of the keys of a Go map are arguments (\<open>pick\<close>, \<open>ord\<close>, \<open>iter\<close>).

  \<^bold>\<open>Bounds and termination.\<close> The commit loop makes eight attempts, as the code does (\<open>maxCommitRetries\<close>), and is a recursion over
  them. The wait for reservations ends by the measure \<open>deadline - now\<close>: each iteration sleeps for a positive time.
  The closure of the read set and the walk of the scope end because the set of addresses they have visited grows within the
  nodes of the graph. Creating a tenant and an operator token try five times. Nothing else needs fuel. Serials and limits are unbounded
  integers where the code has \<^verbatim>\<open>int64\<close> and \<^verbatim>\<open>int\<close>; texts that become numbers are checked against the 64-bit range.

  \<^bold>\<open>Parameters.\<close> \<open>sha\<close> and \<open>H\<close> (SHA-256), \<open>js\<close> (the text of a JSON value), the run of Terraform (\<open>others\<close> and the document it
  leaves), generated secrets and names, the clock, what
  the decoders of requests give (\<open>codec\<close>).

  \<^bold>\<open>Not modelled.\<close> Generated code (\<^verbatim>\<open>internal/grpcwire\<close>); the commands \<^verbatim>\<open>kl\<close>, \<^verbatim>\<open>klc\<close>, \<^verbatim>\<open>kld\<close> and the admin and engine routes
  of the backend apart from the scope expansion, which parse requests, call the operations above and print; the provider protocol and the refresh
  through it (\<^verbatim>\<open>internal/provider\<close>, \<^verbatim>\<open>internal/refresh\<close>), whose results are those of external processes; the discovery and
  evaluation of configuration (\<^verbatim>\<open>internal/configscope\<close> and the rest of \<^verbatim>\<open>internal/plan\<close>), which run OpenTofu's parser; connection
  pools and routing; configuration files, migrations and provisioning; the accounts and sessions of the portal. The lists,
  differences and reports of the store (list.go, diff.go, status.go, drift.go, query.go) only read, and the transfers between
  tenants and the refresh runs are not done yet.
\<close>

end
